(* ===== verification/Prelude.thy ===== *)
theory Prelude
  imports Main "HOL-Library.Word"
begin

text \<open>
  What every component theory of the development shares.

  \<^item> The Rust vocabulary of the model: bytes and machine words, the \<open>Result\<close> type with the
    \<open>?\<close> operator (\<open>rbind\<close>) and \<open>map_err\<close>, decimal printing of integers as \<open>format!\<close> does it.
    A \<open>String\<close> is the \<^typ>\<open>string\<close> of its UTF-8 bytes (one \<^typ>\<open>char\<close> per byte), so
    \<open>as_bytes\<close> is a map over it. A call that may panic has an \<open>option\<close> result, \<open>None\<close> being
    the panic.
  \<^item> SHA-256 and Ed25519 come from third-party crates. The digest is a parameter
    \<open>sha :: bytes \<Rightarrow> bytes\<close> of every definition that hashes; the only documented fact used of it
    is its output length (\<open>sha256_len\<close>), and absence of collisions is assumed on explicitly
    named finite sets of messages, never globally.
  \<^item> The interface \<open>invariant_system\<close> of a state machine with an inductive invariant; each
    component with a step relation interprets it.
\<close>

type_synonym byte = "8 word"
type_synonym bytes = "byte list"
type_synonym u64 = "64 word"

named_theorems result_simps \<open>computation rules of the result combinators\<close>

subsection \<open>Results\<close>

datatype ('a, 'e) result = Ok 'a | Err 'e

primrec rbind :: "('a, 'e) result \<Rightarrow> ('a \<Rightarrow> ('b, 'e) result) \<Rightarrow> ('b, 'e) result" where
  "rbind (Ok a) f = f a"
| "rbind (Err e) f = Err e"

primrec map_err :: "('e \<Rightarrow> 'f) \<Rightarrow> ('a, 'e) result \<Rightarrow> ('a, 'f) result" where
  "map_err g (Ok a) = Ok a"
| "map_err g (Err e) = Err (g e)"

primrec is_ok :: "('a, 'e) result \<Rightarrow> bool" where
  "is_ok (Ok a) = True"
| "is_ok (Err e) = False"

primrec ok_or :: "'e \<Rightarrow> 'a option \<Rightarrow> ('a, 'e) result" where
  "ok_or e None = Err e"
| "ok_or e (Some a) = Ok a"

text \<open>\<open>if cond { return Err(e); }\<close> as a statement.\<close>

definition guard :: "bool \<Rightarrow> 'e \<Rightarrow> (unit, 'e) result" where
  "guard c e = (if c then Ok () else Err e)"

lemma rbind_Ok_iff [result_simps]: "rbind r f = Ok b \<longleftrightarrow> (\<exists>a. r = Ok a \<and> f a = Ok b)"
  by (cases r) auto

lemma rbind_Err_iff [result_simps]:
  "rbind r f = Err e \<longleftrightarrow> r = Err e \<or> (\<exists>a. r = Ok a \<and> f a = Err e)"
  by (cases r) auto

lemma map_err_Ok_iff [result_simps]: "map_err g r = Ok a \<longleftrightarrow> r = Ok a"
  by (cases r) auto

lemma ok_or_Ok_iff [result_simps]: "ok_or e x = Ok a \<longleftrightarrow> x = Some a"
  by (cases x) auto

lemma guard_Ok_iff [result_simps]: "guard c e = Ok u \<longleftrightarrow> c"
  by (simp add: guard_def)

lemma guard_True [simp]: "guard True e = Ok ()"
  by (simp add: guard_def)

lemma guard_False [simp]: "guard False e = Err e"
  by (simp add: guard_def)

lemma is_ok_iff: "is_ok r \<longleftrightarrow> (\<exists>a. r = Ok a)"
  by (cases r) auto

text \<open>A \<open>for\<close> loop whose body may return early with an error.\<close>

primrec for_each :: "('a \<Rightarrow> (unit, 'e) result) \<Rightarrow> 'a list \<Rightarrow> (unit, 'e) result" where
  "for_each f [] = Ok ()"
| "for_each f (x # xs) = rbind (f x) (\<lambda>_. for_each f xs)"

lemma for_each_Ok_iff [result_simps]: "for_each f xs = Ok u \<longleftrightarrow> (\<forall>x \<in> set xs. f x = Ok ())"
  by (induction xs) (auto simp: rbind_Ok_iff)

lemma length_filter_all_iff: "length (filter P xs) = length xs \<longleftrightarrow> list_all P xs"
proof (induction xs)
  case (Cons x xs)
  then show ?case
    using le_imp_less_Suc [OF length_filter_le [of P xs]] by auto
qed simp

subsection \<open>Strings, bytes and decimal printing\<close>

definition as_bytes :: "string \<Rightarrow> bytes" where
  "as_bytes s = map of_char s"

lemma of_char_byte_inj: "(of_char c :: byte) = of_char d \<Longrightarrow> c = d"
proof -
  assume eq: "(of_char c :: byte) = of_char d"
  have "unat (of_char x :: byte) = of_char x" for x :: char
  proof -
    have lt: "(of_char x :: nat) < 256"
      by (simp add: of_char_def)
    have "(of_char x :: byte) = of_nat (of_char x)"
      by (simp add: of_nat_of_char)
    with lt show ?thesis
      by (simp add: unat_of_nat)
  qed
  with eq have "(of_char c :: nat) = of_char d"
    by metis
  then show "c = d"
    by simp
qed

lemma as_bytes_inj: "as_bytes s = as_bytes t \<longleftrightarrow> s = t"
  by (auto simp: as_bytes_def intro: of_char_byte_inj
      dest!: inj_map_eq_map [THEN iffD1, rotated] intro!: injI)

lemma as_bytes_append [simp]: "as_bytes (s @ t) = as_bytes s @ as_bytes t"
  by (simp add: as_bytes_def)

lemma length_as_bytes [simp]: "length (as_bytes s) = length s"
  by (simp add: as_bytes_def)

definition digit :: "nat \<Rightarrow> char" where
  "digit d = char_of (48 + d)"

fun dec_nat :: "nat \<Rightarrow> string" where
  "dec_nat n = (if n < 10 then [digit n] else dec_nat (n div 10) @ [digit (n mod 10)])"

declare dec_nat.simps [simp del]

definition undigit :: "char \<Rightarrow> nat" where
  "undigit c = of_char c - 48"

definition undec :: "string \<Rightarrow> nat" where
  "undec s = foldl (\<lambda>a c. 10 * a + undigit c) 0 s"

lemma undigit_digit: "d < 10 \<Longrightarrow> undigit (digit d) = d"
  by (simp add: undigit_def digit_def of_char_of)

lemma undec_dec_nat: "undec (dec_nat n) = n"
proof (induction n rule: dec_nat.induct)
  case (1 n)
  show ?case
  proof (cases "n < 10")
    case True
    then show ?thesis
      by (simp add: dec_nat.simps [of n] undec_def undigit_digit)
  next
    case False
    with 1 show ?thesis
      by (simp add: dec_nat.simps [of n] undec_def undigit_digit)
  qed
qed

lemma dec_nat_inj: "dec_nat m = dec_nat n \<longleftrightarrow> m = n"
  by (metis undec_dec_nat)

lemma dec_nat_digits: "c \<in> set (dec_nat n) \<Longrightarrow> \<exists>d < 10. c = digit d"
proof (induction n rule: dec_nat.induct)
  case (1 n)
  show ?case
  proof (cases "n < 10")
    case True
    with "1.prems" show ?thesis
      by (auto simp: dec_nat.simps [of n])
  next
    case False
    with "1.prems" "1.IH" show ?thesis
      by (auto simp: dec_nat.simps [of n] intro: exI [of _ "n mod 10"])
  qed
qed

lemma digit_not_colon: "d < 10 \<Longrightarrow> digit d \<noteq> CHR '':''"
  using undigit_digit [of d] by (auto simp: undigit_def)

lemma colon_notin_dec_nat: "CHR '':'' \<notin> set (dec_nat n)"
  using dec_nat_digits [of "CHR '':''" n] digit_not_colon by metis

text \<open>
  \<open>str::trim\<close> removes the Unicode white space characters; on UTF-8 bytes these are the following
  byte sequences. \<open>trim_end_matches\<close> and \<open>trim_start_matches\<close> with a character argument strip
  its repetitions.
\<close>

definition WHITE_SPACE :: "string list" where
  "WHITE_SPACE =
     [[CHR 0x09], [CHR 0x0A], [CHR 0x0B], [CHR 0x0C], [CHR 0x0D], [CHR 0x20],
      [CHR 0xC2, CHR 0x85], [CHR 0xC2, CHR 0xA0], [CHR 0xE1, CHR 0x9A, CHR 0x80]] @
     map (\<lambda>c. [CHR 0xE2, CHR 0x80, c])
       [CHR 0x80, CHR 0x81, CHR 0x82, CHR 0x83, CHR 0x84, CHR 0x85, CHR 0x86,
        CHR 0x87, CHR 0x88, CHR 0x89, CHR 0x8A, CHR 0xA8, CHR 0xA9, CHR 0xAF] @
     [[CHR 0xE2, CHR 0x81, CHR 0x9F], [CHR 0xE3, CHR 0x80, CHR 0x80]]"

function strip_prefixes :: "string list \<Rightarrow> string \<Rightarrow> string" where
  "strip_prefixes ws s =
     (case find (\<lambda>w. w \<noteq> [] \<and> take (length w) s = w) ws of
        None \<Rightarrow> s
      | Some w \<Rightarrow> strip_prefixes ws (drop (length w) s))"
  by pat_completeness auto
termination
proof (relation "measure (\<lambda>(ws, s). length s)")
  fix ws :: "string list" and s w
  assume "find (\<lambda>w. w \<noteq> [] \<and> take (length w) s = w) ws = Some w"
  then have "w \<noteq> []" "take (length w) s = w"
    by (auto simp: find_Some_iff)
  then have "0 < length w" "0 < length s"
    by auto
  then show "((ws, drop (length w) s), (ws, s)) \<in> measure (\<lambda>(ws, s). length s)"
    by simp
qed simp

declare strip_prefixes.simps [simp del]

definition trim :: "string \<Rightarrow> string" where
  "trim s = rev (strip_prefixes (map rev WHITE_SPACE) (rev (strip_prefixes WHITE_SPACE s)))"

definition trim_start_matches :: "char \<Rightarrow> string \<Rightarrow> string" where
  "trim_start_matches c s = dropWhile ((=) c) s"

definition trim_end_matches :: "char \<Rightarrow> string \<Rightarrow> string" where
  "trim_end_matches c s = rev (dropWhile ((=) c) (rev s))"

text \<open>\<open>split_once\<close> splits at the first occurrence of a pattern.\<close>

fun split_once :: "string \<Rightarrow> string \<Rightarrow> (string \<times> string) option" where
  "split_once pat s =
     (if take (length pat) s = pat then Some ([], drop (length pat) s)
      else case s of [] \<Rightarrow> None
           | c # cs \<Rightarrow> map_option (\<lambda>(a, b). (c # a, b)) (split_once pat cs))"

declare split_once.simps [simp del]

lemma split_once_Some: "split_once pat s = Some (a, b) \<Longrightarrow> s = a @ pat @ b"
proof (induction pat s arbitrary: a b rule: split_once.induct)
  case (1 pat s)
  show ?case
  proof (cases "take (length pat) s = pat")
    case True
    with "1.prems" show ?thesis
      by (subst (asm) split_once.simps) (metis Pair_inject append_Nil append_take_drop_id option.inject)
  next
    case False
    with 1 show ?thesis
      by (subst (asm) (2) split_once.simps) (auto split: list.splits)
  qed
qed

subsection \<open>Integers and time\<close>

definition sat_sub :: "nat \<Rightarrow> nat \<Rightarrow> nat" where
  "sat_sub a b = a - b"

lemma unat_of_nat_u64: "n < 2 ^ 64 \<Longrightarrow> unat (of_nat n :: u64) = n"
  by (simp add: unsigned_of_nat take_bit_nat_eq_self)

text \<open>The wrapping \<open>u64\<close> addition of a release build, on the natural numbers of its operands.\<close>

definition add_u64 :: "nat \<Rightarrow> nat \<Rightarrow> nat" where
  "add_u64 a b = unat (of_nat a + of_nat b :: u64)"

lemma add_u64_mod: "add_u64 a b = (a + b) mod 2 ^ 64"
  unfolding add_u64_def of_nat_add [symmetric] by (simp add: unsigned_of_nat take_bit_eq_mod del: of_nat_add)

text \<open>\<open>u64::to_le_bytes\<close> and \<open>u64::from_le_bytes\<close>.\<close>

primrec le_bytes :: "nat \<Rightarrow> u64 \<Rightarrow> bytes" where
  "le_bytes 0 w = []"
| "le_bytes (Suc n) w = ucast w # le_bytes n (drop_bit 8 w)"

definition to_le_bytes :: "u64 \<Rightarrow> bytes" where
  "to_le_bytes w = le_bytes 8 w"

primrec from_le_bytes :: "bytes \<Rightarrow> u64" where
  "from_le_bytes [] = 0"
| "from_le_bytes (b # bs) = or (ucast b) (push_bit 8 (from_le_bytes bs))"

lemma length_le_bytes [simp]: "length (le_bytes n w) = n"
  by (induction n arbitrary: w) auto

lemma length_to_le_bytes [simp]: "length (to_le_bytes w) = 8"
  by (simp add: to_le_bytes_def)

lemma from_le_bytes_le_bytes: "from_le_bytes (le_bytes n w) = take_bit (8 * n) w"
proof (induction n arbitrary: w)
  case (Suc n)
  have "or (ucast (ucast w :: byte)) (push_bit 8 (take_bit (8 * n) (drop_bit 8 w))) = take_bit (8 + 8 * n) w"
    by (rule bit_eqI) (auto simp: bit_simps)
  with Suc show ?case by simp
qed simp

lemma from_to_le_bytes [simp]: "from_le_bytes (to_le_bytes w) = w"
  using take_bit_word_eq_self [of 64 w]
  by (simp add: to_le_bytes_def from_le_bytes_le_bytes del: le_bytes.simps)

lemma le_bytes_cong: "take_bit (8 * n) v = take_bit (8 * n) w \<Longrightarrow> le_bytes n v = le_bytes n w"
proof (induction n arbitrary: v w)
  case (Suc n)
  have bits: "bit v i \<longleftrightarrow> bit w i" if "i < 8 + 8 * n" for i
    using arg_cong [OF Suc.prems, of "\<lambda>x. bit x i"] that by (simp add: bit_take_bit_iff)
  have "take_bit (8 * n) (drop_bit 8 v) = take_bit (8 * n) (drop_bit 8 w)"
    by (rule bit_eqI) (auto simp: bit_simps bits)
  moreover have "(ucast v :: byte) = ucast w"
    by (rule bit_eqI) (auto simp: bit_simps bits)
  ultimately show ?case using Suc.IH [of "drop_bit 8 v" "drop_bit 8 w"] by simp
qed simp

lemma le_bytes_from_le_bytes: "length bs \<le> 8 \<Longrightarrow> le_bytes (length bs) (from_le_bytes bs) = bs"
proof (induction bs)
  case (Cons b bs)
  let ?x = "from_le_bytes bs"
  have "(ucast (or (ucast b) (push_bit 8 ?x)) :: byte) = b"
    by (rule bit_eqI) (auto simp: bit_simps)
  moreover have "take_bit (8 * length bs) (drop_bit 8 (or (ucast b) (push_bit 8 ?x))) = take_bit (8 * length bs) ?x"
    using Cons.prems by (intro bit_eqI) (auto simp: bit_simps dest: bit_imp_le_length)
  ultimately show ?case using Cons le_bytes_cong [of "length bs" "drop_bit 8 (or (ucast b) (push_bit 8 ?x))" ?x] by simp
qed simp

lemma to_from_le_bytes: "length bs = 8 \<Longrightarrow> to_le_bytes (from_le_bytes bs) = bs"
  using le_bytes_from_le_bytes [of bs] unfolding to_le_bytes_def by (simp only: order_refl simp_thms)

lemma to_le_bytes_inj: "to_le_bytes v = to_le_bytes w \<longleftrightarrow> v = w"
  by (metis from_to_le_bytes)

text \<open>
  An instant is its number of nanoseconds since the Unix epoch; \<open>num_seconds\<close> of a difference
  truncates towards zero.
\<close>

type_synonym instant = int

definition num_seconds :: "int \<Rightarrow> int" where
  "num_seconds d = (if 0 \<le> d then d div 1000000000 else - ((- d) div 1000000000))"

subsection \<open>The digest\<close>

definition sha256_len :: "(bytes \<Rightarrow> bytes) \<Rightarrow> bool" where
  "sha256_len sha \<longleftrightarrow> (\<forall>m. length (sha m) = 32)"

text \<open>
  A check, by evaluation, that a function has no collision on a finite set of messages; and a
  concrete digest-shaped function (the length and the last 31 bytes, padded) on which the hypotheses about SHA-256
  can be evaluated in examples.
\<close>

lemma inj_on_setI: "distinct (map f (remdups xs)) \<Longrightarrow> inj_on f (set xs)"
  by (simp add: distinct_map)

definition sample_sha :: "bytes \<Rightarrow> bytes" where
  "sample_sha m = take 32 (of_nat (length m) # rev m @ replicate 32 0)"

lemma sample_sha_len: "sha256_len sample_sha"
  by (auto simp: sha256_len_def sample_sha_def)

subsection \<open>Actions on a state\<close>

text \<open>
  A fallible operation that changes a state: \<open>sbind\<close> is the \<open>?\<close> operator between two of them, and the
  state changes made before an error stay. \<open>preserves Q m\<close> says that the states before and after \<open>m\<close>
  are related by \<open>Q\<close>, on every path.
\<close>

type_synonym ('s, 'a, 'e) action = "'s \<Rightarrow> 's \<times> ('a, 'e) result"

named_theorems action_simps \<open>successful runs of actions\<close>
named_theorems preserves_intros \<open>what actions preserve\<close>

definition sres :: "('a, 'e) result \<Rightarrow> ('s, 'a, 'e) action" where
  "sres r s = (s, r)"

definition sbind :: "('s, 'a, 'e) action \<Rightarrow> ('a \<Rightarrow> ('s, 'b, 'e) action) \<Rightarrow> ('s, 'b, 'e) action" where
  "sbind m f s = (case m s of (s', Ok a) \<Rightarrow> f a s' | (s', Err e) \<Rightarrow> (s', Err e))"

text \<open>\<open>match m { Ok(a) => f(a), Err(e) => g(e) }\<close>.\<close>

definition scatch ::
  "('s, 'a, 'e) action \<Rightarrow> ('a \<Rightarrow> ('s, 'b, 'd) action) \<Rightarrow> ('e \<Rightarrow> ('s, 'b, 'd) action) \<Rightarrow> ('s, 'b, 'd) action" where
  "scatch m f g s = (case m s of (s', Ok a) \<Rightarrow> f a s' | (s', Err e) \<Rightarrow> g e s')"

definition sgets :: "('s \<Rightarrow> 'a) \<Rightarrow> ('s, 'a, 'e) action" where
  "sgets f s = (s, Ok (f s))"

lemma sres_iff [action_simps]: "sres r s = (t, q) \<longleftrightarrow> t = s \<and> r = q"
  by (auto simp: sres_def)

lemma sgets_iff [action_simps]: "sgets f s = (t, q) \<longleftrightarrow> t = s \<and> q = Ok (f s)"
  by (auto simp: sgets_def)

lemma sbind_Ok_iff [action_simps]: "sbind m f s = (t, Ok b) \<longleftrightarrow> (\<exists>u a. m s = (u, Ok a) \<and> f a u = (t, Ok b))"
  by (auto simp: sbind_def split: prod.splits result.splits)

lemma scatch_Ok_iff [action_simps]:
  "scatch m f g s = (t, Ok b) \<longleftrightarrow>
     (\<exists>u a. m s = (u, Ok a) \<and> f a u = (t, Ok b)) \<or> (\<exists>u e. m s = (u, Err e) \<and> g e u = (t, Ok b))"
  by (auto simp: scatch_def split: prod.splits result.splits)

definition preserves :: "('s \<Rightarrow> 's \<Rightarrow> bool) \<Rightarrow> ('s, 'a, 'e) action \<Rightarrow> bool" where
  "preserves Q m \<longleftrightarrow> (\<forall>s t r. m s = (t, r) \<longrightarrow> Q s t)"

lemma preservesD: "preserves Q m \<Longrightarrow> m s = (t, r) \<Longrightarrow> Q s t"
  by (auto simp: preserves_def)

lemma preserves_sres [preserves_intros]: "reflp Q \<Longrightarrow> preserves Q (sres r)"
  by (auto simp: preserves_def sres_def reflpD)

lemma preserves_sgets [preserves_intros]: "reflp Q \<Longrightarrow> preserves Q (sgets f)"
  by (auto simp: preserves_def sgets_def reflpD)

lemma preserves_scatch [preserves_intros]:
  assumes "transp Q" "preserves Q m" "\<And>a. preserves Q (f a)" "\<And>e. preserves Q (g e)"
  shows "preserves Q (scatch m f g)"
  unfolding preserves_def
proof (intro allI impI)
  fix s t r
  assume run: "scatch m f g s = (t, r)"
  obtain u q where u: "m s = (u, q)" by (cases "m s") auto
  then have "Q s u" by (rule preservesD [OF assms(2)])
  moreover have "Q u t"
    using run u assms(3,4) by (cases q) (auto simp: scatch_def dest: preservesD)
  ultimately show "Q s t" by (rule transpD [OF assms(1)])
qed

lemma sbind_scatch: "sbind m f = scatch m f (\<lambda>e. sres (Err e))"
  by (rule ext) (simp add: sbind_def scatch_def sres_def split: prod.split result.split)

lemma preserves_sbind [preserves_intros]:
  "reflp Q \<Longrightarrow> transp Q \<Longrightarrow> preserves Q m \<Longrightarrow> (\<And>a. preserves Q (f a)) \<Longrightarrow> preserves Q (sbind m f)"
  unfolding sbind_scatch by (intro preserves_scatch preserves_sres)

lemma preserves_if [preserves_intros]:
  "(b \<Longrightarrow> preserves Q m) \<Longrightarrow> (\<not> b \<Longrightarrow> preserves Q n) \<Longrightarrow> preserves Q (if b then m else n)"
  by simp

subsection \<open>State machines\<close>

locale invariant_system =
  fixes init :: "'s \<Rightarrow> bool"
    and step :: "'s \<Rightarrow> 's \<Rightarrow> bool"
    and invar :: "'s \<Rightarrow> bool"
  assumes invar_init: "init s \<Longrightarrow> invar s"
    and invar_step: "invar s \<Longrightarrow> step s t \<Longrightarrow> invar t"
begin

lemma invar_steps: "step\<^sup>*\<^sup>* s t \<Longrightarrow> invar s \<Longrightarrow> invar t"
  by (induction rule: rtranclp_induct) (auto intro: invar_step)

lemma invar_reachable: "init s \<Longrightarrow> step\<^sup>*\<^sup>* s t \<Longrightarrow> invar t"
  by (blast intro: invar_init invar_steps)

end

end
