(* ===== verification/MerkleSpec.thy ===== *)
theory MerkleSpec
  imports Prelude
begin

text \<open>
  The hash trees that the Merkle crate and the transparency log share: a level is combined
  pairwise from the left and an odd last node is carried up unchanged. Everything here is
  parametric in the two-to-one node hash \<open>f\<close>; the crate instantiates it with its
  domain-separated \<open>hash_internal\<close>, the transparency log with the plain one.

  \<^item> \<open>pair_level\<close> is one level step, \<open>fold_levels\<close> / \<open>mroot\<close> iterate it to the root.
  \<^item> \<open>mth\<close> is the reference definition: the recursive tree hash of Certificate Transparency,
    split at the largest power of two below the size; \<open>mroot_eq_mth\<close> shows that the bottom-up
    iteration computes it.
  \<^item> \<open>tree_pairs\<close> lists the pairs that are hashed on the way to a root. Soundness statements
    assume the node hash injective on such finite sets only.
\<close>

named_theorems level_simps \<open>index arithmetic of one tree level\<close>

fun pair_level :: "('h \<Rightarrow> 'h \<Rightarrow> 'h) \<Rightarrow> 'h list \<Rightarrow> 'h list" where
  "pair_level f (a # b # xs) = f a b # pair_level f xs"
| "pair_level f [a] = [a]"
| "pair_level f [] = []"

lemma length_pair_level [level_simps]: "length (pair_level f xs) = (length xs + 1) div 2"
  by (induction f xs rule: pair_level.induct) auto

lemma pair_level_Nil_iff [simp]: "pair_level f xs = [] \<longleftrightarrow> xs = []"
  using length_pair_level [of f xs] by (cases xs) auto

function fold_levels :: "('h \<Rightarrow> 'h \<Rightarrow> 'h) \<Rightarrow> 'h list \<Rightarrow> 'h list" where
  "fold_levels f xs = (if 1 < length xs then fold_levels f (pair_level f xs) else xs)"
  by pat_completeness auto
termination
  by (relation "measure (\<lambda>(f, xs). length xs)") (auto simp: length_pair_level)

declare fold_levels.simps [simp del]

definition mroot :: "('h \<Rightarrow> 'h \<Rightarrow> 'h) \<Rightarrow> 'h list \<Rightarrow> 'h" where
  "mroot f xs = hd (fold_levels f xs)"

fun level_pairs :: "'h list \<Rightarrow> ('h \<times> 'h) list" where
  "level_pairs (a # b # xs) = (a, b) # level_pairs xs"
| "level_pairs [a] = []"
| "level_pairs [] = []"

function tree_pairs :: "('h \<Rightarrow> 'h \<Rightarrow> 'h) \<Rightarrow> 'h list \<Rightarrow> ('h \<times> 'h) list" where
  "tree_pairs f xs = (if 1 < length xs then level_pairs xs @ tree_pairs f (pair_level f xs) else [])"
  by pat_completeness auto
termination
  by (relation "measure (\<lambda>(f, xs). length xs)") (auto simp: length_pair_level)

declare tree_pairs.simps [simp del]

function split_point :: "nat \<Rightarrow> nat \<Rightarrow> nat" where
  "split_point k n = (if 0 < k \<and> 2 * k < n then split_point (2 * k) n else k)"
  by pat_completeness auto
termination
  by (relation "measure (\<lambda>(k, n). n - k)") auto

declare split_point.simps [simp del]

lemma split_point_bounds:
  "0 < k \<Longrightarrow> k < n \<Longrightarrow> split_point k n < n \<and> n \<le> 2 * split_point k n \<and> 0 < split_point k n"
proof (induction k n rule: split_point.induct)
  case (1 k n)
  show ?case
  proof (cases "2 * k < n")
    case True
    with 1 show ?thesis
      by (simp add: split_point.simps [of k n])
  next
    case False
    with "1.prems" show ?thesis
      by (simp add: split_point.simps [of k n])
  qed
qed

lemma split_point_less: "Suc 0 < n \<Longrightarrow> split_point (Suc 0) n < n \<and> 0 < split_point (Suc 0) n"
  using split_point_bounds [of "Suc 0" n] by simp

function mth :: "('h \<Rightarrow> 'h \<Rightarrow> 'h) \<Rightarrow> 'h list \<Rightarrow> 'h" where
  "mth f xs =
     (if 1 < length xs
      then let k = split_point 1 (length xs) in f (mth f (take k xs)) (mth f (drop k xs))
      else hd xs)"
  by pat_completeness auto
termination
  by (relation "measure (\<lambda>(f, xs). length xs)")
    (auto simp: min_def not_le split_point_less intro!: diff_less)

declare mth.simps [simp del]

subsection \<open>One level\<close>

lemma nth_pair_level [level_simps]:
  "i < length (pair_level f xs) \<Longrightarrow>
   pair_level f xs ! i =
     (if 2 * i + 1 < length xs then f (xs ! (2 * i)) (xs ! (2 * i + 1)) else xs ! (2 * i))"
proof (induction f xs arbitrary: i rule: pair_level.induct)
  case (1 f a b xs)
  then show ?case by (cases i) auto
qed auto

lemma level_pairs_nth: "2 * i + 1 < length xs \<Longrightarrow> (xs ! (2 * i), xs ! (2 * i + 1)) \<in> set (level_pairs xs)"
proof (induction xs arbitrary: i rule: level_pairs.induct)
  case (1 a b xs)
  then show ?case by (cases i) auto
qed auto

lemma pair_level_append:
  "even (length as) \<Longrightarrow> pair_level f (as @ bs) = pair_level f as @ pair_level f bs"
  by (induction f as rule: pair_level.induct) auto

lemma pair_level_take_eq:
  assumes inj: "inj_on (\<lambda>(l, r). f l r) P"
    and xs: "set (level_pairs xs) \<subseteq> P" "2 * j \<le> length xs"
    and ys: "set (level_pairs ys) \<subseteq> P" "2 * j \<le> length ys"
    and eq: "take j (pair_level f xs) = take j (pair_level f ys)"
  shows "take (2 * j) xs = take (2 * j) ys"
proof (rule nth_take_lemma [OF xs(2) ys(2), rule_format])
  fix i
  assume "i < 2 * j"
  then have k: "i div 2 < j" and i: "2 * (i div 2) + 1 < 2 * j"
    by presburger+
  let ?k = "i div 2"
  have "pair_level f xs ! ?k = pair_level f ys ! ?k"
    using arg_cong [OF eq, of "\<lambda>zs. zs ! ?k"] k by simp
  moreover have "?k < length (pair_level f xs)" "?k < length (pair_level f ys)"
    using k xs(2) ys(2) by (auto simp: length_pair_level)
  ultimately have "f (xs ! (2 * ?k)) (xs ! (2 * ?k + 1)) = f (ys ! (2 * ?k)) (ys ! (2 * ?k + 1))"
    using i xs(2) ys(2) by (simp add: nth_pair_level)
  moreover have "(xs ! (2 * ?k), xs ! (2 * ?k + 1)) \<in> P" "(ys ! (2 * ?k), ys ! (2 * ?k + 1)) \<in> P"
    using i xs ys level_pairs_nth [of ?k xs] level_pairs_nth [of ?k ys] by auto
  ultimately have "xs ! (2 * ?k) = ys ! (2 * ?k) \<and> xs ! (2 * ?k + 1) = ys ! (2 * ?k + 1)"
    using inj_onD [OF inj, of "(xs ! (2 * ?k), xs ! (2 * ?k + 1))" "(ys ! (2 * ?k), ys ! (2 * ?k + 1))"]
    by simp
  then show "xs ! i = ys ! i"
    by (cases "even i") (auto elim!: evenE oddE)
qed

subsection \<open>Roots\<close>

lemma fold_levels_length: "xs \<noteq> [] \<Longrightarrow> length (fold_levels f xs) = 1"
proof (induction f xs rule: fold_levels.induct)
  case (1 f xs)
  show ?case
  proof (cases "1 < length xs")
    case True
    with 1 show ?thesis
      by (simp add: fold_levels.simps [of f xs])
  next
    case False
    with "1.prems" show ?thesis
      by (subst fold_levels.simps) (cases xs, auto)
  qed
qed

lemma fold_levels_mroot: "xs \<noteq> [] \<Longrightarrow> fold_levels f xs = [mroot f xs]"
  using fold_levels_length [of xs f] by (auto simp: mroot_def length_Suc_conv)

lemma mroot_single [simp]: "mroot f [x] = x"
  by (simp add: mroot_def fold_levels.simps)

lemma mroot_step: "1 < length xs \<Longrightarrow> mroot f xs = mroot f (pair_level f xs)"
  by (simp add: mroot_def fold_levels.simps [of f xs])

lemma mroot_pair_level: "mroot f (pair_level f xs) = mroot f xs"
proof (cases "1 < length xs")
  case True
  then show ?thesis by (simp add: mroot_step)
next
  case False
  then show ?thesis by (cases xs) auto
qed

lemma mroot_append:
  "length as = 2 ^ j \<Longrightarrow> bs \<noteq> [] \<Longrightarrow> length bs \<le> 2 ^ j \<Longrightarrow>
   mroot f (as @ bs) = f (mroot f as) (mroot f bs)"
proof (induction j arbitrary: as bs)
  case 0
  then obtain a b where "as = [a]" "bs = [b]"
    by (cases as; cases bs) auto
  then show ?case
    by (simp add: mroot_step)
next
  case (Suc j)
  have ev: "even (length as)"
    using Suc.prems by simp
  have "1 \<le> length as" "1 \<le> length bs"
    using Suc.prems one_le_power [of "2 :: nat" "Suc j"] by (simp, cases bs, auto)
  then have long: "1 < length (as @ bs)"
    by simp
  have "mroot f (as @ bs) = mroot f (pair_level f as @ pair_level f bs)"
    using mroot_step [OF long] by (simp add: pair_level_append [OF ev])
  also have "\<dots> = f (mroot f (pair_level f as)) (mroot f (pair_level f bs))"
    using Suc.prems by (intro Suc.IH) (auto simp: length_pair_level)
  finally show ?case
    by (simp add: mroot_pair_level)
qed

lemma split_point_power: "\<exists>j. k = 2 ^ j \<Longrightarrow> \<exists>j. split_point k n = 2 ^ j"
proof (induction k n rule: split_point.induct)
  case (1 k n)
  then obtain j where "k = 2 ^ j" by blast
  then have "\<exists>j. 2 * k = 2 ^ j" by (auto intro: exI [of _ "Suc j"])
  with 1 show ?case
    by (cases "0 < k \<and> 2 * k < n") (auto simp: split_point.simps [of k n])
qed

theorem mroot_eq_mth: "xs \<noteq> [] \<Longrightarrow> mroot f xs = mth f xs"
proof (induction f xs rule: mth.induct)
  case (1 f xs)
  show ?case
  proof (cases "1 < length xs")
    case True
    define k where "k = split_point 1 (length xs)"
    have b: "k < length xs" "length xs \<le> 2 * k" "0 < k"
      using split_point_bounds [of 1 "length xs"] True by (auto simp: k_def)
    obtain j where j: "k = 2 ^ j"
      using split_point_power [of 1 "length xs"] unfolding k_def by (metis power_0)
    have "mroot f (take k xs @ drop k xs) = f (mroot f (take k xs)) (mroot f (drop k xs))"
      using b j by (intro mroot_append [of _ j]) auto
    moreover have "mroot f (take k xs) = mth f (take k xs)" "mroot f (drop k xs) = mth f (drop k xs)"
      using "1.IH" [OF True k_def] b True by force+
    ultimately show ?thesis
      using True by (simp add: mth.simps [of f xs] k_def Let_def)
  next
    case False
    with "1.prems" show ?thesis
      by (cases xs) (auto simp: mth.simps)
  qed
qed

subsection \<open>Hashed pairs\<close>

lemma tree_pairs_level: "set (level_pairs xs) \<subseteq> set (tree_pairs f xs)"
proof (cases xs rule: level_pairs.cases)
  case (1 a b zs)
  then show ?thesis by (subst tree_pairs.simps) auto
qed auto

lemma tree_pairs_up: "set (tree_pairs f (pair_level f xs)) \<subseteq> set (tree_pairs f xs)"
proof (cases "1 < length xs")
  case True
  then show ?thesis by (auto simp: tree_pairs.simps [of f xs])
next
  case False
  then show ?thesis by (cases xs) auto
qed

lemmas tree_pairs_subset = tree_pairs_level tree_pairs_up

text \<open>
  A root binds the whole list: two lists of the same length with the same root are equal, unless
  two different pairs hashed on the way collide.
\<close>

lemma mroot_binding:
  assumes "inj_on (\<lambda>(l, r). f l r) P"
    and "set (tree_pairs f xs) \<subseteq> P" "set (tree_pairs f ys) \<subseteq> P"
    and "length xs = length ys" "mroot f xs = mroot f ys"
  shows "xs = ys"
  using assms(2-)
proof (induction "length xs" arbitrary: xs ys rule: less_induct)
  case less
  note sub = tree_pairs_level [of xs f] tree_pairs_up [of f xs]
    tree_pairs_level [of ys f] tree_pairs_up [of f ys]
  show ?case
  proof (cases "1 < length xs")
    case True
    have up: "pair_level f xs = pair_level f ys"
      using less.prems True sub
      by (intro less.hyps) (auto simp: length_pair_level mroot_step)
    let ?j = "length xs div 2"
    have tk: "take (2 * ?j) xs = take (2 * ?j) ys"
      using less.prems sub up
      by (intro pair_level_take_eq [OF assms(1)]) auto
    have lst: "xs ! (length xs - 1) = ys ! (length xs - 1)" if "odd (length xs)"
    proof -
      from that have i: "2 * ?j = length xs - 1" "?j < length (pair_level f xs)"
        by (auto elim!: oddE simp: length_pair_level)
      then show ?thesis
        using arg_cong [OF up, of "\<lambda>zs. zs ! ?j"] less.prems(3) that
        by (auto simp: nth_pair_level length_pair_level elim!: oddE)
    qed
    show ?thesis
    proof (rule nth_equalityI)
      show "xs ! i = ys ! i" if "i < length xs" for i
      proof (cases "i < 2 * ?j")
        case True
        then show ?thesis using arg_cong [OF tk, of "\<lambda>zs. zs ! i"] by simp
      next
        case False
        with that have "odd (length xs)" "i = length xs - 1" by presburger+
        with lst show ?thesis by simp
      qed
    qed (rule less.prems(3))
  next
    case False
    with less.prems show ?thesis
      by (cases xs; cases ys) auto
  qed
qed

text \<open>A set closed under the hashed pairs holds every value of the tree.\<close>

lemma set_pair_level: "set (pair_level f xs) \<subseteq> set xs \<union> (\<lambda>(l, r). f l r) ` set (level_pairs xs)"
  by (induction f xs rule: pair_level.induct) auto

lemma set_level_pairs: "(l, r) \<in> set (level_pairs xs) \<Longrightarrow> l \<in> set xs \<and> r \<in> set xs"
  by (induction xs rule: level_pairs.induct) auto

lemma tree_values:
  "set xs \<subseteq> T \<Longrightarrow> (\<lambda>(l, r). f l r) ` set (tree_pairs f xs) \<subseteq> T \<Longrightarrow> xs \<noteq> [] \<Longrightarrow>
   mroot f xs \<in> T \<and> set (tree_pairs f xs) \<subseteq> T \<times> T"
proof (induction f xs rule: tree_pairs.induct)
  case (1 f xs)
  show ?case
  proof (cases "1 < length xs")
    case True
    have "set (pair_level f xs) \<subseteq> T"
      using "1.prems" set_pair_level [of f xs] tree_pairs_level [of xs f] by blast
    moreover have "(\<lambda>(l, r). f l r) ` set (tree_pairs f (pair_level f xs)) \<subseteq> T"
      using "1.prems"(2) tree_pairs_up [of f xs] by blast
    ultimately have "mroot f xs \<in> T \<and> set (tree_pairs f (pair_level f xs)) \<subseteq> T \<times> T"
      using "1.IH" [OF True] "1.prems"(3) True by (simp add: mroot_step)
    with True "1.prems"(1) show ?thesis
      by (auto simp: tree_pairs.simps [of f xs] dest: set_level_pairs)
  next
    case False
    then obtain x where "xs = [x]"
      using "1.prems"(3) by (cases xs) auto
    with "1.prems"(1) show ?thesis
      by (simp add: tree_pairs.simps [of f "[x]"])
  qed
qed

text \<open>
  The converse direction: if every hashed pair with a value in a set has its components there, a root
  in the set puts all leaves there.
\<close>

lemma tree_values_down:
  "mroot f xs \<in> T \<Longrightarrow> xs \<noteq> [] \<Longrightarrow>
   (\<And>a b. (a, b) \<in> set (tree_pairs f xs) \<Longrightarrow> f a b \<in> T \<Longrightarrow> a \<in> T \<and> b \<in> T) \<Longrightarrow> set xs \<subseteq> T"
proof (induction f xs rule: tree_pairs.induct)
  case (1 f xs)
  show ?case
  proof (cases "1 < length xs")
    case True
    have up: "set (pair_level f xs) \<subseteq> T"
      using True "1.prems" tree_pairs_up [of f xs] by (intro "1.IH") (auto simp: mroot_step)
    show ?thesis
    proof
      fix x
      assume "x \<in> set xs"
      then obtain i where i: "i < length xs" "xs ! i = x"
        by (auto simp: in_set_conv_nth)
      let ?k = "i div 2"
      have k: "?k < length (pair_level f xs)"
        using i(1) by (simp add: level_simps)
      then have "pair_level f xs ! ?k \<in> T"
        using up by (auto dest: nth_mem)
      then have *: "(if 2 * ?k + 1 < length xs then f (xs ! (2 * ?k)) (xs ! (2 * ?k + 1)) else xs ! (2 * ?k)) \<in> T"
        by (simp add: nth_pair_level [OF k])
      show "x \<in> T"
      proof (cases "2 * ?k + 1 < length xs")
        case True
        then have "xs ! (2 * ?k) \<in> T \<and> xs ! (2 * ?k + 1) \<in> T"
          using * level_pairs_nth [OF True] tree_pairs_level [of xs f] "1.prems"(3) by auto
        moreover have "i = 2 * ?k \<or> i = 2 * ?k + 1" by presburger
        ultimately show ?thesis using i(2) by auto
      next
        case False
        then have "i = 2 * ?k" using i(1) by presburger
        with * False i(2) show ?thesis by simp
      qed
    qed
  next
    case False
    with "1.prems"(2) obtain x where "xs = [x]"
      by (cases xs) auto
    with "1.prems"(1) show ?thesis by simp
  qed
qed

end
