(* ===== verification/MerkleTree.thy ===== *)
theory MerkleTree
  imports MerkleSpec
begin

text \<open>
  The Merkle crate, \<open>crates/merkle/src/lib.rs\<close>: domain-separated leaf and node hashes,
  inclusion proofs and their verification, and the tree with its cached root and cached levels.

  A method taking \<open>&mut self\<close> returns the new tree beside its result. \<open>root\<close> ends in an
  \<open>unwrap\<close>, so its result is an \<open>option\<close> whose \<open>None\<close> is the panic; \<open>tree_inv\<close> rules it out.
  Indices and sizes (\<open>usize\<close>) are natural numbers: they are lengths of vectors in memory, and no
  arithmetic on them exceeds such a length by more than one.

  Shown: the caches never go stale (\<open>tree_inv\<close> over every sequence of operations), the cached and
  the recomputed root are the reference tree hash, a generated proof verifies, and a proof that
  verifies is for data that was inserted unless SHA-256 collides on the messages involved. The
  interface \<open>merkle_store\<close> at the end states what the coverage log relies on.
\<close>

datatype merkle_error =
    EmptyTree
  | InvalidProof string
  | IndexOutOfBounds nat nat
  | InvalidLeaf string
  | SerializationError string

fun merkle_error_display :: "merkle_error \<Rightarrow> string" where
  "merkle_error_display EmptyTree = ''Empty tree has no root''"
| "merkle_error_display (InvalidProof msg) = ''Invalid inclusion proof: '' @ msg"
| "merkle_error_display (IndexOutOfBounds i n) = ''Index out of bounds: '' @ dec_nat i @ '' >= '' @ dec_nat n"
| "merkle_error_display (InvalidLeaf msg) = ''Invalid leaf data: '' @ msg"
| "merkle_error_display (SerializationError msg) = ''Serialization error: '' @ msg"

definition LEAF_PREFIX :: bytes where
  "LEAF_PREFIX = as_bytes ''merkle-leaf-v1:''"

definition INTERNAL_PREFIX :: bytes where
  "INTERNAL_PREFIX = as_bytes ''merkle-internal-v1:''"

abbreviation (input) HASH_LEN :: nat where
  "HASH_LEN \<equiv> 32"

record inclusion_proof =
  leaf_index :: nat
  leaf_hash :: bytes
  sibling_hashes :: "bytes list"
  directions :: "bool list"

record merkle_tree =
  leaves :: "bytes list"
  levels :: "bytes list list"
  cached_root :: "bytes option"
  root_valid :: bool
  levels_valid :: bool

subsection \<open>Hashing\<close>

definition hash_leaf :: "(bytes \<Rightarrow> bytes) \<Rightarrow> bytes \<Rightarrow> bytes" where
  "hash_leaf sha data = sha (LEAF_PREFIX @ data)"

definition hash_internal :: "(bytes \<Rightarrow> bytes) \<Rightarrow> bytes \<Rightarrow> bytes \<Rightarrow> bytes" where
  "hash_internal sha left right = sha (INTERNAL_PREFIX @ left @ right)"

subsection \<open>Inclusion proofs\<close>

fun path_hash :: "(bytes \<Rightarrow> bytes) \<Rightarrow> (bytes \<times> bool) list \<Rightarrow> bytes \<Rightarrow> bytes" where
  "path_hash sha [] current_hash = current_hash"
| "path_hash sha ((sibling_hash, is_right) # path) current_hash =
     path_hash sha path
       (if is_right then hash_internal sha sibling_hash current_hash
        else hash_internal sha current_hash sibling_hash)"

definition verify_proof :: "(bytes \<Rightarrow> bytes) \<Rightarrow> inclusion_proof \<Rightarrow> bytes \<Rightarrow> bytes \<Rightarrow> (bool, merkle_error) result" where
  "verify_proof sha p root_hash leaf_data =
     (if hash_leaf sha leaf_data \<noteq> leaf_hash p then Ok False
      else if sibling_hashes p = [] then Ok (root_hash = leaf_hash p)
      else if length (directions p) \<noteq> length (sibling_hashes p)
      then Err (InvalidProof ''Directions count mismatch'')
      else Ok (path_hash sha (zip (sibling_hashes p) (directions p)) (leaf_hash p) = root_hash))"

definition proof_size_bytes :: "inclusion_proof \<Rightarrow> nat" where
  "proof_size_bytes p =
     HASH_LEN + length (sibling_hashes p) * HASH_LEN + (length (directions p) + 7) div 8 + 8"

definition verify_inclusion_proof ::
  "(bytes \<Rightarrow> bytes) \<Rightarrow> inclusion_proof \<Rightarrow> bytes \<Rightarrow> bytes \<Rightarrow> (bool, merkle_error) result" where
  "verify_inclusion_proof sha p root_hash leaf_data = verify_proof sha p root_hash leaf_data"

fun batch_verify_proofs ::
  "(bytes \<Rightarrow> bytes) \<Rightarrow> (inclusion_proof \<times> bytes) list \<Rightarrow> bytes \<Rightarrow> (bool, merkle_error) result" where
  "batch_verify_proofs sha [] root_hash = Ok True"
| "batch_verify_proofs sha ((p, leaf_data) # rest) root_hash =
     rbind (verify_proof sha p root_hash leaf_data)
       (\<lambda>ok. if \<not> ok then Ok False else batch_verify_proofs sha rest root_hash)"

subsection \<open>The tree\<close>

definition tree_new :: merkle_tree where
  "tree_new = \<lparr>leaves = [], levels = [], cached_root = None, root_valid = False, levels_valid = False\<rparr>"

definition invalidate_cache :: "merkle_tree \<Rightarrow> merkle_tree" where
  "invalidate_cache t =
     t\<lparr>root_valid := False, cached_root := None, levels_valid := False, levels := []\<rparr>"

definition insert_leaf :: "(bytes \<Rightarrow> bytes) \<Rightarrow> merkle_tree \<Rightarrow> bytes \<Rightarrow> merkle_tree" where
  "insert_leaf sha t leaf_data =
     invalidate_cache (t\<lparr>leaves := leaves t @ [hash_leaf sha leaf_data]\<rparr>)"

definition from_leaves :: "(bytes \<Rightarrow> bytes) \<Rightarrow> bytes list \<Rightarrow> merkle_tree" where
  "from_leaves sha leaf_data = foldl (insert_leaf sha) tree_new leaf_data"

definition insert_leaves :: "(bytes \<Rightarrow> bytes) \<Rightarrow> merkle_tree \<Rightarrow> bytes list \<Rightarrow> merkle_tree" where
  "insert_leaves sha t leaf_data =
     invalidate_cache
       (foldl (\<lambda>u data. u\<lparr>leaves := leaves u @ [hash_leaf sha data]\<rparr>) t leaf_data)"

definition tree_len :: "merkle_tree \<Rightarrow> nat" where
  "tree_len t = length (leaves t)"

definition tree_is_empty :: "merkle_tree \<Rightarrow> bool" where
  "tree_is_empty t \<longleftrightarrow> leaves t = []"

fun next_level :: "(bytes \<Rightarrow> bytes) \<Rightarrow> bytes list \<Rightarrow> bytes list" where
  "next_level sha (a # b # rest) = hash_internal sha a b # next_level sha rest"
| "next_level sha [a] = [a]"
| "next_level sha [] = []"

lemma next_level_eq: "next_level sha xs = pair_level (hash_internal sha) xs"
  by (induction sha xs rule: next_level.induct) auto

function root_loop :: "(bytes \<Rightarrow> bytes) \<Rightarrow> bytes list \<Rightarrow> bytes list" where
  "root_loop sha current_level =
     (if 1 < length current_level then root_loop sha (next_level sha current_level) else current_level)"
  by pat_completeness auto
termination
  by (relation "measure (\<lambda>(sha, xs). length xs)") (auto simp: next_level_eq length_pair_level)

declare root_loop.simps [simp del]

definition compute_root :: "(bytes \<Rightarrow> bytes) \<Rightarrow> merkle_tree \<Rightarrow> (bytes, merkle_error) result" where
  "compute_root sha t =
     (if tree_is_empty t then Err EmptyTree
      else if length (leaves t) = 1 then Ok (leaves t ! 0)
      else Ok (root_loop sha (leaves t) ! 0))"

definition tree_root :: "(bytes \<Rightarrow> bytes) \<Rightarrow> merkle_tree \<Rightarrow> merkle_tree \<times> (bytes, merkle_error) result option" where
  "tree_root sha t =
     (if tree_is_empty t then (t, Some (Err EmptyTree))
      else if root_valid t then (t, map_option Ok (cached_root t))
      else if levels_valid t
      then (let r = (if levels t = [] \<or> last (levels t) = [] then None else Some (hd (last (levels t))));
                t' = t\<lparr>cached_root := r, root_valid := (r \<noteq> None)\<rparr>
            in (t', map_option Ok (cached_root t')))
      else (case compute_root sha t of
              Err e \<Rightarrow> (t, Some (Err e))
            | Ok r \<Rightarrow> (t\<lparr>cached_root := Some r, root_valid := True\<rparr>, Some (Ok r))))"

function build_levels :: "(bytes \<Rightarrow> bytes) \<Rightarrow> bytes list list \<Rightarrow> bytes list list" where
  "build_levels sha lvs =
     (if 1 < length (last lvs) then build_levels sha (lvs @ [next_level sha (last lvs)]) else lvs)"
  by pat_completeness auto
termination
  by (relation "measure (\<lambda>(sha, lvs). length (last lvs))") (auto simp: next_level_eq length_pair_level)

declare build_levels.simps [simp del]

definition ensure_levels :: "(bytes \<Rightarrow> bytes) \<Rightarrow> merkle_tree \<Rightarrow> merkle_tree \<times> (unit, merkle_error) result" where
  "ensure_levels sha t =
     (if tree_is_empty t then (t, Err EmptyTree)
      else if levels_valid t then (t, Ok ())
      else let lvs = build_levels sha [leaves t];
               t1 = t\<lparr>levels := lvs\<rparr>;
               t2 = (if lvs = [] \<or> last lvs = [] then t1
                     else t1\<lparr>cached_root := Some (hd (last lvs)), root_valid := True\<rparr>)
           in (t2\<lparr>levels_valid := True\<rparr>, Ok ()))"

fun proof_path :: "bytes list list \<Rightarrow> nat \<Rightarrow> bytes list \<times> bool list" where
  "proof_path [] current_index = ([], [])"
| "proof_path (level # rest) current_index =
     (let is_right = (current_index mod 2 = 1);
          sibling_index = (if is_right then current_index - 1 else current_index + 1);
          (sibs, dirs) = proof_path rest (current_index div 2)
      in if sibling_index < length level
         then (level ! sibling_index # sibs, is_right # dirs) else (sibs, dirs))"

definition generate_proof ::
  "(bytes \<Rightarrow> bytes) \<Rightarrow> merkle_tree \<Rightarrow> nat \<Rightarrow> merkle_tree \<times> (inclusion_proof, merkle_error) result" where
  "generate_proof sha t idx =
     (if length (leaves t) \<le> idx then (t, Err (IndexOutOfBounds idx (length (leaves t))))
      else if tree_is_empty t then (t, Err EmptyTree)
      else if length (leaves t) = 1
      then (t, Ok \<lparr>leaf_index = idx, leaf_hash = leaves t ! idx, sibling_hashes = [], directions = []\<rparr>)
      else (case ensure_levels sha t of
              (t', Err e) \<Rightarrow> (t', Err e)
            | (t', Ok _) \<Rightarrow>
                (let (sibs, dirs) =
                   (if 1 < length (levels t') then proof_path (butlast (levels t')) idx else ([], []))
                 in (t', Ok \<lparr>leaf_index = idx, leaf_hash = leaves t ! idx,
                            sibling_hashes = sibs, directions = dirs\<rparr>))))"

definition tree_verify_proof ::
  "(bytes \<Rightarrow> bytes) \<Rightarrow> merkle_tree \<Rightarrow> inclusion_proof \<Rightarrow> bytes \<Rightarrow> merkle_tree \<times> (bool, merkle_error) result option" where
  "tree_verify_proof sha t p leaf_data =
     (case tree_root sha t of
        (t', r) \<Rightarrow> (t', map_option (\<lambda>r. rbind r (\<lambda>root. verify_proof sha p root leaf_data)) r))"

definition batch_verify ::
  "(bytes \<Rightarrow> bytes) \<Rightarrow> merkle_tree \<Rightarrow> (inclusion_proof \<times> bytes) list \<Rightarrow> merkle_tree \<times> (bool, merkle_error) result option" where
  "batch_verify sha t proofs =
     (if proofs = [] then (t, Some (Ok True))
      else (case tree_root sha t of
              (t', r) \<Rightarrow> (t', map_option (\<lambda>r. rbind r (\<lambda>root. batch_verify_proofs sha proofs root)) r)))"

definition tree_leaf_hash :: "merkle_tree \<Rightarrow> nat \<Rightarrow> (bytes, merkle_error) result" where
  "tree_leaf_hash t index =
     (if length (leaves t) \<le> index then Err (IndexOutOfBounds index (length (leaves t)))
      else Ok (leaves t ! index))"

definition leaf_hashes :: "merkle_tree \<Rightarrow> bytes list" where
  "leaf_hashes t = leaves t"

definition tree_clear :: "merkle_tree \<Rightarrow> merkle_tree" where
  "tree_clear t = invalidate_cache (t\<lparr>leaves := []\<rparr>)"

text \<open>The operations that change a tree, as one step function over a log of calls.\<close>

datatype tree_op =
    InsertLeaf bytes
  | InsertLeaves "bytes list"
  | Root
  | GenerateProof nat
  | VerifyProof inclusion_proof bytes
  | BatchVerify "(inclusion_proof \<times> bytes) list"
  | Clear

fun tree_step :: "(bytes \<Rightarrow> bytes) \<Rightarrow> merkle_tree \<Rightarrow> tree_op \<Rightarrow> merkle_tree" where
  "tree_step sha t (InsertLeaf d) = insert_leaf sha t d"
| "tree_step sha t (InsertLeaves ds) = insert_leaves sha t ds"
| "tree_step sha t Root = fst (tree_root sha t)"
| "tree_step sha t (GenerateProof i) = fst (generate_proof sha t i)"
| "tree_step sha t (VerifyProof p d) = fst (tree_verify_proof sha t p d)"
| "tree_step sha t (BatchVerify ps) = fst (batch_verify sha t ps)"
| "tree_step sha t Clear = tree_clear t"

text \<open>The abstract view: the list of data inserted since the last \<open>clear\<close>.\<close>

fun data_step :: "bytes list \<Rightarrow> tree_op \<Rightarrow> bytes list" where
  "data_step ds (InsertLeaf d) = ds @ [d]"
| "data_step ds (InsertLeaves es) = ds @ es"
| "data_step ds Clear = []"
| "data_step ds _ = ds"

definition run_tree :: "(bytes \<Rightarrow> bytes) \<Rightarrow> tree_op list \<Rightarrow> merkle_tree" where
  "run_tree sha ops = foldl (tree_step sha) tree_new ops"

definition run_data :: "tree_op list \<Rightarrow> bytes list" where
  "run_data ops = foldl data_step [] ops"

text \<open>The levels from the leaves to the root, and the cache invariant.\<close>

function all_levels :: "('h \<Rightarrow> 'h \<Rightarrow> 'h) \<Rightarrow> 'h list \<Rightarrow> 'h list list" where
  "all_levels f xs = (if 1 < length xs then xs # all_levels f (pair_level f xs) else [xs])"
  by pat_completeness auto
termination
  by (relation "measure (\<lambda>(f, xs). length xs)") (auto simp: length_pair_level)

declare all_levels.simps [simp del]

definition tree_inv :: "(bytes \<Rightarrow> bytes) \<Rightarrow> merkle_tree \<Rightarrow> bool" where
  "tree_inv sha t \<longleftrightarrow>
     (root_valid t \<longrightarrow> leaves t \<noteq> [] \<and> cached_root t = Some (mroot (hash_internal sha) (leaves t))) \<and>
     (levels_valid t \<longrightarrow> leaves t \<noteq> [] \<and> levels t = all_levels (hash_internal sha) (leaves t))"

subsection \<open>The caches\<close>

lemma root_loop_eq: "root_loop sha xs = fold_levels (hash_internal sha) xs"
proof (induction sha xs rule: root_loop.induct)
  case (1 sha xs)
  then show ?case
    by (simp add: root_loop.simps [of sha xs] fold_levels.simps [of _ xs] next_level_eq)
qed

lemma build_levels_eq:
  "build_levels sha (pre @ [xs]) = pre @ all_levels (hash_internal sha) xs"
proof (induction "length xs" arbitrary: pre xs rule: less_induct)
  case less
  show ?case
  proof (cases "1 < length xs")
    case True
    then have "build_levels sha ((pre @ [xs]) @ [pair_level (hash_internal sha) xs]) =
        (pre @ [xs]) @ all_levels (hash_internal sha) (pair_level (hash_internal sha) xs)"
      by (intro less) (simp add: length_pair_level)
    with True show ?thesis
      by (simp add: build_levels.simps [of sha "pre @ [xs]"] all_levels.simps [of _ xs] next_level_eq)
  next
    case False
    then show ?thesis
      by (simp add: build_levels.simps [of sha "pre @ [xs]"] all_levels.simps [of _ xs])
  qed
qed

lemma last_all_levels: "xs \<noteq> [] \<Longrightarrow> last (all_levels f xs) = [mroot f xs]"
proof (induction f xs rule: all_levels.induct)
  case (1 f xs)
  show ?case
  proof (cases "1 < length xs")
    case True
    moreover have "all_levels f (pair_level f xs) \<noteq> []"
      by (subst all_levels.simps) simp
    ultimately show ?thesis
      using 1 by (simp add: all_levels.simps [of f xs] mroot_step)
  next
    case False
    with "1.prems" show ?thesis
      by (cases xs) (auto simp: all_levels.simps)
  qed
qed

lemma all_levels_nonempty [simp]: "all_levels f xs \<noteq> []"
  by (subst all_levels.simps) simp

lemma compute_root_eq:
  "leaves t \<noteq> [] \<Longrightarrow> compute_root sha t = Ok (mroot (hash_internal sha) (leaves t))"
proof -
  assume ne: "leaves t \<noteq> []"
  show ?thesis
  proof (cases "length (leaves t) = 1")
    case True
    then obtain x where "leaves t = [x]"
      by (auto simp: length_Suc_conv)
    then show ?thesis by (simp add: compute_root_def tree_is_empty_def)
  next
    case False
    with ne show ?thesis
      by (simp add: compute_root_def tree_is_empty_def root_loop_eq fold_levels_mroot)
  qed
qed

lemma tree_inv_new: "tree_inv sha tree_new"
  by (simp add: tree_inv_def tree_new_def)

lemma leaves_invalidate [simp]: "leaves (invalidate_cache t) = leaves t"
  by (simp add: invalidate_cache_def)

lemma tree_inv_invalidate [simp]: "tree_inv sha (invalidate_cache t)"
  by (simp add: tree_inv_def invalidate_cache_def)

lemma leaves_insert_leaf [simp]: "leaves (insert_leaf sha t d) = leaves t @ [hash_leaf sha d]"
  by (simp add: insert_leaf_def)

lemma tree_inv_insert_leaf [simp]: "tree_inv sha (insert_leaf sha t d)"
  by (simp add: insert_leaf_def)

lemma leaves_insert_leaves [simp]:
  "leaves (insert_leaves sha t ds) = leaves t @ map (hash_leaf sha) ds"
proof -
  have "leaves (foldl (\<lambda>u data. u\<lparr>leaves := leaves u @ [hash_leaf sha data]\<rparr>) t ds) =
      leaves t @ map (hash_leaf sha) ds"
    by (induction ds arbitrary: t) auto
  then show ?thesis by (simp add: insert_leaves_def)
qed

lemma tree_inv_insert_leaves [simp]: "tree_inv sha (insert_leaves sha t ds)"
  by (simp add: insert_leaves_def)

lemma tree_root_spec:
  assumes "tree_inv sha t"
  obtains t' where
    "tree_root sha t = (t', Some (if leaves t = [] then Err EmptyTree
                                  else Ok (mroot (hash_internal sha) (leaves t))))"
    "leaves t' = leaves t" "tree_inv sha t'"
proof (cases "leaves t = []")
  case True
  with assms that show ?thesis by (simp add: tree_root_def tree_is_empty_def)
next
  case False
  let ?r = "Some (Ok (mroot (hash_internal sha) (leaves t)))"
  have "\<exists>t'. tree_root sha t = (t', ?r) \<and> leaves t' = leaves t \<and> tree_inv sha t'"
    using assms False
    by (auto simp: tree_root_def tree_is_empty_def tree_inv_def Let_def last_all_levels compute_root_eq)
  with that False show ?thesis by auto
qed

lemma ensure_levels_spec:
  assumes "tree_inv sha t" "leaves t \<noteq> []"
  obtains t' where "ensure_levels sha t = (t', Ok ())" "leaves t' = leaves t" "tree_inv sha t'"
    "levels_valid t'" "levels t' = all_levels (hash_internal sha) (leaves t)"
proof -
  have "build_levels sha [leaves t] = all_levels (hash_internal sha) (leaves t)"
    using build_levels_eq [of sha "[]" "leaves t"] by simp
  then have "\<exists>t'. ensure_levels sha t = (t', Ok ()) \<and> leaves t' = leaves t \<and> tree_inv sha t' \<and>
      levels_valid t' \<and> levels t' = all_levels (hash_internal sha) (leaves t)"
    using assms
    by (auto simp: ensure_levels_def tree_is_empty_def tree_inv_def Let_def last_all_levels)
  with that show ?thesis by blast
qed

lemma generate_proof_frame:
  assumes "tree_inv sha t"
  shows "leaves (fst (generate_proof sha t i)) = leaves t"
    and "tree_inv sha (fst (generate_proof sha t i))"
proof -
  have "leaves (fst (generate_proof sha t i)) = leaves t \<and> tree_inv sha (fst (generate_proof sha t i))"
  proof (cases "leaves t = [] \<or> length (leaves t) = 1 \<or> length (leaves t) \<le> i")
    case True
    with assms show ?thesis
      by (auto simp: generate_proof_def tree_is_empty_def)
  next
    case False
    then obtain t' where "ensure_levels sha t = (t', Ok ())" "leaves t' = leaves t" "tree_inv sha t'"
      using ensure_levels_spec [OF assms] by blast
    with False show ?thesis
      by (auto simp: generate_proof_def tree_is_empty_def split: prod.splits)
  qed
  then show "leaves (fst (generate_proof sha t i)) = leaves t"
    and "tree_inv sha (fst (generate_proof sha t i))" by auto
qed

lemma tree_root_frame:
  assumes "tree_inv sha t"
  shows "leaves (fst (tree_root sha t)) = leaves t" "tree_inv sha (fst (tree_root sha t))"
  using tree_root_spec [OF assms] by (metis fst_conv)+

lemma tree_step_inv:
  assumes "tree_inv sha t"
  shows "tree_inv sha (tree_step sha t x)"
  using assms tree_root_frame [OF assms] generate_proof_frame [OF assms]
  by (cases x) (auto simp: tree_verify_proof_def batch_verify_def tree_clear_def split: prod.splits)

lemma tree_step_leaves:
  assumes "tree_inv sha t" "leaves t = map (hash_leaf sha) ds"
  shows "leaves (tree_step sha t x) = map (hash_leaf sha) (data_step ds x)"
  using assms tree_root_frame [OF assms(1)] generate_proof_frame [OF assms(1)]
  by (cases x) (auto simp: tree_verify_proof_def batch_verify_def tree_clear_def split: prod.splits)

lemma run_tree_inv:
  "tree_inv sha (run_tree sha ops) \<and> leaves (run_tree sha ops) = map (hash_leaf sha) (run_data ops)"
proof (induction ops rule: rev_induct)
  case Nil
  then show ?case
    by (simp add: run_tree_def run_data_def tree_inv_new) (simp add: tree_new_def)
next
  case (snoc x ops)
  then show ?case
    by (simp add: run_tree_def run_data_def tree_step_inv tree_step_leaves)
qed

subsection \<open>Completeness of proofs\<close>

lemma proof_path_complete:
  "i < length xs \<Longrightarrow> proof_path (butlast (all_levels (hash_internal sha) xs)) i = (sibs, dirs) \<Longrightarrow>
   length sibs = length dirs \<and>
   path_hash sha (zip sibs dirs) (xs ! i) = mroot (hash_internal sha) xs"
proof (induction "hash_internal sha" xs arbitrary: i sibs dirs rule: all_levels.induct)
  case (1 xs)
  let ?f = "hash_internal sha"
  show ?case
  proof (cases "1 < length xs")
    case True
    let ?ys = "pair_level ?f xs"
    obtain s d where rest: "proof_path (butlast (all_levels ?f ?ys)) (i div 2) = (s, d)"
      by fastforce
    have i2: "i div 2 < length ?ys"
      using "1.prems"(1) by (simp add: length_pair_level)
    have IH: "length s = length d" "path_hash sha (zip s d) (?ys ! (i div 2)) = mroot ?f xs"
      using "1.hyps" [OF True i2 rest] True by (auto simp: mroot_step)
    have path: "proof_path (xs # butlast (all_levels ?f ?ys)) i = (sibs, dirs)"
      using "1.prems"(2) True by (simp add: all_levels.simps [of ?f xs])
    consider (right) "odd i" | (left) "even i" "i + 1 < length xs" | (promoted) "even i" "i + 1 = length xs"
      using "1.prems"(1) by linarith
    then show ?thesis
    proof cases
      case right
      then have "2 * (i div 2) + 1 = i" by presburger
      with right "1.prems"(1) have "?ys ! (i div 2) = ?f (xs ! (i - 1)) (xs ! i)"
        using nth_pair_level [OF i2] by (metis add_diff_cancel_right')
      with right path rest IH "1.prems"(1) show ?thesis
        by (auto simp: odd_iff_mod_2_eq_one Let_def split: if_splits)
    next
      case left
      then have "?ys ! (i div 2) = ?f (xs ! i) (xs ! (i + 1))"
        using nth_pair_level [OF i2] by simp
      with left path rest IH show ?thesis
        by (auto simp: Let_def)
    next
      case promoted
      then have "?ys ! (i div 2) = xs ! i"
        using nth_pair_level [OF i2] by simp
      with promoted path rest IH show ?thesis
        by (auto simp: Let_def)
    qed
  next
    case False
    with "1.prems" show ?thesis
      by (cases xs) (auto simp: all_levels.simps)
  qed
qed

lemma generate_proof_spec:
  assumes inv: "tree_inv sha t" and i: "i < length (leaves t)"
  obtains t' p where "generate_proof sha t i = (t', Ok p)" "leaves t' = leaves t" "tree_inv sha t'"
    "leaf_index p = i" "leaf_hash p = leaves t ! i"
    "length (sibling_hashes p) = length (directions p)"
    "path_hash sha (zip (sibling_hashes p) (directions p)) (leaves t ! i) =
       mroot (hash_internal sha) (leaves t)"
proof (cases "length (leaves t) = 1")
  case True
  with i obtain x where "leaves t = [x]" "i = 0"
    by (auto simp: length_Suc_conv)
  with inv that show ?thesis
    by (auto simp: generate_proof_def tree_is_empty_def)
next
  case False
  with i have ne: "leaves t \<noteq> []" "1 < length (leaves t)" by auto
  obtain t' where t': "ensure_levels sha t = (t', Ok ())" "leaves t' = leaves t" "tree_inv sha t'"
      "levels t' = all_levels (hash_internal sha) (leaves t)"
    using ensure_levels_spec [OF inv ne(1)] by blast
  obtain s d where sd: "proof_path (butlast (levels t')) i = (s, d)"
    by fastforce
  have "1 < length (levels t')"
    using ne t' by (simp add: all_levels.simps [of _ "leaves t"] Suc_lessI)
  with t' sd ne i have
    "generate_proof sha t i =
       (t', Ok \<lparr>leaf_index = i, leaf_hash = leaves t ! i, sibling_hashes = s, directions = d\<rparr>)"
    by (simp add: generate_proof_def tree_is_empty_def)
  moreover have "length s = length d \<and>
      path_hash sha (zip s d) (leaves t ! i) = mroot (hash_internal sha) (leaves t)"
    using proof_path_complete [OF i] sd t' by simp
  ultimately show ?thesis
    using that t' by auto
qed

lemma verify_proof_complete:
  assumes "leaf_hash p = hash_leaf sha d"
    and "length (sibling_hashes p) = length (directions p)"
    and "path_hash sha (zip (sibling_hashes p) (directions p)) (hash_leaf sha d) = r"
  shows "verify_proof sha p r d = Ok True"
  using assms by (auto simp: verify_proof_def)

subsection \<open>Soundness of proofs\<close>

text \<open>
  The messages SHA-256 is applied to when a tree over \<open>ds\<close> is built, and when a proof is checked.
\<close>

fun path_pairs :: "(bytes \<Rightarrow> bytes) \<Rightarrow> (bytes \<times> bool) list \<Rightarrow> bytes \<Rightarrow> (bytes \<times> bytes) list" where
  "path_pairs sha [] cur = []"
| "path_pairs sha ((s, d) # path) cur =
     (let pr = (if d then (s, cur) else (cur, s))
      in pr # path_pairs sha path (hash_internal sha (fst pr) (snd pr)))"

definition node_msg :: "bytes \<times> bytes \<Rightarrow> bytes" where
  "node_msg pr = INTERNAL_PREFIX @ fst pr @ snd pr"

definition leaf_msg :: "bytes \<Rightarrow> bytes" where
  "leaf_msg d = LEAF_PREFIX @ d"

definition tree_msgs :: "(bytes \<Rightarrow> bytes) \<Rightarrow> bytes list \<Rightarrow> bytes list" where
  "tree_msgs sha ds =
     map leaf_msg ds @ map node_msg (tree_pairs (hash_internal sha) (map (hash_leaf sha) ds))"

definition proof_msgs :: "(bytes \<Rightarrow> bytes) \<Rightarrow> inclusion_proof \<Rightarrow> bytes \<Rightarrow> bytes list" where
  "proof_msgs sha p d =
     leaf_msg d # map node_msg (path_pairs sha (zip (sibling_hashes p) (directions p)) (leaf_hash p))"

definition proof_wf :: "inclusion_proof \<Rightarrow> bool" where
  "proof_wf p \<longleftrightarrow> length (leaf_hash p) = 32 \<and> list_all (\<lambda>h. length h = 32) (sibling_hashes p)"

lemma hash_leaf_msg: "hash_leaf sha d = sha (leaf_msg d)"
  by (simp add: hash_leaf_def leaf_msg_def)

lemma hash_internal_msg: "hash_internal sha l r = sha (node_msg (l, r))"
  by (simp add: hash_internal_def node_msg_def)

lemma leaf_msg_inj [simp]: "leaf_msg d = leaf_msg e \<longleftrightarrow> d = e"
  by (simp add: leaf_msg_def)

lemma leaf_node_msg [simp]: "leaf_msg d \<noteq> node_msg pr" "node_msg pr \<noteq> leaf_msg d"
proof -
  have "leaf_msg d ! 7 \<noteq> node_msg pr ! 7"
    by (simp add: leaf_msg_def node_msg_def LEAF_PREFIX_def INTERNAL_PREFIX_def as_bytes_def nth_append of_char_def)
  then show "leaf_msg d \<noteq> node_msg pr" "node_msg pr \<noteq> leaf_msg d" by metis+
qed

lemma node_msg_inj:
  "length (fst p) = length (fst q) \<Longrightarrow> node_msg p = node_msg q \<longleftrightarrow> p = q"
  by (cases p; cases q) (auto simp: node_msg_def)

lemma tree_msgs_values:
  fixes sha :: "bytes \<Rightarrow> bytes" and ds :: "bytes list"
  assumes "ds \<noteq> []"
  defines "T \<equiv> sha ` set (tree_msgs sha ds)"
  shows "mroot (hash_internal sha) (map (hash_leaf sha) ds) \<in> T"
    and "set (tree_pairs (hash_internal sha) (map (hash_leaf sha) ds)) \<subseteq> T \<times> T"
proof -
  have "set (map (hash_leaf sha) ds) \<subseteq> T"
    by (auto simp: T_def tree_msgs_def hash_leaf_msg)
  moreover have "(\<lambda>(l, r). hash_internal sha l r) `
      set (tree_pairs (hash_internal sha) (map (hash_leaf sha) ds)) \<subseteq> T"
    by (auto simp: T_def tree_msgs_def hash_internal_msg)
  ultimately show "mroot (hash_internal sha) (map (hash_leaf sha) ds) \<in> T"
    and "set (tree_pairs (hash_internal sha) (map (hash_leaf sha) ds)) \<subseteq> T \<times> T"
    using tree_values [of "map (hash_leaf sha) ds" T "hash_internal sha"] assms(1) by auto
qed

lemma node_in_tree:
  assumes len: "sha256_len sha" and ds: "ds \<noteq> []"
    and inj: "inj_on sha (insert (node_msg (l, r)) (set (tree_msgs sha ds)))"
    and lr: "length l = 32" "hash_internal sha l r \<in> sha ` set (tree_msgs sha ds)"
  shows "l \<in> sha ` set (tree_msgs sha ds) \<and> r \<in> sha ` set (tree_msgs sha ds)"
proof -
  from lr(2) have "node_msg (l, r) \<in> set (tree_msgs sha ds)"
    unfolding hash_internal_msg using inj_on_image_mem_iff [OF inj, of "node_msg (l, r)"] by blast
  then obtain l' r' where pr: "node_msg (l, r) = node_msg (l', r')"
      "(l', r') \<in> set (tree_pairs (hash_internal sha) (map (hash_leaf sha) ds))"
    by (auto simp: tree_msgs_def)
  then have l': "l' \<in> sha ` set (tree_msgs sha ds)" "r' \<in> sha ` set (tree_msgs sha ds)"
    using tree_msgs_values(2) [OF ds, of sha] by auto
  then have "length l' = 32"
    using len by (auto simp: sha256_len_def)
  with pr(1) lr(1) have "l = l' \<and> r = r'"
    by (simp add: node_msg_inj)
  with l' show ?thesis by simp
qed

text \<open>A root binds the set of the data below it, across trees of different sizes.\<close>

lemma merkle_root_subset:
  assumes len: "sha256_len sha" and ne: "ds \<noteq> []" "es \<noteq> []"
    and inj: "inj_on sha (set (tree_msgs sha ds) \<union> set (tree_msgs sha es))"
    and eq: "mroot (hash_internal sha) (map (hash_leaf sha) ds) = mroot (hash_internal sha) (map (hash_leaf sha) es)"
  shows "set ds \<subseteq> set es"
proof -
  let ?T = "sha ` set (tree_msgs sha es)" and ?f = "hash_internal sha" and ?hs = "map (hash_leaf sha) ds"
  have "set ?hs \<subseteq> ?T"
  proof (rule tree_values_down [of ?f])
    show "mroot ?f ?hs \<in> ?T"
      unfolding eq by (rule tree_msgs_values(1) [OF ne(2)])
    fix a b
    assume ab: "(a, b) \<in> set (tree_pairs ?f ?hs)" "?f a b \<in> ?T"
    have "length a = 32"
      using tree_msgs_values(2) [OF ne(1), of sha] ab(1) len by (auto simp: sha256_len_def)
    moreover have "inj_on sha (insert (node_msg (a, b)) (set (tree_msgs sha es)))"
      by (rule inj_on_subset [OF inj]) (use ab(1) in \<open>auto simp: tree_msgs_def\<close>)
    ultimately show "a \<in> ?T \<and> b \<in> ?T"
      using ab(2) by (intro node_in_tree [OF len ne(2)])
  qed (use ne in simp)
  show ?thesis
  proof
    fix d
    assume d: "d \<in> set ds"
    with \<open>set ?hs \<subseteq> ?T\<close> have "sha (leaf_msg d) \<in> ?T"
      by (auto simp: hash_leaf_msg)
    moreover have "leaf_msg d \<in> set (tree_msgs sha ds)"
      using d by (simp add: tree_msgs_def)
    ultimately have "leaf_msg d \<in> set (tree_msgs sha es)"
      using inj_on_image_mem_iff [OF inj, of "leaf_msg d" "set (tree_msgs sha es)"] by blast
    then show "d \<in> set es"
      by (auto simp: tree_msgs_def)
  qed
qed

lemma path_hash_sound:
  assumes len: "sha256_len sha" and ds: "ds \<noteq> []"
    and inj: "inj_on sha (set (tree_msgs sha ds) \<union> node_msg ` set (path_pairs sha path cur))"
    and wf: "length cur = 32" "\<forall>x \<in> set path. length (fst x) = 32"
    and val: "path_hash sha path cur \<in> sha ` set (tree_msgs sha ds)"
  shows "cur \<in> sha ` set (tree_msgs sha ds)"
  using inj wf val
proof (induction path arbitrary: cur)
  case Nil
  then show ?case by simp
next
  case (Cons x path)
  obtain s d where x: "x = (s, d)" by fastforce
  define l where "l = (if d then s else cur)"
  define r where "r = (if d then cur else s)"
  have step: "path_hash sha (x # path) cur = path_hash sha path (hash_internal sha l r)"
    "path_pairs sha (x # path) cur = (l, r) # path_pairs sha path (hash_internal sha l r)"
    by (auto simp: x l_def r_def)
  have "hash_internal sha l r \<in> sha ` set (tree_msgs sha ds)"
  proof (rule Cons.IH)
    show "inj_on sha (set (tree_msgs sha ds) \<union> node_msg ` set (path_pairs sha path (hash_internal sha l r)))"
      by (rule inj_on_subset [OF Cons.prems(1)]) (auto simp: step)
    show "length (hash_internal sha l r) = 32"
      using len by (simp add: hash_internal_msg sha256_len_def)
  qed (use Cons.prems step in auto)
  moreover have "length l = 32"
    using Cons.prems(2,3) by (auto simp: x l_def)
  moreover have "inj_on sha (insert (node_msg (l, r)) (set (tree_msgs sha ds)))"
    by (rule inj_on_subset [OF Cons.prems(1)]) (auto simp: step)
  ultimately show ?case
    using node_in_tree [OF len ds, of l r] by (auto simp: l_def r_def split: if_splits)
qed

lemma verify_proof_sound:
  assumes len: "sha256_len sha" and ds: "ds \<noteq> []" and wf: "proof_wf p"
    and inj: "inj_on sha (set (tree_msgs sha ds) \<union> set (proof_msgs sha p d))"
    and ok: "verify_proof sha p (mroot (hash_internal sha) (map (hash_leaf sha) ds)) d = Ok True"
  shows "d \<in> set ds"
proof -
  have leaf: "leaf_hash p = sha (leaf_msg d)"
    and path: "path_hash sha (zip (sibling_hashes p) (directions p)) (leaf_hash p) =
      mroot (hash_internal sha) (map (hash_leaf sha) ds)"
    using ok by (auto simp: verify_proof_def hash_leaf_msg split: if_splits)
  have "leaf_hash p \<in> sha ` set (tree_msgs sha ds)"
  proof (rule path_hash_sound [OF len ds])
    show "inj_on sha (set (tree_msgs sha ds) \<union>
        node_msg ` set (path_pairs sha (zip (sibling_hashes p) (directions p)) (leaf_hash p)))"
      by (rule inj_on_subset [OF inj]) (auto simp: proof_msgs_def)
    show "\<forall>x \<in> set (zip (sibling_hashes p) (directions p)). length (fst x) = 32"
      using wf by (auto simp: proof_wf_def list_all_iff dest: set_zip_leftD)
    show "path_hash sha (zip (sibling_hashes p) (directions p)) (leaf_hash p) \<in> sha ` set (tree_msgs sha ds)"
      using tree_msgs_values(1) [OF ds, of sha] path by simp
  qed (use wf in \<open>simp add: proof_wf_def\<close>)
  then have "leaf_msg d \<in> set (tree_msgs sha ds)"
    unfolding leaf using inj_on_image_mem_iff [OF inj, of "leaf_msg d" "set (tree_msgs sha ds)"]
    by (auto simp: proof_msgs_def)
  then show ?thesis
    by (auto simp: tree_msgs_def)
qed

subsection \<open>Length of proofs\<close>

lemma proof_path_length: "proof_path lvs i = (s, d) \<Longrightarrow> length s \<le> length lvs"
proof (induction lvs arbitrary: i s d)
  case (Cons level rest)
  obtain s' d' where rest: "proof_path rest (i div 2) = (s', d')"
    by fastforce
  with Cons.IH have "length s' \<le> length rest"
    by blast
  with Cons.prems rest show ?case
    by (auto simp: Let_def split: if_splits)
qed simp

lemma all_levels_height: "xs \<noteq> [] \<Longrightarrow> 2 ^ length (butlast (all_levels f xs)) < 2 * length xs"
proof (induction f xs rule: all_levels.induct)
  case (1 f xs)
  show ?case
  proof (cases "1 < length xs")
    case True
    let ?k = "length (butlast (all_levels f (pair_level f xs)))"
    have IH: "2 ^ ?k < 2 * ((length xs + 1) div 2)"
      using "1.IH" [OF True] "1.prems" by (simp add: length_pair_level)
    have "2 ^ ?k < length xs"
    proof (cases "even (length xs)")
      case True
      with IH show ?thesis by auto
    next
      case False
      then have "2 ^ ?k \<noteq> length xs"
        using \<open>1 < length xs\<close> by (cases ?k) (auto dest: sym)
      with IH False show ?thesis by (auto elim!: oddE)
    qed
    with True show ?thesis
      by (simp add: all_levels.simps [of f xs] del: length_butlast)
  next
    case False
    with "1.prems" show ?thesis
      by (cases xs) (auto simp: all_levels.simps)
  qed
qed

lemma generate_proof_length:
  assumes inv: "tree_inv sha t" and ok: "generate_proof sha t i = (t', Ok p)"
  shows "2 ^ length (sibling_hashes p) < 2 * length (leaves t)"
proof (cases "length (leaves t) = 1")
  case True
  with ok show ?thesis
    by (auto simp: generate_proof_def tree_is_empty_def split: if_splits)
next
  case False
  from ok have i: "i < length (leaves t)"
    by (auto simp: generate_proof_def split: if_splits)
  then have ne: "leaves t \<noteq> []" by auto
  then obtain u where u: "ensure_levels sha t = (u, Ok ())"
      "levels u = all_levels (hash_internal sha) (leaves t)"
    using ensure_levels_spec [OF inv] by blast
  have "1 < length (levels u)"
    using ne i False u by (simp add: all_levels.simps [of _ "leaves t"] Suc_lessI)
  with ok False i ne u obtain d where
      "proof_path (butlast (all_levels (hash_internal sha) (leaves t))) i = (sibling_hashes p, d)"
    by (auto simp: generate_proof_def tree_is_empty_def split: prod.splits)
  then have "length (sibling_hashes p) \<le> length (butlast (all_levels (hash_internal sha) (leaves t)))"
    by (rule proof_path_length)
  then have "(2 :: nat) ^ length (sibling_hashes p) \<le>
      2 ^ length (butlast (all_levels (hash_internal sha) (leaves t)))"
    by simp
  with all_levels_height [OF ne, of "hash_internal sha"] show ?thesis
    by linarith
qed

subsection \<open>The interface the coverage log relies on\<close>

text \<open>
  What a client of the tree uses: leaves are appended, the root of a non-empty tree is a function
  \<open>top\<close> of the leaves alone, and a proof made for a leaf checks against that root. None of the
  calls can fail on a tree in a good state.
\<close>

locale merkle_store =
  fixes empty :: "'t"
    and add :: "'t \<Rightarrow> bytes \<Rightarrow> 't"
    and root :: "'t \<Rightarrow> 't \<times> (bytes, 'e) result option"
    and prove :: "'t \<Rightarrow> nat \<Rightarrow> 't \<times> ('p, 'e) result"
    and check :: "'p \<Rightarrow> bytes \<Rightarrow> bytes \<Rightarrow> (bool, 'e) result"
    and good :: "'t \<Rightarrow> bool"
    and view :: "'t \<Rightarrow> 'l list"
    and leaf :: "bytes \<Rightarrow> 'l"
    and top :: "'l list \<Rightarrow> bytes"
  assumes good_empty: "good empty"
    and view_empty: "view empty = []"
    and good_add: "good t \<Longrightarrow> good (add t d)"
    and view_add: "good t \<Longrightarrow> view (add t d) = view t @ [leaf d]"
    and root_law: "good t \<Longrightarrow> view t \<noteq> [] \<Longrightarrow>
      \<exists>t'. root t = (t', Some (Ok (top (view t)))) \<and> good t' \<and> view t' = view t"
    and prove_law: "good t \<Longrightarrow> i < length (view t) \<Longrightarrow> view t ! i = leaf d \<Longrightarrow>
      \<exists>t' p. prove t i = (t', Ok p) \<and> good t' \<and> view t' = view t \<and> check p (top (view t)) d = Ok True"
begin

lemma add_all: "good t \<Longrightarrow> good (foldl add t ds) \<and> view (foldl add t ds) = view t @ map leaf ds"
  by (induction ds arbitrary: t) (auto simp: good_add view_add)

lemma build: "good (foldl add empty ds) \<and> view (foldl add empty ds) = map leaf ds"
  using add_all [OF good_empty] by (simp add: view_empty)

lemma build_root:
  "ds \<noteq> [] \<Longrightarrow>
   \<exists>t'. root (foldl add empty ds) = (t', Some (Ok (top (map leaf ds)))) \<and> good t' \<and> view t' = map leaf ds"
  using root_law [of "foldl add empty ds"] build [of ds] by auto

lemma prove_item:
  "good t \<Longrightarrow> view t = map leaf ds \<Longrightarrow> i < length ds \<Longrightarrow>
   \<exists>t' p. prove t i = (t', Ok p) \<and> good t' \<and> view t' = map leaf ds \<and>
     check p (top (map leaf ds)) (ds ! i) = Ok True"
  using prove_law [of t i "ds ! i"] by auto

end

interpretation mstore: merkle_store tree_new "insert_leaf sha" "tree_root sha" "generate_proof sha"
    "verify_proof sha" "tree_inv sha" leaves "hash_leaf sha" "mroot (hash_internal sha)"
  for sha :: "bytes \<Rightarrow> bytes"
proof unfold_locales
  show "leaves tree_new = []"
    by (simp add: tree_new_def)
next
  fix t
  assume inv: "tree_inv sha t" and ne: "leaves t \<noteq> []"
  show "\<exists>t'. tree_root sha t = (t', Some (Ok (mroot (hash_internal sha) (leaves t)))) \<and>
      tree_inv sha t' \<and> leaves t' = leaves t"
    by (rule tree_root_spec [OF inv]) (use ne in simp)
next
  fix t i d
  assume inv: "tree_inv sha t" "i < length (leaves t)" and d: "leaves t ! i = hash_leaf sha d"
  show "\<exists>t' p. generate_proof sha t i = (t', Ok p) \<and> tree_inv sha t' \<and> leaves t' = leaves t \<and>
      verify_proof sha p (mroot (hash_internal sha) (leaves t)) d = Ok True"
    by (rule generate_proof_spec [OF inv]) (use d in \<open>simp add: verify_proof_complete\<close>)
qed (auto simp: tree_inv_new)

subsection \<open>Properties\<close>

text \<open>
  C15. After any sequence of calls, \<open>root\<close> neither panics nor returns a stale value: it is
  \<open>EmptyTree\<close> for a tree without leaves and otherwise the reference tree hash (recursive, split
  at the largest power of two) of the leaf hashes of the data inserted since the last \<open>clear\<close>,
  whichever of the cached root, the cached levels or the recomputation supplies it.
\<close>

theorem merkle_root_correct:
  "snd (tree_root sha (run_tree sha ops)) =
     Some (if run_data ops = [] then Err EmptyTree
           else Ok (mth (hash_internal sha) (map (hash_leaf sha) (run_data ops))))"
proof -
  have inv: "tree_inv sha (run_tree sha ops)"
    and lv: "leaves (run_tree sha ops) = map (hash_leaf sha) (run_data ops)"
    using run_tree_inv by auto
  show ?thesis
    by (rule tree_root_spec [OF inv]) (simp add: lv mroot_eq_mth)
qed

text \<open>
  C33. After any sequence of calls, a proof generated for the leaf at a valid index is accepted by
  \<open>verify_proof\<close> on the same tree for the data inserted there.
\<close>

theorem merkle_proof_complete:
  assumes "i < length (run_data ops)"
  shows "\<exists>t p. generate_proof sha (run_tree sha ops) i = (t, Ok p) \<and> leaf_index p = i \<and>
           snd (tree_verify_proof sha t p (run_data ops ! i)) = Some (Ok True)"
proof -
  have inv: "tree_inv sha (run_tree sha ops)"
    and lv: "leaves (run_tree sha ops) = map (hash_leaf sha) (run_data ops)"
    using run_tree_inv by auto
  obtain t p where p: "generate_proof sha (run_tree sha ops) i = (t, Ok p)"
      "leaves t = leaves (run_tree sha ops)" "tree_inv sha t" "leaf_index p = i"
      "leaf_hash p = hash_leaf sha (run_data ops ! i)"
      "length (sibling_hashes p) = length (directions p)"
      "path_hash sha (zip (sibling_hashes p) (directions p)) (hash_leaf sha (run_data ops ! i)) =
        mroot (hash_internal sha) (leaves t)"
    by (rule generate_proof_spec [OF inv, of i]) (use assms lv in auto)
  have ne: "leaves t \<noteq> []"
    using assms p(2) lv by auto
  have "snd (tree_verify_proof sha t p (run_data ops ! i)) = Some (Ok True)"
    by (rule tree_root_spec [OF p(3)])
      (use ne p(5-7) in \<open>simp add: tree_verify_proof_def verify_proof_complete\<close>)
  with p show ?thesis by blast
qed

text \<open>
  C1. A proof that \<open>verify_proof\<close> accepts on a tree is for data that was inserted into it: whatever
  siblings and directions the proof claims, the leaf and node prefixes keep an interior node from
  passing for a leaf. The only way around is a SHA-256 collision among the messages hashed for the
  tree and for the proof.
\<close>

theorem merkle_proof_sound:
  assumes "sha256_len sha" and "proof_wf p"
    and "inj_on sha (set (tree_msgs sha (run_data ops)) \<union> set (proof_msgs sha p d))"
    and "snd (tree_verify_proof sha (run_tree sha ops) p d) = Some (Ok True)"
  shows "d \<in> set (run_data ops)"
proof -
  have inv: "tree_inv sha (run_tree sha ops)"
    and lv: "leaves (run_tree sha ops) = map (hash_leaf sha) (run_data ops)"
    using run_tree_inv by auto
  have "run_data ops \<noteq> [] \<and>
      verify_proof sha p (mroot (hash_internal sha) (map (hash_leaf sha) (run_data ops))) d = Ok True"
    by (rule tree_root_spec [OF inv])
      (use assms(4) in \<open>auto simp: tree_verify_proof_def lv split: if_splits\<close>)
  with assms(1-3) show ?thesis
    by (blast intro: verify_proof_sound)
qed

definition sample_ops :: "tree_op list" where
  "sample_ops = [InsertLeaf [1], Root, InsertLeaf [2], InsertLeaf [3]]"

definition sample_proof :: inclusion_proof where
  "sample_proof =
     \<lparr>leaf_index = 1, leaf_hash = hash_leaf sample_sha [2],
      sibling_hashes = [hash_leaf sample_sha [1], hash_leaf sample_sha [3]], directions = [True, False]\<rparr>"

theorem merkle_proof_sound_witness: "[2] \<in> set (run_data sample_ops)"
proof (rule merkle_proof_sound)
  show "sha256_len sample_sha"
    by (rule sample_sha_len)
  show "proof_wf sample_proof"
    by code_simp
  show "inj_on sample_sha (set (tree_msgs sample_sha (run_data sample_ops)) \<union>
      set (proof_msgs sample_sha sample_proof [2]))"
    unfolding set_append [symmetric] by (rule inj_on_setI) code_simp
  show "snd (tree_verify_proof sample_sha (run_tree sample_sha sample_ops) sample_proof [2]) = Some (Ok True)"
    by code_simp
qed

theorem merkle_proof_complete_witness:
  "\<exists>t p. generate_proof sample_sha (run_tree sample_sha sample_ops) 1 = (t, Ok p) \<and> leaf_index p = 1 \<and>
     snd (tree_verify_proof sample_sha t p (run_data sample_ops ! 1)) = Some (Ok True)"
  by (rule merkle_proof_complete) code_simp

text \<open>
  Proofs are logarithmic: a proof generated on a tree with \<open>n\<close> leaves has fewer than
  \<open>1 + log2 n\<close> siblings.
\<close>

theorem merkle_proof_logarithmic:
  assumes "generate_proof sha (run_tree sha ops) i = (t, Ok p)"
  shows "2 ^ length (sibling_hashes p) < 2 * length (run_data ops)"
  using generate_proof_length [OF _ assms] run_tree_inv [of sha ops] by simp

theorem merkle_proof_logarithmic_witness:
  "2 ^ length (sibling_hashes sample_proof) < 2 * length (run_data sample_ops)"
proof -
  have "snd (generate_proof sample_sha (run_tree sample_sha sample_ops) 1) = Ok sample_proof"
    by code_simp
  then have "generate_proof sample_sha (run_tree sample_sha sample_ops) 1 =
      (fst (generate_proof sample_sha (run_tree sample_sha sample_ops) 1), Ok sample_proof)"
    by (metis prod.collapse)
  then show ?thesis
    by (rule merkle_proof_logarithmic)
qed

end
