(* ===== verification/Signatures.thy ===== *)
theory Signatures
  imports Prelude
begin

text \<open>
  The Ed25519 wrapper of the crypto crate (\<open>crates/crypto/src/signatures.rs\<close>): length checks on
  keys and signatures, signing, verification and batch verification. The curve operations are those
  of \<open>ed25519_dalek\<close>, a third-party crate; they are the fields of the parameter record
  \<open>ed25519\<close>. A key or signature is represented by its byte encoding, which is what
  \<open>to_bytes\<close> returns. \<open>ed25519_correct\<close> names the documented facts used of the crate: public
  keys are valid 32-byte encodings, signatures have 64 bytes, and an honest signature verifies.
\<close>

record ed25519 =
  dalek_public :: "bytes \<Rightarrow> bytes"
  dalek_decode_vk :: "bytes \<Rightarrow> (unit, string) result"
  dalek_try_sign :: "bytes \<Rightarrow> bytes \<Rightarrow> (bytes, string) result"
  dalek_verify :: "bytes \<Rightarrow> bytes \<Rightarrow> bytes \<Rightarrow> (unit, string) result"

datatype crypto_error =
    InvalidKey string
  | InvalidCiphertext string
  | CryptoInvalidSignature string
  | InvalidNonce string
  | EncryptionFailure string
  | DecryptionFailure string
  | RandomFailure string
  | KeyDerivationFailure string
  | InternalCrypto string

fun crypto_error_display :: "crypto_error \<Rightarrow> string" where
  "crypto_error_display (InvalidKey msg) = ''Invalid key: '' @ msg"
| "crypto_error_display (InvalidCiphertext msg) = ''Invalid ciphertext: '' @ msg"
| "crypto_error_display (CryptoInvalidSignature msg) = ''Invalid signature: '' @ msg"
| "crypto_error_display (InvalidNonce msg) = ''Invalid nonce: '' @ msg"
| "crypto_error_display (EncryptionFailure msg) = ''Encryption failed: '' @ msg"
| "crypto_error_display (DecryptionFailure msg) = ''Decryption failed: '' @ msg"
| "crypto_error_display (RandomFailure msg) = ''Random number generation failed: '' @ msg"
| "crypto_error_display (KeyDerivationFailure msg) = ''Key derivation failed: '' @ msg"
| "crypto_error_display (InternalCrypto msg) = ''Internal error: '' @ msg"

abbreviation (input) SIGNING_KEY_LEN :: nat where
  "SIGNING_KEY_LEN \<equiv> 32"

abbreviation (input) VERIFYING_KEY_LEN :: nat where
  "VERIFYING_KEY_LEN \<equiv> 32"

abbreviation (input) SIGNATURE_LEN :: nat where
  "SIGNATURE_LEN \<equiv> 64"

definition expected_bytes :: "nat \<Rightarrow> nat \<Rightarrow> string" where
  "expected_bytes n m = ''Expected '' @ dec_nat n @ '' bytes, got '' @ dec_nat m"

definition signing_key_from_bytes :: "bytes \<Rightarrow> (bytes, crypto_error) result" where
  "signing_key_from_bytes b =
     (if length b \<noteq> SIGNING_KEY_LEN
      then Err (InvalidKey (expected_bytes SIGNING_KEY_LEN (length b)))
      else Ok b)"

definition sk_verifying_key :: "ed25519 \<Rightarrow> bytes \<Rightarrow> bytes" where
  "sk_verifying_key ed sk = dalek_public ed sk"

definition sk_sign :: "ed25519 \<Rightarrow> bytes \<Rightarrow> bytes \<Rightarrow> (bytes, crypto_error) result" where
  "sk_sign ed sk msg =
     map_err (\<lambda>e. CryptoInvalidSignature (''Signing failed: '' @ e)) (dalek_try_sign ed sk msg)"

definition verifying_key_from_bytes :: "ed25519 \<Rightarrow> bytes \<Rightarrow> (bytes, crypto_error) result" where
  "verifying_key_from_bytes ed b =
     (if length b \<noteq> VERIFYING_KEY_LEN
      then Err (InvalidKey (expected_bytes VERIFYING_KEY_LEN (length b)))
      else rbind (map_err (\<lambda>e. InvalidKey (''Invalid verifying key: '' @ e)) (dalek_decode_vk ed b))
             (\<lambda>_. Ok b))"

definition vk_verify :: "ed25519 \<Rightarrow> bytes \<Rightarrow> bytes \<Rightarrow> bytes \<Rightarrow> (unit, crypto_error) result" where
  "vk_verify ed vk msg sig =
     map_err (\<lambda>e. CryptoInvalidSignature (''Verification failed: '' @ e)) (dalek_verify ed vk msg sig)"

definition signature_from_bytes :: "bytes \<Rightarrow> (bytes, crypto_error) result" where
  "signature_from_bytes b =
     (if length b \<noteq> SIGNATURE_LEN
      then Err (CryptoInvalidSignature (expected_bytes SIGNATURE_LEN (length b)))
      else Ok b)"

definition sig_batch_verify ::
  "ed25519 \<Rightarrow> bytes list \<Rightarrow> bytes list \<Rightarrow> bytes list \<Rightarrow> (unit, crypto_error) result" where
  "sig_batch_verify ed vks msgs sigs =
     (if length vks \<noteq> length msgs \<or> length msgs \<noteq> length sigs
      then Err (CryptoInvalidSignature ''Mismatched lengths for batch verification'')
      else for_each (\<lambda>((vk, msg), sig). vk_verify ed vk msg sig) (zip (zip vks msgs) sigs))"

text \<open>The documented behaviour of the third-party crate that client proofs may assume.\<close>

definition ed25519_correct :: "ed25519 \<Rightarrow> bool" where
  "ed25519_correct ed \<longleftrightarrow>
     (\<forall>sk. length (dalek_public ed sk) = 32 \<and> dalek_decode_vk ed (dalek_public ed sk) = Ok ()) \<and>
     (\<forall>sk msg. \<exists>sig. dalek_try_sign ed sk msg = Ok sig \<and> length sig = 64 \<and>
        dalek_verify ed (dalek_public ed sk) msg sig = Ok ())"

text \<open>
  A concrete instance used in examples: a signature is the public key followed by the first 32
  bytes of the padded message.
\<close>

definition pad32 :: "bytes \<Rightarrow> bytes" where
  "pad32 b = take 32 (b @ replicate 32 0)"

definition sample_ed25519 :: ed25519 where
  "sample_ed25519 =
     \<lparr>dalek_public = pad32, dalek_decode_vk = (\<lambda>_. Ok ()),
      dalek_try_sign = (\<lambda>sk msg. Ok (pad32 sk @ pad32 msg)),
      dalek_verify = (\<lambda>vk msg sig. if sig = vk @ pad32 msg then Ok () else Err ''bad signature'')\<rparr>"

lemma length_pad32 [simp]: "length (pad32 b) = 32"
  by (auto simp: pad32_def)

lemma sample_ed25519_correct: "ed25519_correct sample_ed25519"
  by (simp add: ed25519_correct_def sample_ed25519_def)

lemma vk_verify_Ok_iff [result_simps]: "vk_verify ed vk msg sig = Ok u \<longleftrightarrow> dalek_verify ed vk msg sig = Ok ()"
  by (cases u) (simp add: vk_verify_def result_simps)

lemma verifying_key_from_bytes_Ok_iff [result_simps]:
  "verifying_key_from_bytes ed b = Ok vk \<longleftrightarrow> vk = b \<and> length b = 32 \<and> dalek_decode_vk ed b = Ok ()"
  by (auto simp: verifying_key_from_bytes_def result_simps)

lemma signature_from_bytes_Ok_iff [result_simps]:
  "signature_from_bytes b = Ok s \<longleftrightarrow> s = b \<and> length b = 64"
  by (auto simp: signature_from_bytes_def)

lemma sk_sign_verifies:
  assumes "ed25519_correct ed"
  obtains sig where "sk_sign ed sk msg = Ok sig" "length sig = 64"
    "vk_verify ed (sk_verifying_key ed sk) msg sig = Ok ()"
proof -
  from assms obtain sig where "dalek_try_sign ed sk msg = Ok sig" "length sig = 64"
      "dalek_verify ed (dalek_public ed sk) msg sig = Ok ()"
    unfolding ed25519_correct_def by blast
  then show thesis
    by (intro that [of sig]) (simp_all add: sk_sign_def sk_verifying_key_def vk_verify_def)
qed

lemma all_zip3_iff:
  assumes "length vks = length msgs" "length msgs = length sigs"
  shows "(\<forall>x \<in> set (zip (zip vks msgs) sigs). Q x) \<longleftrightarrow>
     (\<forall>i < length vks. Q ((vks ! i, msgs ! i), sigs ! i))"
  unfolding all_set_conv_all_nth using assms by simp

text \<open>
  Batch verification accepts exactly when the three slices have the same length and every
  signature verifies on its own message under its own key.
\<close>

theorem batch_verify_iff:
  "sig_batch_verify ed vks msgs sigs = Ok () \<longleftrightarrow>
     length vks = length msgs \<and> length msgs = length sigs \<and>
     (\<forall>i. i < length vks \<longrightarrow> vk_verify ed (vks ! i) (msgs ! i) (sigs ! i) = Ok ())"
proof (cases "length vks = length msgs \<and> length msgs = length sigs")
  case True
  then show ?thesis
    unfolding sig_batch_verify_def for_each_Ok_iff
    by (simp add: for_each_Ok_iff all_zip3_iff)
next
  case False
  then show ?thesis
    by (auto simp: sig_batch_verify_def)
qed

theorem batch_verify_iff_witness:
  "sig_batch_verify sample_ed25519 [pad32 [1], pad32 [2]] [[7], [8]]
     [pad32 [1] @ pad32 [7], pad32 [2] @ pad32 [8]] = Ok ()"
  unfolding batch_verify_iff by (auto simp: less_Suc_eq nth_Cons' vk_verify_def sample_ed25519_def)

end
