(* ===== verification/Transparency.thy ===== *)
theory Transparency
  imports MerkleSpec Signatures
begin

text \<open>
  The transparency log messages (\<open>crates/messages/src/transparency.rs\<close>): entries, checkpoints with
  their signatures, and the verification of inclusion and consistency proofs. The log is a hash tree
  without domain separation; \<open>log_hash_internal\<close> is its node hash.

  Code of other crates is collected in the parameter record \<open>log_env\<close>: the digest, the curve
  operations, the JSON serialiser, the base64 and hexadecimal decoders and the RFC 3339 parser.

  Sizes and indices are the natural numbers of the \<open>u64\<close> fields; the one addition that can wrap,
  \<open>size + 1\<close> in the inclusion loop, is the wrapping \<open>add_u64\<close>.
\<close>

subsection \<open>Data\<close>

datatype revocation_reason = UserRequested | DeviceCompromised | Administrative | KeyRotation

datatype transparency_operation =
    AddJoinCard string string string
  | RevokeJoinCard string string revocation_reason
  | DirectoryUpdate bytes u64
  | EpochKeyRotation u64 bytes
  | CoverageSnapshot bytes u64 u64 "string option" bytes

record transparency_entry =
  te_sequence_number :: u64
  te_timestamp :: u64
  te_join_card_hash :: bytes
  te_operation :: transparency_operation
  te_signature :: bytes

record log_inclusion_proof =
  ip_entry :: transparency_entry
  ip_leaf_index :: u64
  ip_proof_path :: "bytes list"
  ip_log_size :: u64
  ip_log_root :: bytes

record consistency_proof =
  cp_old_size :: u64
  cp_new_size :: u64
  cp_old_root :: bytes
  cp_new_root :: bytes
  cp_proof_path :: "bytes list"

record checkpoint_entry =
  ce_entry_type :: string
  ce_sha256_hex :: string
  ce_sha256_base64 :: string
  ce_short_hex :: string
  ce_public_key_base64 :: string
  ce_server :: "string option"

record checkpoint =
  ck_version :: "32 word"
  ck_generated_at :: string
  ck_log_url :: "string option"
  ck_signing_key_id :: "string option"
  ck_tree_size :: u64
  ck_root_hash :: string
  ck_entries :: "checkpoint_entry list"
  ck_signature :: "string option"

record checkpoint_signing_payload =
  pl_version :: "32 word"
  pl_generated_at :: string
  pl_log_url :: "string option"
  pl_signing_key_id :: "string option"
  pl_tree_size :: u64
  pl_root_hash :: string
  pl_entries :: "checkpoint_entry list"

record trusted_key =
  tk_key_id :: string
  tk_public_key_base64 :: string

record transparency_config =
  tc_enabled :: bool
  tc_log_server_url :: "string option"
  tc_verification_timeout_seconds :: u64
  tc_fallback_to_pinning :: bool
  tc_max_checkpoint_age_seconds :: u64
  tc_trusted_signing_keys :: "trusted_key list"

definition transparency_config_default :: transparency_config where
  "transparency_config_default =
     \<lparr>tc_enabled = False, tc_log_server_url = None, tc_verification_timeout_seconds = 30,
      tc_fallback_to_pinning = True, tc_max_checkpoint_age_seconds = 86400,
      tc_trusted_signing_keys = []\<rparr>"

datatype transparency_error =
    Serialization string
  | InvalidInclusionProof
  | InvalidConsistencyProof
  | InvalidSignature
  | InvalidEntry string
  | UnknownSigningKey string
  | InvalidCheckpoint string
  | ServerUnavailable
  | Network string
  | CheckpointTooOld u64 u64
  | Timeout

fun transparency_error_display :: "transparency_error \<Rightarrow> string" where
  "transparency_error_display (Serialization e) = ''Failed to serialize transparency data: '' @ e"
| "transparency_error_display InvalidInclusionProof = ''Invalid inclusion proof''"
| "transparency_error_display InvalidConsistencyProof = ''Invalid consistency proof''"
| "transparency_error_display InvalidSignature = ''Invalid signature on transparency entry''"
| "transparency_error_display (InvalidEntry msg) = ''Invalid transparency entry: '' @ msg"
| "transparency_error_display (UnknownSigningKey key_id) = ''Unknown transparency signing key: '' @ key_id"
| "transparency_error_display (InvalidCheckpoint msg) = ''Invalid transparency checkpoint: '' @ msg"
| "transparency_error_display ServerUnavailable = ''Transparency log server unavailable''"
| "transparency_error_display (Network msg) = ''Network error: '' @ msg"
| "transparency_error_display (CheckpointTooOld age max_age) =
     ''Checkpoint too old: age '' @ dec_nat (unat age) @ ''s exceeds maximum '' @ dec_nat (unat max_age) @ ''s''"
| "transparency_error_display Timeout = ''Verification timeout''"

record log_env =
  env_sha :: "bytes \<Rightarrow> bytes"
  env_ed :: ed25519
  json_entry :: "transparency_entry \<Rightarrow> bytes"
  json_payload :: "checkpoint_signing_payload \<Rightarrow> (bytes, string) result"
  b64_decode :: "string \<Rightarrow> (bytes, string) result"
  hex_decode :: "string \<Rightarrow> (bytes, string) result"
  parse_rfc3339 :: "string \<Rightarrow> (instant, string) result"

subsection \<open>Entries\<close>

definition entry_hash :: "log_env \<Rightarrow> transparency_entry \<Rightarrow> bytes" where
  "entry_hash env e = env_sha env (json_entry env e)"

text \<open>\<open>now\<close> is the clock reading in nanoseconds; \<open>timestamp() as u64\<close> is its second, wrapped.\<close>

definition entry_new ::
  "instant \<Rightarrow> u64 \<Rightarrow> bytes \<Rightarrow> transparency_operation \<Rightarrow> bytes \<Rightarrow> transparency_entry" where
  "entry_new now seq jch op sig =
     \<lparr>te_sequence_number = seq, te_timestamp = word_of_int (now div 1000000000),
      te_join_card_hash = jch, te_operation = op, te_signature = sig\<rparr>"

subsection \<open>Checkpoints\<close>

definition signing_key_id :: "checkpoint \<Rightarrow> (string, transparency_error) result" where
  "signing_key_id c = ok_or (InvalidCheckpoint ''Checkpoint missing signing_key_id'') (ck_signing_key_id c)"

definition checkpoint_signature :: "log_env \<Rightarrow> checkpoint \<Rightarrow> (bytes, transparency_error) result" where
  "checkpoint_signature env c =
     rbind (ok_or (InvalidCheckpoint ''Checkpoint missing signature'') (ck_signature c)) (\<lambda>signature_b64.
     rbind (map_err (\<lambda>_. InvalidSignature) (b64_decode env (trim signature_b64))) (\<lambda>raw.
     map_err (\<lambda>_. InvalidSignature) (signature_from_bytes raw)))"

definition payload_of :: "checkpoint \<Rightarrow> checkpoint_signing_payload" where
  "payload_of c =
     \<lparr>pl_version = ck_version c, pl_generated_at = ck_generated_at c, pl_log_url = ck_log_url c,
      pl_signing_key_id = ck_signing_key_id c, pl_tree_size = ck_tree_size c,
      pl_root_hash = ck_root_hash c, pl_entries = ck_entries c\<rparr>"

definition signing_payload :: "log_env \<Rightarrow> checkpoint \<Rightarrow> (bytes, transparency_error) result" where
  "signing_payload env c = map_err Serialization (json_payload env (payload_of c))"

definition root_hash_bytes :: "log_env \<Rightarrow> checkpoint \<Rightarrow> (bytes, transparency_error) result" where
  "root_hash_bytes env c =
     rbind (map_err (\<lambda>e. InvalidCheckpoint (''Checkpoint root hash is not valid hex: '' @ e))
              (hex_decode env (trim (ck_root_hash c)))) (\<lambda>b.
     if length b \<noteq> 32
     then Err (InvalidCheckpoint (''Checkpoint root hash must be 32 bytes, got '' @ dec_nat (length b)))
     else Ok b)"

definition generated_at :: "log_env \<Rightarrow> checkpoint \<Rightarrow> (instant, transparency_error) result" where
  "generated_at env c =
     map_err (\<lambda>e. InvalidCheckpoint (''Checkpoint timestamp is invalid: '' @ e))
       (parse_rfc3339 env (ck_generated_at c))"

definition verify_signature :: "log_env \<Rightarrow> checkpoint \<Rightarrow> bytes \<Rightarrow> (unit, transparency_error) result" where
  "verify_signature env c vk =
     rbind (checkpoint_signature env c) (\<lambda>signature.
     rbind (signing_payload env c) (\<lambda>payload.
     if is_ok (vk_verify (env_ed env) vk payload signature) then Ok ()
     else
       rbind (root_hash_bytes env c) (\<lambda>root_bytes.
       map_err (\<lambda>_. InvalidSignature) (vk_verify (env_ed env) vk root_bytes signature))))"

subsection \<open>Inclusion proofs\<close>

definition log_hash_internal :: "(bytes \<Rightarrow> bytes) \<Rightarrow> bytes \<Rightarrow> bytes \<Rightarrow> bytes" where
  "log_hash_internal sha l r = sha (l @ r)"

text \<open>
  The loop of \<open>InclusionProof::verify\<close>; it returns the final hash and the unconsumed rest of the
  proof path.
\<close>

function incl_loop ::
  "(bytes \<Rightarrow> bytes) \<Rightarrow> nat \<Rightarrow> nat \<Rightarrow> bytes list \<Rightarrow> bytes \<Rightarrow> (bytes \<times> bytes list, transparency_error) result" where
  "incl_loop sha index log_size path cur =
     (if 1 < log_size then
        if index = sat_sub log_size 1 \<and> log_size mod 2 = 1
        then incl_loop sha (index div 2) (add_u64 log_size 1 div 2) path cur
        else
          (case path of
             [] \<Rightarrow> Err InvalidInclusionProof
           | sib # rest \<Rightarrow>
               incl_loop sha (index div 2) (add_u64 log_size 1 div 2) rest
                 (if index mod 2 = 0 then log_hash_internal sha cur sib
                  else log_hash_internal sha sib cur))
      else Ok (cur, path))"
  by pat_completeness auto

lemma wrapped_half_less: "1 < log_size \<Longrightarrow> (log_size + 1) mod 2 ^ 64 div 2 < (log_size :: nat)"
  using mod_less_eq_dividend [of "log_size + 1" "2 ^ 64"] by linarith

termination incl_loop
  by (relation "measure (\<lambda>(sha, index, log_size, path, cur). log_size)") (simp_all add: add_u64_mod wrapped_half_less del: One_nat_def)

declare incl_loop.simps [simp del]

lemmas incl_loop_unfold = incl_loop.simps [unfolded add_u64_mod]

definition inclusion_verify :: "log_env \<Rightarrow> log_inclusion_proof \<Rightarrow> (bool, transparency_error) result" where
  "inclusion_verify env p =
     (if ip_log_size p \<le> ip_leaf_index p then Ok False
      else
        rbind (incl_loop (env_sha env) (unat (ip_leaf_index p)) (unat (ip_log_size p)) (ip_proof_path p)
                 (entry_hash env (ip_entry p))) (\<lambda>(current_hash, rest).
        if rest \<noteq> [] then Err InvalidInclusionProof
        else Ok (current_hash = ip_log_root p)))"

subsection \<open>Consistency proofs\<close>

fun strip_odd :: "nat \<Rightarrow> nat \<Rightarrow> nat \<times> nat" where
  "strip_odd node last_node = (if node mod 2 = 1 then strip_odd (node div 2) (last_node div 2) else (node, last_node))"

declare strip_odd.simps [simp del]

fun last_loop :: "(bytes \<Rightarrow> bytes) \<Rightarrow> bytes list \<Rightarrow> nat \<Rightarrow> bytes \<Rightarrow> (bytes \<times> bytes list, transparency_error) result" where
  "last_loop sha path last_node new_hash =
     (if last_node = 0 then Ok (new_hash, path)
      else
        (case path of
           [] \<Rightarrow> Err InvalidConsistencyProof
         | sib # rest \<Rightarrow> last_loop sha rest (last_node div 2) (log_hash_internal sha new_hash sib)))"

declare last_loop.simps [simp del]

fun cons_loop ::
  "(bytes \<Rightarrow> bytes) \<Rightarrow> bytes list \<Rightarrow> nat \<Rightarrow> nat \<Rightarrow> bytes \<Rightarrow> bytes \<Rightarrow>
   (bytes \<times> bytes \<times> bytes list, transparency_error) result" where
  "cons_loop sha path node last_node old_hash new_hash =
     (if node = 0 then
        rbind (last_loop sha path last_node new_hash) (\<lambda>(new_hash', rest). Ok (old_hash, new_hash', rest))
      else if node mod 2 = 1 then
        (case path of
           [] \<Rightarrow> Err InvalidConsistencyProof
         | sib # rest \<Rightarrow>
             cons_loop sha rest (node div 2) (last_node div 2)
               (log_hash_internal sha sib old_hash) (log_hash_internal sha sib new_hash))
      else if node < last_node then
        (case path of
           [] \<Rightarrow> Err InvalidConsistencyProof
         | sib # rest \<Rightarrow>
             cons_loop sha rest (node div 2) (last_node div 2) old_hash (log_hash_internal sha new_hash sib))
      else cons_loop sha path (node div 2) (last_node div 2) old_hash new_hash)"

declare cons_loop.simps [simp del]

definition consistency_verify :: "log_env \<Rightarrow> consistency_proof \<Rightarrow> (bool, transparency_error) result" where
  "consistency_verify env p =
     (if cp_new_size p < cp_old_size p then Ok False
      else if cp_old_size p = cp_new_size p then Ok (cp_old_root p = cp_new_root p \<and> cp_proof_path p = [])
      else if cp_old_size p = 0 then Ok (cp_proof_path p = [])
      else
        (case strip_odd (unat (cp_old_size p) - 1) (unat (cp_new_size p) - 1) of
           (node, last_node) \<Rightarrow>
             rbind
               (if node \<noteq> 0
                then case cp_proof_path p of
                       [] \<Rightarrow> Err InvalidConsistencyProof
                     | sib # rest \<Rightarrow> Ok (sib, rest)
                else Ok (cp_old_root p, cp_proof_path p)) (\<lambda>(start, path).
             rbind (cons_loop (env_sha env) path node last_node start start) (\<lambda>(old_hash, new_hash, rest).
             if rest \<noteq> [] then Err InvalidConsistencyProof
             else Ok (old_hash = cp_old_root p \<and> new_hash = cp_new_root p)))))"

subsection \<open>Soundness of inclusion proofs\<close>

text \<open>The pairs that the loops hash.\<close>

function incl_pairs :: "(bytes \<Rightarrow> bytes) \<Rightarrow> nat \<Rightarrow> nat \<Rightarrow> bytes list \<Rightarrow> bytes \<Rightarrow> (bytes \<times> bytes) list" where
  "incl_pairs sha index log_size path cur =
     (if 1 < log_size then
        if index = log_size - 1 \<and> log_size mod 2 = 1
        then incl_pairs sha (index div 2) ((log_size + 1) div 2) path cur
        else
          (case path of
             [] \<Rightarrow> []
           | sib # rest \<Rightarrow>
               (let pr = (if index mod 2 = 0 then (cur, sib) else (sib, cur)) in
                pr # incl_pairs sha (index div 2) ((log_size + 1) div 2) rest
                       (log_hash_internal sha (fst pr) (snd pr))))
      else [])"
  by pat_completeness auto
termination
  by (relation "measure (\<lambda>(sha, index, log_size, path, cur). log_size)") auto

declare incl_pairs.simps [simp del]

lemma inj_pair:
  "inj_on (\<lambda>(l, r). f l r) P \<Longrightarrow> f a b = f c d \<Longrightarrow> (a, b) \<in> P \<Longrightarrow> (c, d) \<in> P \<Longrightarrow> a = c \<and> b = d"
  using inj_onD [of "\<lambda>(l, r). f l r" P "(a, b)" "(c, d)"] by simp

lemma incl_loop_sound:
  assumes inj: "inj_on (\<lambda>(l, r). log_hash_internal sha l r) P"
    and "incl_loop sha i n path cur = Ok (mroot (log_hash_internal sha) hs, rest)"
    and "i < n" "n = length hs" "n < 2 ^ 64 - 1"
    and "set (tree_pairs (log_hash_internal sha) hs) \<subseteq> P" "set (incl_pairs sha i n path cur) \<subseteq> P"
  shows "hs ! i = cur"
  using assms
proof (induction sha i n path cur arbitrary: hs rule: incl_loop.induct [unfolded add_u64_mod])
  case (1 sha i n path cur)
  let ?f = "log_hash_internal sha"
  let ?hs = "pair_level ?f hs"
  show ?case
  proof (cases "1 < n")
    case False
    with "1.prems" show ?thesis
      by (cases hs) (auto simp: incl_loop_unfold)
  next
    case True
    then have half: "(n + 1) mod 2 ^ 64 div 2 = length ?hs" "i div 2 < length ?hs" "length ?hs < 2 ^ 64 - 1"
      using "1.prems"(3-5) by (simp_all add: level_simps)
    have root: "mroot ?f hs = mroot ?f ?hs"
      using True "1.prems"(4) by (intro mroot_step) simp
    have sub: "set (tree_pairs ?f ?hs) \<subseteq> P"
      using tree_pairs_up "1.prems"(6) by blast
    have lvl: "set (level_pairs hs) \<subseteq> P"
      using tree_pairs_level "1.prems"(6) by blast
    have nth: "?hs ! (i div 2) =
        (if 2 * (i div 2) + 1 < length hs then ?f (hs ! (2 * (i div 2))) (hs ! (2 * (i div 2) + 1))
         else hs ! (2 * (i div 2)))"
      by (rule nth_pair_level [OF half(2)])
    have half': "(n + 1) div 2 = length ?hs"
      using "1.prems"(4) by (simp add: level_simps)
    show ?thesis
    proof (cases "i = sat_sub n 1 \<and> n mod 2 = 1")
      case promoted: True
      have loop: "incl_loop sha (i div 2) ((n + 1) mod 2 ^ 64 div 2) path cur = Ok (mroot ?f ?hs, rest)"
        using "1.prems"(2) True promoted by (subst (asm) incl_loop_unfold) (simp add: root)
      have "incl_pairs sha i n path cur = incl_pairs sha (i div 2) (length ?hs) path cur"
        using True promoted half' by (subst incl_pairs.simps) (simp add: sat_sub_def)
      then have "?hs ! (i div 2) = cur"
        using "1.IH"(1) [OF True promoted "1.prems"(1) loop] half sub "1.prems"(7) by simp
      moreover have "2 * (i div 2) = i" "\<not> i + 1 < length hs"
        using promoted "1.prems"(3,4) by (auto simp: sat_sub_def) presburger+
      ultimately show ?thesis
        using nth by simp
    next
      case paired: False
      then obtain sib path' where path: "path = sib # path'"
        using "1.prems"(2) True by (subst (asm) incl_loop_unfold) (auto split: list.splits)
      let ?l = "if i mod 2 = 0 then cur else sib" and ?r = "if i mod 2 = 0 then sib else cur"
      have cur': "(if i mod 2 = 0 then ?f cur sib else ?f sib cur) = ?f ?l ?r"
        by simp
      have loop: "incl_loop sha (i div 2) ((n + 1) mod 2 ^ 64 div 2) path'
          (if i mod 2 = 0 then ?f cur sib else ?f sib cur) = Ok (mroot ?f ?hs, rest)"
        using "1.prems"(2) True paired path by (subst (asm) incl_loop_unfold) (auto simp: root)
      have pairs: "incl_pairs sha i n path cur = (?l, ?r) # incl_pairs sha (i div 2) (length ?hs) path' (?f ?l ?r)"
        using True paired half' path by (subst incl_pairs.simps) (auto simp: sat_sub_def)
      then have "?hs ! (i div 2) = ?f ?l ?r"
        using "1.IH"(2) [OF True paired path "1.prems"(1) loop] half sub "1.prems"(7) by (simp add: cur')
      moreover have in_range: "2 * (i div 2) + 1 < length hs"
        using paired "1.prems"(3,4) True by (auto simp: sat_sub_def) presburger
      ultimately have "?f (hs ! (2 * (i div 2))) (hs ! (2 * (i div 2) + 1)) = ?f ?l ?r"
        using nth by simp
      then have "hs ! (2 * (i div 2)) = ?l \<and> hs ! (2 * (i div 2) + 1) = ?r"
        by (rule inj_pair [OF "1.prems"(1)]) (use level_pairs_nth [OF in_range] lvl pairs "1.prems"(7) in auto)
      then show ?thesis
        by (cases "i mod 2 = 0") (auto simp: minus_mod_eq_mult_div [symmetric])
    qed
  qed
qed

subsection \<open>Soundness of consistency proofs\<close>

fun last_pairs :: "(bytes \<Rightarrow> bytes) \<Rightarrow> bytes list \<Rightarrow> nat \<Rightarrow> bytes \<Rightarrow> (bytes \<times> bytes) list" where
  "last_pairs sha path last_node new_hash =
     (if last_node = 0 then []
      else
        (case path of
           [] \<Rightarrow> []
         | sib # rest \<Rightarrow>
             (new_hash, sib) # last_pairs sha rest (last_node div 2) (log_hash_internal sha new_hash sib)))"

declare last_pairs.simps [simp del]

fun cons_pairs ::
  "(bytes \<Rightarrow> bytes) \<Rightarrow> bytes list \<Rightarrow> nat \<Rightarrow> nat \<Rightarrow> bytes \<Rightarrow> bytes \<Rightarrow> (bytes \<times> bytes) list" where
  "cons_pairs sha path node last_node old_hash new_hash =
     (if node = 0 then last_pairs sha path last_node new_hash
      else if node mod 2 = 1 then
        (case path of
           [] \<Rightarrow> []
         | sib # rest \<Rightarrow>
             (sib, old_hash) # (sib, new_hash) #
             cons_pairs sha rest (node div 2) (last_node div 2)
               (log_hash_internal sha sib old_hash) (log_hash_internal sha sib new_hash))
      else if node < last_node then
        (case path of
           [] \<Rightarrow> []
         | sib # rest \<Rightarrow>
             (new_hash, sib) #
             cons_pairs sha rest (node div 2) (last_node div 2) old_hash (log_hash_internal sha new_hash sib))
      else cons_pairs sha path (node div 2) (last_node div 2) old_hash new_hash)"

declare cons_pairs.simps [simp del]

text \<open>One level up: lengths, roots and hashed pairs of a level of \<open>Suc n\<close> nodes.\<close>

lemma level_up:
  assumes "length xs = Suc n" "0 < n" "set (tree_pairs f xs) \<subseteq> P"
  shows "length (pair_level f xs) = Suc (n div 2)" "mroot f xs = mroot f (pair_level f xs)"
    "set (tree_pairs f (pair_level f xs)) \<subseteq> P" "set (level_pairs xs) \<subseteq> P"
proof -
  show "length (pair_level f xs) = Suc (n div 2)"
    using assms(1) by (simp add: level_simps)
  show "mroot f xs = mroot f (pair_level f xs)"
    using assms(1,2) by (intro mroot_step) simp
  show "set (tree_pairs f (pair_level f xs)) \<subseteq> P" "set (level_pairs xs) \<subseteq> P"
    using tree_pairs_up [of f xs] tree_pairs_level [of xs f] assms(3) by auto
qed

lemma pair_nth_inj:
  assumes "inj_on (\<lambda>(l, r). f l r) P" "set (level_pairs xs) \<subseteq> P" "2 * i + 1 < length xs"
    and "pair_level f xs ! i = f a b" "(a, b) \<in> P"
  shows "xs ! (2 * i) = a \<and> xs ! (2 * i + 1) = b"
proof (rule inj_pair [OF assms(1)])
  have "i < length (pair_level f xs)"
    using assms(3) by (simp add: level_simps)
  from nth_pair_level [OF this] show "f (xs ! (2 * i)) (xs ! (2 * i + 1)) = f a b"
    using assms(3,4) by simp
qed (use level_pairs_nth [OF assms(3)] assms(2,5) in auto)

lemma last_loop_sound:
  assumes "inj_on (\<lambda>(l, r). log_hash_internal sha l r) P"
    and "last_loop sha path last_node nh = Ok (mroot (log_hash_internal sha) ys, rest)"
    and "length ys = Suc last_node" "set (tree_pairs (log_hash_internal sha) ys) \<subseteq> P"
    and "set (last_pairs sha path last_node nh) \<subseteq> P"
  shows "ys ! 0 = nh"
  using assms
proof (induction sha path last_node nh arbitrary: ys rule: last_loop.induct)
  case (1 sha path last_node nh)
  let ?f = "log_hash_internal sha"
  show ?case
  proof (cases "last_node = 0")
    case True
    with "1.prems"(2,3) show ?thesis
      by (cases ys) (auto simp: last_loop.simps)
  next
    case False
    then obtain sib path' where path: "path = sib # path'"
      using "1.prems"(2) by (subst (asm) last_loop.simps) (auto split: list.splits)
    note up = level_up [OF "1.prems"(3) _ "1.prems"(4)]
    have "pair_level ?f ys ! 0 = ?f nh sib"
    proof (rule "1.IH" [OF False path "1.prems"(1)])
      show "last_loop sha path' (last_node div 2) (?f nh sib) = Ok (mroot ?f (pair_level ?f ys), rest)"
        using "1.prems"(2) False path up(2) by (subst (asm) last_loop.simps) simp
      show "set (last_pairs sha path' (last_node div 2) (?f nh sib)) \<subseteq> P"
        using "1.prems"(5) False path by (subst (asm) last_pairs.simps) simp
    qed (use up False in auto)
    moreover have "(nh, sib) \<in> P"
      using "1.prems"(5) False path by (subst (asm) last_pairs.simps) simp
    ultimately show ?thesis
      using pair_nth_inj [OF "1.prems"(1) up(4), of 0 nh sib] False "1.prems"(3) by simp
  qed
qed

text \<open>
  \<open>agree xs ys node oh nh\<close>: the old level \<open>xs\<close> and the new level \<open>ys\<close> have the same first
  \<open>node\<close> hashes, and \<open>oh\<close> and \<open>nh\<close> at that index. The three cases of the loop carry it one level
  down.
\<close>

definition agree :: "'h list \<Rightarrow> 'h list \<Rightarrow> nat \<Rightarrow> 'h \<Rightarrow> 'h \<Rightarrow> bool" where
  "agree xs ys node oh nh \<longleftrightarrow> xs ! node = oh \<and> ys ! node = nh \<and> take node xs = take node ys"

lemma agree_odd:
  assumes inj: "inj_on (\<lambda>(l, r). f l r) P"
    and xs: "set (level_pairs xs) \<subseteq> P" "node < length xs"
    and ys: "set (level_pairs ys) \<subseteq> P" "node < length ys"
    and odd: "node mod 2 = 1" and prs: "(sib, oh) \<in> P" "(sib, nh) \<in> P"
    and up: "agree (pair_level f xs) (pair_level f ys) (node div 2) (f sib oh) (f sib nh)"
  shows "agree xs ys node oh nh"
proof -
  let ?k = "node div 2"
  from odd have node: "node = 2 * ?k + 1" by presburger
  from up have x: "xs ! (2 * ?k) = sib \<and> xs ! (2 * ?k + 1) = oh"
    unfolding agree_def by (intro pair_nth_inj [OF inj xs(1) _ _ prs(1)]) (use xs(2) node in auto)
  from up have y: "ys ! (2 * ?k) = sib \<and> ys ! (2 * ?k + 1) = nh"
    unfolding agree_def by (intro pair_nth_inj [OF inj ys(1) _ _ prs(2)]) (use ys(2) node in auto)
  have "take (2 * ?k) xs = take (2 * ?k) ys"
    by (rule pair_level_take_eq [OF inj xs(1) _ ys(1)]) (use up xs(2) ys(2) node in \<open>auto simp: agree_def\<close>)
  with x y xs(2) ys(2) have "take (Suc (2 * ?k)) xs = take (Suc (2 * ?k)) ys"
    by (subst (1 2) take_Suc_conv_app_nth) auto
  with x y show ?thesis
    unfolding agree_def by (subst (1 2 3 4) node) simp
qed

lemma agree_even:
  assumes inj: "inj_on (\<lambda>(l, r). f l r) P"
    and xs: "set (level_pairs xs) \<subseteq> P" "length xs = Suc node"
    and ys: "set (level_pairs ys) \<subseteq> P" "node < length ys"
    and even: "node mod 2 = 0"
    and up: "agree (pair_level f xs) (pair_level f ys) (node div 2) oh v"
    and v: "Suc node < length ys \<Longrightarrow> v = f nh sib \<and> (nh, sib) \<in> P" "length ys = Suc node \<Longrightarrow> v = nh"
  shows "agree xs ys node oh nh"
proof -
  let ?k = "node div 2"
  from even have node: "node = 2 * ?k" by presburger
  then have k: "?k < length (pair_level f xs)" "?k < length (pair_level f ys)"
    using xs(2) ys(2) by (simp_all add: level_simps)
  have "xs ! (2 * ?k) = oh"
    using up nth_pair_level [OF k(1)] xs(2) node by (simp add: agree_def)
  moreover have "ys ! (2 * ?k) = nh"
  proof (cases "Suc node < length ys")
    case True
    then show ?thesis
      using pair_nth_inj [OF inj ys(1), of ?k nh sib] up v(1) node by (simp add: agree_def)
  next
    case False
    then show ?thesis
      using nth_pair_level [OF k(2)] up v(2) ys(2) node by (simp add: agree_def)
  qed
  moreover have "take (2 * ?k) xs = take (2 * ?k) ys"
    by (rule pair_level_take_eq [OF inj xs(1) _ ys(1)]) (use up xs(2) ys(2) node in \<open>auto simp: agree_def\<close>)
  ultimately show ?thesis
    unfolding agree_def by (subst (1 2 3 4) node) simp
qed

lemma cons_loop_sound:
  assumes "inj_on (\<lambda>(l, r). log_hash_internal sha l r) P"
    and "cons_loop sha path node last_node oh nh =
           Ok (mroot (log_hash_internal sha) xs, mroot (log_hash_internal sha) ys, rest)"
    and "length xs = Suc node" "length ys = Suc last_node" "node \<le> last_node"
    and "set (tree_pairs (log_hash_internal sha) xs) \<subseteq> P" "set (tree_pairs (log_hash_internal sha) ys) \<subseteq> P"
    and "set (cons_pairs sha path node last_node oh nh) \<subseteq> P"
  shows "agree xs ys node oh nh"
  using assms
proof (induction sha path node last_node oh nh arbitrary: xs ys rule: cons_loop.induct)
  case (1 sha path node last_node oh nh)
  let ?f = "log_hash_internal sha"
  note inj = "1.prems"(1) and loop = "1.prems"(2) and len = "1.prems"(3-5) and prs = "1.prems"(8)
  show ?case
  proof (cases "node = 0")
    case True
    with loop len(1) have "oh = xs ! 0" "last_loop sha path last_node nh = Ok (mroot ?f ys, rest)"
      by (auto simp: cons_loop.simps result_simps length_Suc_conv)
    then show ?thesis
      using last_loop_sound [OF inj _ len(2) "1.prems"(7)] prs True
      by (simp add: agree_def cons_pairs.simps)
  next
    case False
    with len(3) have pos: "0 < node" "0 < last_node" by auto
    note xs = level_up [OF len(1) pos(1) "1.prems"(6)] and ys = level_up [OF len(2) pos(2) "1.prems"(7)]
    have le: "node div 2 \<le> last_node div 2" and lt: "node < length xs" "node < length ys"
      using len by (auto simp: div_le_mono)
    consider (odd) "node mod 2 = 1" | (less) "node mod 2 = 0" "node < last_node" | (eq) "node mod 2 = 0" "\<not> node < last_node"
      using len(3) by linarith
    then show ?thesis
    proof cases
      case odd
      then obtain sib path' where path: "path = sib # path'"
        using loop False by (subst (asm) cons_loop.simps) (auto split: list.splits)
      have "agree (pair_level ?f xs) (pair_level ?f ys) (node div 2) (?f sib oh) (?f sib nh)"
        using loop prs False odd path le
        by (intro "1.IH"(1) [OF False odd path inj]) (simp_all add: xs ys cons_loop.simps [of _ _ node] cons_pairs.simps [of _ _ node])
      then show ?thesis
        by (rule agree_odd [OF inj xs(4) lt(1) ys(4) lt(2) odd, rotated 2])
          (use prs False odd path in \<open>auto simp: cons_pairs.simps [of _ _ node]\<close>)
    next
      case less
      then obtain sib path' where path: "path = sib # path'"
        using loop False by (subst (asm) cons_loop.simps) (auto split: list.splits)
      have "agree (pair_level ?f xs) (pair_level ?f ys) (node div 2) oh (?f nh sib)"
        using loop prs False less path le
        by (intro "1.IH"(2) [OF False _ _ path inj]) (simp_all add: xs ys cons_loop.simps [of _ _ node] cons_pairs.simps [of _ _ node])
      then show ?thesis
        by (rule agree_even [OF inj xs(4) len(1) ys(4) lt(2) less(1)])
          (use prs False less path len in \<open>auto simp: cons_pairs.simps [of _ _ node]\<close>)
    next
      case eq
      have "agree (pair_level ?f xs) (pair_level ?f ys) (node div 2) oh nh"
        using loop prs False eq le
        by (intro "1.IH"(3) [OF False _ _ inj]) (simp_all add: xs ys cons_loop.simps [of _ _ node] cons_pairs.simps [of _ _ node])
      then show ?thesis
        by (rule agree_even [OF inj xs(4) len(1) ys(4) lt(2) eq(1)]) (use eq len in auto)
    qed
  qed
qed

lemma strip_odd_sound:
  assumes "inj_on (\<lambda>(l, r). f l r) P" "strip_odd node last_node = (n, l)"
    and "length xs = Suc node" "length ys = Suc last_node" "node \<le> last_node"
    and "set (tree_pairs f xs) \<subseteq> P" "set (tree_pairs f ys) \<subseteq> P"
    and "\<And>us vs. length us = Suc n \<Longrightarrow> length vs = Suc l \<Longrightarrow> n \<le> l \<Longrightarrow>
           mroot f us = mroot f xs \<Longrightarrow> mroot f vs = mroot f ys \<Longrightarrow>
           set (tree_pairs f us) \<subseteq> P \<Longrightarrow> set (tree_pairs f vs) \<subseteq> P \<Longrightarrow> take (Suc n) us = take (Suc n) vs"
  shows "take (Suc node) xs = take (Suc node) ys"
  using assms
proof (induction node last_node arbitrary: xs ys rule: strip_odd.induct)
  case (1 node last_node)
  show ?case
  proof (cases "node mod 2 = 1")
    case False
    with "1.prems"(2) have "n = node" "l = last_node"
      by (simp_all add: strip_odd.simps)
    then show ?thesis
      using "1.prems"(8) [of xs ys] "1.prems"(3-7) by simp
  next
    case True
    then have pos: "0 < node" "0 < last_node" and suc: "Suc node = 2 * Suc (node div 2)"
      using "1.prems"(5) by (auto, presburger)
    note xs = level_up [OF "1.prems"(3) pos(1) "1.prems"(6)]
    note ys = level_up [OF "1.prems"(4) pos(2) "1.prems"(7)]
    have "take (Suc (node div 2)) (pair_level f xs) = take (Suc (node div 2)) (pair_level f ys)"
    proof (rule "1.IH" [OF True "1.prems"(1)])
      show "strip_odd (node div 2) (last_node div 2) = (n, l)"
        using "1.prems"(2) True by (subst (asm) strip_odd.simps) simp
    qed (use "1.prems"(5,8) in \<open>simp_all add: xs ys div_le_mono\<close>)
    then show ?thesis
      unfolding suc
      by (intro pair_level_take_eq [OF "1.prems"(1) xs(4) _ ys(4)]) (use "1.prems"(3-5) suc in auto)
  qed
qed

text \<open>The hashed pairs of a whole verification, and their messages.\<close>

definition consistency_pairs :: "log_env \<Rightarrow> consistency_proof \<Rightarrow> (bytes \<times> bytes) list" where
  "consistency_pairs env p =
     (case strip_odd (unat (cp_old_size p) - 1) (unat (cp_new_size p) - 1) of
        (node, last_node) \<Rightarrow>
          if node \<noteq> 0
          then case cp_proof_path p of
                 [] \<Rightarrow> []
               | sib # rest \<Rightarrow> cons_pairs (env_sha env) rest node last_node sib sib
          else cons_pairs (env_sha env) (cp_proof_path p) node last_node (cp_old_root p) (cp_old_root p))"

lemma consistency_verify_sound:
  fixes sha xs ys
  defines "f \<equiv> log_hash_internal sha"
  assumes sha: "env_sha env = sha"
    and ok: "consistency_verify env p = Ok True"
    and sizes: "unat (cp_old_size p) = length xs" "unat (cp_new_size p) = length ys" "xs \<noteq> []"
    and roots: "cp_old_root p = mroot f xs" "cp_new_root p = mroot f ys"
    and inj: "inj_on (\<lambda>(l, r). f l r) P"
    and pairs: "set (tree_pairs f xs) \<subseteq> P" "set (tree_pairs f ys) \<subseteq> P" "set (consistency_pairs env p) \<subseteq> P"
  shows "length xs \<le> length ys \<and> xs = take (length xs) ys"
proof (cases "cp_old_size p = cp_new_size p")
  case True
  with ok have "cp_old_root p = cp_new_root p"
    by (simp add: consistency_verify_def)
  then show ?thesis
    using mroot_binding [OF inj pairs(1,2)] True sizes roots by simp
next
  case False
  with ok have lt: "cp_old_size p < cp_new_size p"
    by (auto simp: consistency_verify_def split: if_splits)
  then have le: "length xs < length ys"
    using sizes by (simp add: word_less_nat_alt)
  have pos: "cp_old_size p \<noteq> 0"
    using sizes by (metis length_0_conv unat_0)
  obtain node last_node where strip: "strip_odd (length xs - 1) (length ys - 1) = (node, last_node)"
    by (cases "strip_odd (length xs - 1) (length ys - 1)") auto
  obtain start path where start: "cons_loop sha path node last_node start start = Ok (mroot f xs, mroot f ys, [])"
      "set (cons_pairs sha path node last_node start start) \<subseteq> P"
    using ok pairs(3) lt pos strip sizes roots
    by (auto simp: consistency_verify_def consistency_pairs_def sha result_simps split: if_splits list.splits)
  have "take (Suc (length xs - 1)) xs = take (Suc (length xs - 1)) ys"
  proof (rule strip_odd_sound [OF inj strip])
    fix us vs
    assume us: "length us = Suc node" "length vs = Suc last_node" "node \<le> last_node"
      "mroot f us = mroot f xs" "mroot f vs = mroot f ys"
      "set (tree_pairs f us) \<subseteq> P" "set (tree_pairs f vs) \<subseteq> P"
    then have "agree us vs node start start"
      using cons_loop_sound [of sha P path node last_node start start us vs "[]"] inj start by (simp add: f_def)
    then show "take (Suc node) us = take (Suc node) vs"
      using us(1-3) take_Suc_conv_app_nth [of node us] take_Suc_conv_app_nth [of node vs]
      by (simp add: agree_def)
  qed (use sizes(3) le pairs in auto)
  then show ?thesis
    using sizes(3) le by simp
qed

subsection \<open>Honest proofs are accepted\<close>

lemma take_pair_level: "2 * k \<le> length xs \<Longrightarrow> take k (pair_level f xs) = pair_level f (take (2 * k) xs)"
proof (induction f xs arbitrary: k rule: pair_level.induct)
  case (1 f a b xs)
  then show ?case by (cases k) auto
next
  case (2 f a)
  then show ?case by (cases k) auto
qed auto

lemma pair_level_lengths:
  "sha256_len sha \<Longrightarrow> \<forall>h \<in> set xs. length h = 32 \<Longrightarrow>
   \<forall>h \<in> set (pair_level (log_hash_internal sha) xs). length h = 32"
  using set_pair_level [of "log_hash_internal sha" xs] by (fastforce simp: log_hash_internal_def sha256_len_def)

lemma incl_loop_complete:
  assumes "sha256_len sha" "i < length hs" "length hs < 2 ^ 64 - 1" "\<forall>h \<in> set hs. length h = 32"
  shows "\<exists>path. list_all (\<lambda>h. length h = 32) path \<and>
    incl_loop sha i (length hs) path (hs ! i) = Ok (mroot (log_hash_internal sha) hs, [])"
  using assms
proof (induction "length hs" arbitrary: i hs rule: less_induct)
  case less
  let ?f = "log_hash_internal sha"
  let ?hs = "pair_level ?f hs"
  show ?case
  proof (cases "1 < length hs")
    case False
    with less.prems(2) obtain h where "hs = [h]" "i = 0"
      by (cases hs) auto
    then show ?thesis
      by (intro exI [of _ "[]"]) (simp add: incl_loop_unfold)
  next
    case True
    then have half: "length ?hs < length hs" "i div 2 < length ?hs" "length ?hs < 2 ^ 64 - 1"
        "(length hs + 1) mod 2 ^ 64 div 2 = length ?hs"
      using less.prems(2,3) by (simp_all add: level_simps)
    obtain path where path: "list_all (\<lambda>h. length h = 32) path"
        "incl_loop sha (i div 2) (length ?hs) path (?hs ! (i div 2)) = Ok (mroot ?f ?hs, [])"
      using less.hyps [OF half(1) less.prems(1) half(2,3) pair_level_lengths] less.prems(1,4) by blast
    note nth = nth_pair_level [OF half(2)]
    show ?thesis
    proof (cases "i = sat_sub (length hs) 1 \<and> length hs mod 2 = 1")
      case promoted: True
      then have "2 * (i div 2) = i" "\<not> i + 1 < length hs"
        by (auto simp: sat_sub_def) presburger+
      then show ?thesis
        using path nth promoted True half(4) mroot_step [OF True, of ?f]
        by (intro exI [of _ path]) (subst incl_loop_unfold, simp)
    next
      case paired: False
      then have rng: "2 * (i div 2) + 1 < length hs"
        using less.prems(2) True by (auto simp: sat_sub_def) presburger
      define sib where "sib = (if i mod 2 = 0 then hs ! (i + 1) else hs ! (i - 1))"
      have "i mod 2 = 0 \<Longrightarrow> 2 * (i div 2) = i" "i mod 2 \<noteq> 0 \<Longrightarrow> 2 * (i div 2) = i - 1 \<and> i - 1 + 1 = i"
        by presburger+
      then have cur: "(if i mod 2 = 0 then ?f (hs ! i) sib else ?f sib (hs ! i)) = ?hs ! (i div 2)"
        using nth rng by (auto simp: sib_def)
      have "length sib = 32"
        using less.prems(2,4) rng by (auto simp: sib_def)
      then show ?thesis
        using path paired True half(4) mroot_step [OF True, of ?f] cur
        by (intro exI [of _ "sib # path"]) (subst incl_loop_unfold, auto)
    qed
  qed
qed

lemma last_loop_complete:
  assumes "sha256_len sha" "length ys = Suc last_node" "\<forall>h \<in> set ys. length h = 32"
  shows "\<exists>path. list_all (\<lambda>h. length h = 32) path \<and>
    last_loop sha path last_node (ys ! 0) = Ok (mroot (log_hash_internal sha) ys, [])"
  using assms
proof (induction last_node arbitrary: ys rule: less_induct)
  case (less last_node)
  let ?f = "log_hash_internal sha"
  show ?case
  proof (cases "last_node = 0")
    case True
    with less.prems(2) show ?thesis
      by (intro exI [of _ "[]"]) (auto simp: last_loop.simps length_Suc_conv)
  next
    case False
    then have up: "length (pair_level ?f ys) = Suc (last_node div 2)" "last_node div 2 < last_node"
        "mroot ?f ys = mroot ?f (pair_level ?f ys)"
      using level_up [OF less.prems(2), of ?f UNIV] by auto
    obtain path where path: "list_all (\<lambda>h. length h = 32) path"
        "last_loop sha path (last_node div 2) (pair_level ?f ys ! 0) = Ok (mroot ?f (pair_level ?f ys), [])"
      using less.IH [OF up(2) less.prems(1) up(1) pair_level_lengths] less.prems(1,3) by blast
    moreover have "pair_level ?f ys ! 0 = ?f (ys ! 0) (ys ! 1)" "length (ys ! 1) = 32"
      using nth_pair_level [of 0 ?f ys] up(1) less.prems(2,3) False by simp_all
    ultimately show ?thesis
      using False up(3) by (intro exI [of _ "ys ! 1 # path"]) (subst last_loop.simps, simp)
  qed
qed

text \<open>One level of an honest consistency proof: the hash at \<open>node div 2\<close> one level up.\<close>

lemma pair_level_at:
  "k < length (pair_level f xs) \<Longrightarrow> 2 * k = node \<Longrightarrow> Suc node < length xs \<Longrightarrow>
     pair_level f xs ! k = f (xs ! node) (xs ! Suc node)"
  "k < length (pair_level f xs) \<Longrightarrow> 2 * k = node \<Longrightarrow> \<not> Suc node < length xs \<Longrightarrow> pair_level f xs ! k = xs ! node"
  "k < length (pair_level f xs) \<Longrightarrow> 2 * k + 1 = node \<Longrightarrow> node < length xs \<Longrightarrow>
     pair_level f xs ! k = f (xs ! (node - 1)) (xs ! node)"
  by (auto simp: nth_pair_level)

lemma cons_loop_complete:
  assumes "sha256_len sha" "length xs = Suc node" "length ys = Suc last_node" "node \<le> last_node"
    and "take node xs = take node ys" "\<forall>h \<in> set xs. length h = 32" "\<forall>h \<in> set ys. length h = 32"
  shows "\<exists>path. list_all (\<lambda>h. length h = 32) path \<and>
    cons_loop sha path node last_node (xs ! node) (ys ! node) =
      Ok (mroot (log_hash_internal sha) xs, mroot (log_hash_internal sha) ys, [])"
  using assms
proof (induction node arbitrary: last_node xs ys rule: less_induct)
  case (less node)
  let ?f = "log_hash_internal sha"
  let ?xs = "pair_level ?f xs" and ?ys = "pair_level ?f ys" and ?k = "node div 2"
  show ?case
  proof (cases "node = 0")
    case True
    obtain path where "list_all (\<lambda>h. length h = 32) path" "last_loop sha path last_node (ys ! 0) = Ok (mroot ?f ys, [])"
      using last_loop_complete [OF less.prems(1,3,7)] by blast
    then show ?thesis
      using True less.prems(2) by (intro exI [of _ path]) (auto simp: cons_loop.simps length_Suc_conv)
  next
    case False
    then have up: "length ?xs = Suc ?k" "mroot ?f xs = mroot ?f ?xs"
        "length ?ys = Suc (last_node div 2)" "mroot ?f ys = mroot ?f ?ys" "?k < node" "?k \<le> last_node div 2"
      using level_up [OF less.prems(2), of ?f UNIV] level_up [OF less.prems(3), of ?f UNIV] less.prems(4)
      by (auto simp: div_le_mono)
    then have k: "?k < length ?xs" "?k < length ?ys" by auto
    have "2 * ?k \<le> node" by simp
    then have "take (2 * ?k) xs = take (2 * ?k) ys"
      using less.prems(5) by (metis min.absorb1 take_take)
    then have "take ?k ?xs = take ?k ?ys"
      using less.prems(2-4) by (simp add: take_pair_level)
    then obtain path where path: "list_all (\<lambda>h. length h = 32) path"
        "cons_loop sha path ?k (last_node div 2) (?xs ! ?k) (?ys ! ?k) = Ok (mroot ?f ?xs, mroot ?f ?ys, [])"
      using less.IH [OF up(5) less.prems(1) up(1,3,6) _ pair_level_lengths pair_level_lengths] less.prems(1,6,7)
      by blast
    have parity: "node mod 2 = 1 \<Longrightarrow> 2 * ?k + 1 = node" "node mod 2 \<noteq> 1 \<Longrightarrow> 2 * ?k = node"
      by presburger+
    consider (odd) "node mod 2 = 1" "2 * ?k + 1 = node" | (less) "node mod 2 \<noteq> 1" "2 * ?k = node" "node < last_node"
      | (eq) "node mod 2 \<noteq> 1" "2 * ?k = node" "\<not> node < last_node"
      using parity by blast
    then show ?thesis
    proof cases
      case odd
      have "xs ! (node - 1) = ys ! (node - 1)"
        using less.prems(5) False by (metis diff_less nth_take zero_less_one bot_nat_0.not_eq_extremum)
      moreover have "?xs ! ?k = ?f (xs ! (node - 1)) (xs ! node)" "?ys ! ?k = ?f (ys ! (node - 1)) (ys ! node)"
        using pair_level_at(3) [OF k(1) odd(2)] pair_level_at(3) [OF k(2) odd(2)] less.prems(2-4) by auto
      moreover have "length (xs ! (node - 1)) = 32"
        using less.prems(2,6) by simp
      ultimately show ?thesis
        using path odd False up(2,4)
        by (intro exI [of _ "xs ! (node - 1) # path"]) (subst cons_loop.simps, simp)
    next
      case less': less
      have "?xs ! ?k = xs ! node" "?ys ! ?k = ?f (ys ! node) (ys ! Suc node)" "length (ys ! Suc node) = 32"
        using pair_level_at(2) [OF k(1) less'(2)] pair_level_at(1) [OF k(2) less'(2)] less'(3) less.prems(2,3,7) by auto
      then show ?thesis
        using path less' False up(2,4)
        by (intro exI [of _ "ys ! Suc node # path"]) (subst cons_loop.simps, simp)
    next
      case eq
      have "?xs ! ?k = xs ! node" "?ys ! ?k = ys ! node"
        using pair_level_at(2) [OF k(1) eq(2)] pair_level_at(2) [OF k(2) eq(2)] eq(3) less.prems(2-4) by auto
      then show ?thesis
        using path eq False up(2,4) by (intro exI [of _ path]) (subst cons_loop.simps, simp)
    qed
  qed
qed

lemma strip_odd_levels:
  assumes "sha256_len sha" "strip_odd node last_node = (n, l)"
    and "length xs = Suc node" "length ys = Suc last_node" "node \<le> last_node"
    and "take (Suc node) xs = take (Suc node) ys" "\<forall>h \<in> set xs. length h = 32" "\<forall>h \<in> set ys. length h = 32"
  shows "\<exists>us vs. length us = Suc n \<and> length vs = Suc l \<and> n \<le> l \<and> take (Suc n) us = take (Suc n) vs \<and>
    mroot (log_hash_internal sha) us = mroot (log_hash_internal sha) xs \<and>
    mroot (log_hash_internal sha) vs = mroot (log_hash_internal sha) ys \<and>
    (\<forall>h \<in> set us. length h = 32) \<and> (\<forall>h \<in> set vs. length h = 32)"
  using assms
proof (induction node last_node arbitrary: xs ys rule: strip_odd.induct)
  case (1 node last_node)
  let ?f = "log_hash_internal sha"
  show ?case
  proof (cases "node mod 2 = 1")
    case False
    with "1.prems"(2) have "n = node" "l = last_node"
      by (simp_all add: strip_odd.simps)
    then show ?thesis
      using "1.prems"(3-8) by blast
  next
    case True
    then have pos: "0 < node" "0 < last_node" and suc: "Suc node = 2 * Suc (node div 2)"
      using "1.prems"(5) by (auto, presburger)
    note xs = level_up [OF "1.prems"(3) pos(1), of ?f UNIV] and ys = level_up [OF "1.prems"(4) pos(2), of ?f UNIV]
    have "strip_odd (node div 2) (last_node div 2) = (n, l)"
      using "1.prems"(2) True by (subst (asm) strip_odd.simps) simp
    moreover have "take (Suc (node div 2)) (pair_level ?f xs) = take (Suc (node div 2)) (pair_level ?f ys)"
      using "1.prems"(3-6) suc by (simp add: take_pair_level)
    ultimately show ?thesis
      using "1.IH" [OF True "1.prems"(1), of "pair_level ?f xs" "pair_level ?f ys"]
        pair_level_lengths [OF "1.prems"(1)] "1.prems"(5,7,8) xs(1,2) ys(1,2)
      by (simp add: div_le_mono)
  qed
qed

subsection \<open>Logs of entries\<close>

definition log_leaves :: "log_env \<Rightarrow> transparency_entry list \<Rightarrow> bytes list" where
  "log_leaves env es = map (entry_hash env) es"

definition log_root :: "log_env \<Rightarrow> transparency_entry list \<Rightarrow> bytes" where
  "log_root env es = mth (log_hash_internal (env_sha env)) (log_leaves env es)"

definition pair_msg :: "bytes \<times> bytes \<Rightarrow> bytes" where
  "pair_msg pr = fst pr @ snd pr"

definition log_msgs :: "log_env \<Rightarrow> transparency_entry list \<Rightarrow> bytes list" where
  "log_msgs env es =
     map (json_entry env) es @
     map pair_msg (tree_pairs (log_hash_internal (env_sha env)) (log_leaves env es))"

definition inclusion_pairs :: "log_env \<Rightarrow> log_inclusion_proof \<Rightarrow> (bytes \<times> bytes) list" where
  "inclusion_pairs env p =
     incl_pairs (env_sha env) (unat (ip_leaf_index p)) (unat (ip_log_size p)) (ip_proof_path p)
       (entry_hash env (ip_entry p))"

definition inclusion_msgs :: "log_env \<Rightarrow> log_inclusion_proof \<Rightarrow> bytes list" where
  "inclusion_msgs env p = json_entry env (ip_entry p) # map pair_msg (inclusion_pairs env p)"

definition consistency_msgs :: "log_env \<Rightarrow> consistency_proof \<Rightarrow> bytes list" where
  "consistency_msgs env p = map pair_msg (consistency_pairs env p)"

lemma inj_on_pairs:
  assumes "inj_on sha (pair_msg ` P)" "P \<subseteq> {l. length l = 32} \<times> UNIV"
  shows "inj_on (\<lambda>(l, r). log_hash_internal sha l r) P"
proof (rule inj_onI, clarify)
  fix l r l' r'
  assume pq: "(l, r) \<in> P" "(l', r') \<in> P" "log_hash_internal sha l r = log_hash_internal sha l' r'"
  then have "sha (pair_msg (l, r)) = sha (pair_msg (l', r'))"
    by (simp add: log_hash_internal_def pair_msg_def)
  then have "pair_msg (l, r) = pair_msg (l', r')"
    by (rule inj_onD [OF assms(1) _ imageI imageI]) (rule pq)+
  moreover have "length l = length l'"
    using subsetD [OF assms(2) pq(1)] subsetD [OF assms(2) pq(2)] by simp
  ultimately show "l = l' \<and> r = r'"
    by (simp add: pair_msg_def)
qed

lemma tree_len32:
  assumes "sha256_len sha" "\<forall>h \<in> set hs. length h = 32" "hs \<noteq> []"
  shows "length (mroot (log_hash_internal sha) hs) = 32 \<and>
    set (tree_pairs (log_hash_internal sha) hs) \<subseteq> {l. length l = 32} \<times> {l. length l = 32}"
proof -
  have "set hs \<subseteq> {l. length l = 32}"
    using assms(2) by auto
  moreover have "(\<lambda>(l, r). log_hash_internal sha l r) ` set (tree_pairs (log_hash_internal sha) hs) \<subseteq> {l. length l = 32}"
    using assms(1) by (auto simp: sha256_len_def log_hash_internal_def)
  ultimately show ?thesis
    using tree_values [of hs "{l. length l = 32}" "log_hash_internal sha"] assms(3) by simp
qed

lemma length_log_hash: "sha256_len sha \<Longrightarrow> length (log_hash_internal sha l r) = 32"
  by (simp add: sha256_len_def log_hash_internal_def)

lemma incl_pairs_len32:
  assumes "sha256_len sha" "list_all (\<lambda>h. length h = 32) path" "length cur = 32"
  shows "list_all (\<lambda>pr. length (fst pr) = 32) (incl_pairs sha i n path cur)"
  using assms(2,3)
proof (induction n arbitrary: i path cur rule: less_induct)
  case (less n)
  show ?case
    by (cases path; subst incl_pairs.simps; use less in \<open>simp add: length_log_hash [OF assms(1)]\<close>)
qed

lemma last_pairs_len32:
  assumes "sha256_len sha" "list_all (\<lambda>h. length h = 32) path" "length nh = 32"
  shows "list_all (\<lambda>pr. length (fst pr) = 32) (last_pairs sha path last_node nh)"
  using assms(2,3)
proof (induction last_node arbitrary: path nh rule: less_induct)
  case (less last_node)
  show ?case
    by (cases path; subst last_pairs.simps; use less in \<open>simp add: length_log_hash [OF assms(1)]\<close>)
qed

lemma cons_pairs_len32:
  assumes "sha256_len sha" "list_all (\<lambda>h. length h = 32) path" "length oh = 32" "length nh = 32"
  shows "list_all (\<lambda>pr. length (fst pr) = 32) (cons_pairs sha path node last_node oh nh)"
  using assms(2-)
proof (induction node arbitrary: path last_node oh nh rule: less_induct)
  case (less node)
  show ?case
    by (cases path; subst cons_pairs.simps;
        use less last_pairs_len32 [OF assms(1)] in \<open>simp add: length_log_hash [OF assms(1)]\<close>)
qed

lemma consistency_pairs_len32:
  assumes "sha256_len (env_sha env)" "list_all (\<lambda>h. length h = 32) (cp_proof_path p)" "length (cp_old_root p) = 32"
  shows "list_all (\<lambda>pr. length (fst pr) = 32) (consistency_pairs env p)"
  using cons_pairs_len32 [OF assms(1)] assms(2,3)
  by (cases "cp_proof_path p") (simp_all add: consistency_pairs_def split: prod.split)

lemma log_leaves_len32: "sha256_len (env_sha env) \<Longrightarrow> \<forall>h \<in> set (log_leaves env es). length h = 32"
  by (simp add: log_leaves_def entry_hash_def sha256_len_def)

lemma log_root_mroot: "es \<noteq> [] \<Longrightarrow> log_root env es = mroot (log_hash_internal (env_sha env)) (log_leaves env es)"
  by (simp add: log_root_def log_leaves_def mroot_eq_mth)

lemma entry_hash_inj:
  assumes "inj_on (env_sha env) (set msgs)" "inj_on (json_entry env) E"
    and "json_entry env ` E \<subseteq> set msgs" "entry_hash env a = entry_hash env b" "a \<in> E" "b \<in> E"
  shows "a = b"
  using assms unfolding entry_hash_def by (meson image_subset_iff inj_onD)

lemma pairs_len32:
  assumes "sha256_len (env_sha env)"
  shows "set (tree_pairs (log_hash_internal (env_sha env)) (log_leaves env es)) \<subseteq> {l. length l = 32} \<times> UNIV"
proof (cases "es = []")
  case True
  then show ?thesis by (simp add: tree_pairs.simps log_leaves_def)
next
  case False
  then show ?thesis
    using tree_len32 [OF assms log_leaves_len32 [OF assms], of es] by (auto simp: log_leaves_def)
qed

lemma len32_subset:
  "list_all (\<lambda>pr. length (fst pr) = 32) prs \<Longrightarrow> set prs \<subseteq> {l. length l = 32} \<times> UNIV"
  by (auto simp: list_all_iff)

lemma inclusion_verify_True_iff:
  "inclusion_verify env p = Ok True \<longleftrightarrow>
     ip_leaf_index p < ip_log_size p \<and>
     incl_loop (env_sha env) (unat (ip_leaf_index p)) (unat (ip_log_size p)) (ip_proof_path p)
       (entry_hash env (ip_entry p)) = Ok (ip_log_root p, [])"
  by (auto simp: inclusion_verify_def not_le result_simps split: if_splits)

lemma inclusion_at_index:
  assumes "sha256_len (env_sha env)" "list_all (\<lambda>h. length h = 32) (ip_proof_path p)"
    and inj: "inj_on (env_sha env) (set (log_msgs env es @ inclusion_msgs env p))"
    and json: "inj_on (json_entry env) (set (ip_entry p # es))"
    and size: "unat (ip_log_size p) = length es" "length es < 2 ^ 64 - 1"
    and root: "ip_log_root p = log_root env es"
    and ok: "inclusion_verify env p = Ok True"
  shows "unat (ip_leaf_index p) < length es \<and> es ! unat (ip_leaf_index p) = ip_entry p"
proof -
  let ?f = "log_hash_internal (env_sha env)" and ?i = "unat (ip_leaf_index p)"
  let ?P = "set (tree_pairs ?f (log_leaves env es)) \<union> set (inclusion_pairs env p)"
  from ok have i: "?i < length es"
    by (simp add: inclusion_verify_True_iff word_less_nat_alt size(1))
  then have ne: "es \<noteq> []" by auto
  have "length (entry_hash env (ip_entry p)) = 32"
    using assms(1) by (simp add: entry_hash_def sha256_len_def)
  then have "?P \<subseteq> {l. length l = 32} \<times> UNIV"
    using pairs_len32 [OF assms(1), of es] len32_subset [OF incl_pairs_len32 [OF assms(1,2)]]
    unfolding inclusion_pairs_def by (intro Un_least)
  moreover have "inj_on (env_sha env) (pair_msg ` ?P)"
    by (rule inj_on_subset [OF inj]) (auto simp: log_msgs_def inclusion_msgs_def)
  ultimately have injP: "inj_on (\<lambda>(l, r). ?f l r) ?P"
    by (intro inj_on_pairs)
  have "incl_loop (env_sha env) ?i (length es) (ip_proof_path p) (entry_hash env (ip_entry p)) =
      Ok (mroot ?f (log_leaves env es), [])"
    using ok unfolding inclusion_verify_True_iff size(1) root log_root_mroot [OF ne] by (rule conjunct2)
  then have "log_leaves env es ! ?i = entry_hash env (ip_entry p)"
    by (rule incl_loop_sound [OF injP]) (use i size in \<open>auto simp: log_leaves_def inclusion_pairs_def\<close>)
  then have eq: "entry_hash env (es ! ?i) = entry_hash env (ip_entry p)"
    using i by (simp add: log_leaves_def)
  have "es ! ?i = ip_entry p"
    by (rule entry_hash_inj [OF inj json _ eq]) (use i in \<open>auto simp: log_msgs_def inclusion_msgs_def\<close>)
  with i show ?thesis by simp
qed

text \<open>
  C10. Soundness of inclusion proofs. Take a log with entries \<open>es\<close> whose size and root are those in
  the proof. If \<open>verify\<close> accepts, the proven entry is the log's entry at the claimed index, unless
  SHA-256 collides on the messages hashed for this log and this proof or the serialiser identifies
  two entries. The size must be below the maximal \<open>u64\<close>, where \<open>size + 1\<close> wraps.
\<close>

theorem inclusion_proof_sound:
  assumes "sha256_len (env_sha env)" "list_all (\<lambda>h. length h = 32) (ip_proof_path p)"
    and inj: "inj_on (env_sha env) (set (log_msgs env es @ inclusion_msgs env p))"
    and json: "inj_on (json_entry env) (set (ip_entry p # es))"
    and size: "unat (ip_log_size p) = length es" "length es < 2 ^ 64 - 1"
    and root: "ip_log_root p = log_root env es"
    and ok: "inclusion_verify env p = Ok True"
  shows "unat (ip_leaf_index p) < length es \<and> es ! unat (ip_leaf_index p) = ip_entry p"
  using assms by (rule inclusion_at_index)

text \<open>
  C35. Completeness of inclusion proofs: for every entry of every log of admissible size there is a
  proof path that \<open>verify\<close> accepts.
\<close>

theorem inclusion_proof_complete:
  assumes "sha256_len (env_sha env)" "i < length es" "length es < 2 ^ 64 - 1"
  shows "\<exists>path. list_all (\<lambda>h. length h = 32) path \<and>
    inclusion_verify env
      \<lparr>ip_entry = es ! i, ip_leaf_index = of_nat i, ip_proof_path = path,
       ip_log_size = of_nat (length es), ip_log_root = log_root env es\<rparr> = Ok True"
proof -
  have "i < length (log_leaves env es)" "length (log_leaves env es) < 2 ^ 64 - 1"
    using assms(2,3) by (simp_all add: log_leaves_def)
  from incl_loop_complete [OF assms(1) this log_leaves_len32 [OF assms(1)]] obtain path
    where "list_all (\<lambda>h. length h = 32) path"
      "incl_loop (env_sha env) i (length (log_leaves env es)) path (log_leaves env es ! i) =
         Ok (mroot (log_hash_internal (env_sha env)) (log_leaves env es), [])"
    by blast
  moreover have "log_leaves env es ! i = entry_hash env (es ! i)" "length (log_leaves env es) = length es"
      "log_root env es = mroot (log_hash_internal (env_sha env)) (log_leaves env es)"
    using assms(2) by (auto simp: log_leaves_def intro!: log_root_mroot [unfolded log_leaves_def])
  moreover have "unat (of_nat i :: u64) = i" "unat (of_nat (length es) :: u64) = length es"
    using assms(2,3) by (auto intro!: unat_of_nat_u64)
  ultimately show ?thesis
    using assms(2) by (intro exI [of _ path]) (simp add: inclusion_verify_True_iff word_less_nat_alt)
qed

lemma map_entry_hash_inj:
  assumes "inj_on (env_sha env) (set msgs)" "inj_on (json_entry env) E" "json_entry env ` E \<subseteq> set msgs"
    and "set es \<subseteq> E" "set fs \<subseteq> E" "log_leaves env es = log_leaves env fs"
  shows "es = fs"
proof (rule map_inj_on [of "entry_hash env"])
  show "inj_on (entry_hash env) (set es \<union> set fs)"
    by (rule inj_onI) (rule entry_hash_inj [OF assms(1-3)], use assms(4,5) in auto)
  show "map (entry_hash env) es = map (entry_hash env) fs"
    using assms(6) by (simp add: log_leaves_def)
qed

lemma consistency_extends:
  assumes "sha256_len (env_sha env)" "list_all (\<lambda>h. length h = 32) (cp_proof_path p)"
    and inj: "inj_on (env_sha env) (set (log_msgs env es @ log_msgs env fs @ consistency_msgs env p))"
    and json: "inj_on (json_entry env) (set (es @ fs))"
    and sizes: "unat (cp_old_size p) = length es" "unat (cp_new_size p) = length fs"
    and roots: "cp_old_root p = log_root env es" "cp_new_root p = log_root env fs"
    and ok: "consistency_verify env p = Ok True"
  shows "length es \<le> length fs \<and> es = take (length es) fs"
proof (cases "es = []")
  case True
  then show ?thesis by simp
next
  case False
  let ?f = "log_hash_internal (env_sha env)"
  let ?P = "set (tree_pairs ?f (log_leaves env es)) \<union> set (tree_pairs ?f (log_leaves env fs)) \<union>
      set (consistency_pairs env p)"
  have "\<not> cp_new_size p < cp_old_size p"
    using ok by (auto simp: consistency_verify_def)
  with False sizes have fs: "fs \<noteq> []"
    by (auto simp: word_less_nat_alt)
  have "length (cp_old_root p) = 32"
    using tree_len32 [OF assms(1) log_leaves_len32 [OF assms(1)], of es] False
    by (simp add: roots(1) log_root_mroot log_leaves_def)
  then have "?P \<subseteq> {l. length l = 32} \<times> UNIV"
    using pairs_len32 [OF assms(1)] len32_subset [OF consistency_pairs_len32 [OF assms(1,2)]]
    by (intro Un_least)
  moreover have "inj_on (env_sha env) (pair_msg ` ?P)"
    by (rule inj_on_subset [OF inj]) (auto simp: log_msgs_def consistency_msgs_def)
  ultimately have injP: "inj_on (\<lambda>(l, r). ?f l r) ?P"
    by (intro inj_on_pairs)
  have "length (log_leaves env es) \<le> length (log_leaves env fs) \<and>
      log_leaves env es = take (length (log_leaves env es)) (log_leaves env fs)"
    by (rule consistency_verify_sound [OF refl ok _ _ _ _ _ injP])
      (use sizes roots False fs in \<open>auto simp: log_root_mroot log_leaves_def\<close>)
  then have "length es \<le> length fs" "log_leaves env es = log_leaves env (take (length es) fs)"
    by (auto simp: log_leaves_def take_map)
  moreover from this(2) have "es = take (length es) fs"
    by (intro map_entry_hash_inj [OF inj json]) (auto simp: log_msgs_def dest: in_set_takeD)
  ultimately show ?thesis by simp
qed

text \<open>A root and a size bind a whole log.\<close>

lemma log_root_binding:
  assumes "sha256_len (env_sha env)"
    and inj: "inj_on (env_sha env) (set (log_msgs env es @ log_msgs env fs))"
    and json: "inj_on (json_entry env) (set (es @ fs))"
    and eq: "length es = length fs" "log_root env es = log_root env fs"
  shows "es = fs"
proof (cases "es = []")
  case True
  with eq(1) show ?thesis by simp
next
  case False
  let ?f = "log_hash_internal (env_sha env)"
  let ?P = "set (tree_pairs ?f (log_leaves env es)) \<union> set (tree_pairs ?f (log_leaves env fs))"
  have "inj_on (\<lambda>(l, r). ?f l r) ?P"
  proof (rule inj_on_pairs)
    show "inj_on (env_sha env) (pair_msg ` ?P)"
      by (rule inj_on_subset [OF inj]) (auto simp: log_msgs_def)
    show "?P \<subseteq> {l. length l = 32} \<times> UNIV"
      using pairs_len32 [OF assms(1)] by (intro Un_least)
  qed
  moreover have "fs \<noteq> []"
    using False eq(1) by auto
  ultimately have "log_leaves env es = log_leaves env fs"
    using eq False by (intro mroot_binding [of ?f ?P]) (auto simp: log_root_mroot, simp_all add: log_leaves_def)
  then show ?thesis
    by (intro map_entry_hash_inj [OF inj json]) (auto simp: log_msgs_def)
qed

text \<open>
  C2. Soundness of consistency proofs: a log that grows is append-only. Take an old log \<open>es\<close> and a
  new log \<open>fs\<close> with the sizes and roots in the proof. If \<open>verify\<close> accepts, the new log is the old
  one with entries appended, unless SHA-256 collides on the messages hashed for the two logs and the
  proof, or the serialiser identifies two entries.
\<close>

theorem consistency_proof_sound:
  assumes "sha256_len (env_sha env)" "list_all (\<lambda>h. length h = 32) (cp_proof_path p)"
    and inj: "inj_on (env_sha env) (set (log_msgs env es @ log_msgs env fs @ consistency_msgs env p))"
    and json: "inj_on (json_entry env) (set (es @ fs))"
    and sizes: "unat (cp_old_size p) = length es" "unat (cp_new_size p) = length fs"
    and roots: "cp_old_root p = log_root env es" "cp_new_root p = log_root env fs"
    and ok: "consistency_verify env p = Ok True"
  shows "length es \<le> length fs \<and> es = take (length es) fs"
  using assms by (rule consistency_extends)

text \<open>
  C34. Completeness of consistency proofs: between a log and every extension of it there is a proof
  path that \<open>verify\<close> accepts.
\<close>

theorem consistency_proof_complete:
  assumes "sha256_len (env_sha env)" "length (es @ ext) < 2 ^ 64"
  shows "\<exists>path. list_all (\<lambda>h. length h = 32) path \<and>
    consistency_verify env
      \<lparr>cp_old_size = of_nat (length es), cp_new_size = of_nat (length (es @ ext)),
       cp_old_root = log_root env es, cp_new_root = log_root env (es @ ext), cp_proof_path = path\<rparr> = Ok True"
proof (cases "es = [] \<or> ext = []")
  case True
  moreover have "ext = []" if "es = []" "(of_nat (length ext) :: u64) = 0"
    using that assms(2) unat_of_nat_u64 [of "length ext"] by simp
  ultimately show ?thesis
    by (intro exI [of _ "[]"]) (auto simp: consistency_verify_def word_less_nat_alt)
next
  case False
  let ?f = "log_hash_internal (env_sha env)" and ?m = "length es" and ?n = "length (es @ ext)"
  define a :: u64 where "a = of_nat ?m"
  define b :: u64 where "b = of_nat ?n"
  have nat: "unat a = ?m" "unat b = ?n"
    unfolding a_def b_def using assms(2) by (rule_tac [!] unat_of_nat_u64) simp_all
  obtain n l where strip: "strip_odd (?m - 1) (?n - 1) = (n, l)"
    by (cases "strip_odd (?m - 1) (?n - 1)") auto
  have "\<exists>us vs. length us = Suc n \<and> length vs = Suc l \<and> n \<le> l \<and> take (Suc n) us = take (Suc n) vs \<and>
    mroot ?f us = mroot ?f (log_leaves env es) \<and> mroot ?f vs = mroot ?f (log_leaves env (es @ ext)) \<and>
    (\<forall>h \<in> set us. length h = 32) \<and> (\<forall>h \<in> set vs. length h = 32)"
    by (rule strip_odd_levels [OF assms(1) strip])
      (use False log_leaves_len32 [OF assms(1)] in \<open>auto simp: log_leaves_def\<close>)
  then obtain us vs where us: "length us = Suc n" "length vs = Suc l" "n \<le> l" "take (Suc n) us = take (Suc n) vs"
    and roots: "mroot ?f us = log_root env es" "mroot ?f vs = log_root env (es @ ext)"
    and len: "\<forall>h \<in> set us. length h = 32" "\<forall>h \<in> set vs. length h = 32"
    using False by (auto simp: log_root_mroot)
  from us have start: "take n us = take n vs" "us ! n = vs ! n"
    by (metis lessI less_imp_le min.absorb1 take_take) (metis lessI nth_take us(4))
  obtain path where path: "list_all (\<lambda>h. length h = 32) path"
      "cons_loop (env_sha env) path n l (us ! n) (us ! n) = Ok (log_root env es, log_root env (es @ ext), [])"
    using cons_loop_complete [OF assms(1) us(1-3) start(1) len] start(2) roots by auto
  have size: "a < b" "\<not> b < a" "a \<noteq> b" "a \<noteq> 0"
    using False nat by (auto simp: word_less_nat_alt)
  show ?thesis
  proof (cases "n = 0")
    case True
    with us(1) roots(1) have "us ! n = log_root env es"
      by (auto simp: length_Suc_conv)
    then show ?thesis
      unfolding a_def [symmetric] b_def [symmetric]
      using path strip size nat True by (intro exI [of _ path]) (simp add: consistency_verify_def)
  next
    case False
    moreover have "length (us ! n) = 32"
      using len(1) us(1) by simp
    ultimately show ?thesis
      unfolding a_def [symmetric] b_def [symmetric]
      using path strip size nat by (intro exI [of _ "us ! n # path"]) (simp add: consistency_verify_def)
  qed
qed

subsection \<open>Examples\<close>

definition sample_entry :: "u64 \<Rightarrow> transparency_entry" where
  "sample_entry n =
     \<lparr>te_sequence_number = n, te_timestamp = 1700000000, te_join_card_hash = replicate 32 7,
      te_operation = AddJoinCard ''alice'' ''laptop'' ''ab:cd'', te_signature = replicate 64 1\<rparr>"

definition sample_key :: bytes where
  "sample_key = replicate 32 1"

definition sample_root :: "nat \<Rightarrow> bytes" where
  "sample_root n = mth (log_hash_internal sample_sha) (map (\<lambda>i. sample_sha [of_nat i]) [0..<n])"

definition sample_env :: log_env where
  "sample_env =
     \<lparr>env_sha = sample_sha, env_ed = sample_ed25519,
      json_entry = (\<lambda>e. [of_nat (unat (te_sequence_number e))]),
      json_payload = (\<lambda>pl. Ok [of_nat (unat (pl_tree_size pl))]),
      b64_decode = (\<lambda>s. Ok (sample_key @ pad32 [of_nat (length s)])),
      hex_decode = (\<lambda>s. Ok (sample_root (length s))),
      parse_rfc3339 = (\<lambda>s. Ok (int (length s)))\<rparr>"

definition sample_log :: "nat \<Rightarrow> transparency_entry list" where
  "sample_log n = map (\<lambda>i. sample_entry (of_nat i)) [0..<n]"

definition sample_inclusion :: log_inclusion_proof where
  "sample_inclusion =
     (let h = (\<lambda>i. entry_hash sample_env (sample_entry i)) in
      \<lparr>ip_entry = sample_entry 1, ip_leaf_index = 1, ip_proof_path = [h 0, h 2], ip_log_size = 3,
       ip_log_root = log_root sample_env (sample_log 3)\<rparr>)"

definition sample_consistency :: consistency_proof where
  "sample_consistency =
     (let h = (\<lambda>i. entry_hash sample_env (sample_entry i)) in
      \<lparr>cp_old_size = 3, cp_new_size = 4, cp_old_root = log_root sample_env (sample_log 3),
       cp_new_root = log_root sample_env (sample_log 4),
       cp_proof_path = [h 2, h 3, log_hash_internal sample_sha (h 0) (h 1)]\<rparr>)"

lemma sample_env_sha: "sha256_len (env_sha sample_env)"
  using sample_sha_len by (simp add: sample_env_def)

theorem inclusion_proof_sound_witness:
  "unat (ip_leaf_index sample_inclusion) < length (sample_log 3) \<and>
   sample_log 3 ! unat (ip_leaf_index sample_inclusion) = ip_entry sample_inclusion"
proof (rule inclusion_proof_sound [OF sample_env_sha])
  show "list_all (\<lambda>h. length h = 32) (ip_proof_path sample_inclusion)"
    by code_simp
  show "inj_on (env_sha sample_env) (set (log_msgs sample_env (sample_log 3) @ inclusion_msgs sample_env sample_inclusion))"
    by (rule inj_on_setI) code_simp
  show "inj_on (json_entry sample_env) (set (ip_entry sample_inclusion # sample_log 3))"
    by (rule inj_on_setI) code_simp
  show "unat (ip_log_size sample_inclusion) = length (sample_log 3)"
    by code_simp
  show "length (sample_log 3) < 2 ^ 64 - 1"
    by (simp add: sample_log_def)
  show "ip_log_root sample_inclusion = log_root sample_env (sample_log 3)"
    by code_simp
  show "inclusion_verify sample_env sample_inclusion = Ok True"
    by code_simp
qed

theorem inclusion_proof_complete_witness:
  "\<exists>path. list_all (\<lambda>h. length h = 32) path \<and>
    inclusion_verify sample_env
      \<lparr>ip_entry = sample_log 3 ! 2, ip_leaf_index = of_nat 2, ip_proof_path = path,
       ip_log_size = of_nat (length (sample_log 3)), ip_log_root = log_root sample_env (sample_log 3)\<rparr> = Ok True"
  by (rule inclusion_proof_complete [OF sample_env_sha]) (simp_all add: sample_log_def)

theorem consistency_proof_sound_witness:
  "length (sample_log 3) \<le> length (sample_log 4) \<and> sample_log 3 = take (length (sample_log 3)) (sample_log 4)"
proof (rule consistency_proof_sound [OF sample_env_sha])
  show "list_all (\<lambda>h. length h = 32) (cp_proof_path sample_consistency)"
    by code_simp
  show "inj_on (env_sha sample_env) (set (log_msgs sample_env (sample_log 3) @ log_msgs sample_env (sample_log 4) @
      consistency_msgs sample_env sample_consistency))"
    by (rule inj_on_setI) code_simp
  show "inj_on (json_entry sample_env) (set (sample_log 3 @ sample_log 4))"
    by (rule inj_on_setI) code_simp
  show "unat (cp_old_size sample_consistency) = length (sample_log 3)"
    "unat (cp_new_size sample_consistency) = length (sample_log 4)"
    by code_simp+
  show "cp_old_root sample_consistency = log_root sample_env (sample_log 3)"
    "cp_new_root sample_consistency = log_root sample_env (sample_log 4)"
    by code_simp+
  show "consistency_verify sample_env sample_consistency = Ok True"
    by code_simp
qed

theorem consistency_proof_complete_witness:
  "\<exists>path. list_all (\<lambda>h. length h = 32) path \<and>
    consistency_verify sample_env
      \<lparr>cp_old_size = of_nat (length (sample_log 3)), cp_new_size = of_nat (length (sample_log 3 @ sample_log 2)),
       cp_old_root = log_root sample_env (sample_log 3),
       cp_new_root = log_root sample_env (sample_log 3 @ sample_log 2), cp_proof_path = path\<rparr> = Ok True"
  by (rule consistency_proof_complete [OF sample_env_sha]) (simp add: sample_log_def)

text \<open>
  The size bound of the soundness statement is needed: with the maximal \<open>u64\<close> as the claimed log
  size, \<open>size + 1\<close> wraps to zero in a release build, the loop ends after one promotion step, and
  every entry is accepted at the last index with an empty path and its own hash as the root.
\<close>

theorem inclusion_wraps_at_max_size:
  "inclusion_verify env
     \<lparr>ip_entry = e, ip_leaf_index = 18446744073709551614, ip_proof_path = [],
      ip_log_size = 18446744073709551615,
      ip_log_root = entry_hash env e\<rparr> = Ok True"
proof -
  have "incl_loop (env_sha env) (2 ^ 64 - 2) (2 ^ 64 - 1) [] (entry_hash env e) = Ok (entry_hash env e, [])"
    by (simp add: incl_loop_unfold sat_sub_def)
  then show ?thesis
    by (simp add: inclusion_verify_True_iff)
qed

end
