(* ===== verification/TransparencyClient.thy ===== *)
theory TransparencyClient
  imports Transparency
begin

text \<open>
  The transparency log client (\<open>crates/client/src/transparency/mod.rs\<close>). The state behind the
  client's mutex is the last verified checkpoint; \<open>tstate\<close> holds it together with the numbers of
  HTTP requests made and clock readings taken so far. The network and the clock are parameters: the
  \<open>n\<close>-th request and the \<open>n\<close>-th reading may be answered in any way, so the theorems hold against an
  adversarial server. Responses are decoded by \<open>serde_json\<close>, a parameter as well.

  Each operation is an action on \<open>tstate\<close>. \<open>checkpoint_update\<close> is the abstract specification of
  the client's trust state: what a run may replace the stored checkpoint with. The last section looks
  at concurrent fetches, whose verification and whose store are two separate critical sections.
\<close>

subsection \<open>Data\<close>

datatype log_request =
    InclusionProofRequest bytes "u64 option"
  | ConsistencyProofRequest u64 u64
  | CheckpointRequest "u64 option"
  | SubmitEntry transparency_entry

text \<open>
  One exchange under the request timeout: it times out, fails to be sent, or has a response with a
  status (code and text), and the results of reading its body as text and as bytes.
\<close>

datatype http_outcome =
    TimedOut
  | SendFailed string
  | Response nat string "(string, string) result" "(bytes, string) result"

record net_env =
  ne_log :: log_env
  ne_now :: "nat \<Rightarrow> instant"
  ne_http :: "nat \<Rightarrow> string \<Rightarrow> bytes \<Rightarrow> http_outcome"
  json_request :: "log_request \<Rightarrow> (bytes, string) result"
  parse_inclusion :: "bytes \<Rightarrow> (log_inclusion_proof, string) result"
  parse_consistency :: "bytes \<Rightarrow> (consistency_proof, string) result"
  parse_checkpoint :: "bytes \<Rightarrow> (checkpoint, string) result"
  parse_sequence_number :: "bytes \<Rightarrow> (u64, string) result"

record verified_checkpoint =
  vc_checkpoint :: checkpoint
  vc_root_hash :: bytes
  vc_signing_key_id :: string
  vc_generated_at :: instant
  vc_verified_at :: instant

record tclient =
  tcl_log_url :: string
  tcl_config :: transparency_config
  tcl_feature_enabled :: bool
  tcl_trusted_keys :: "string \<rightharpoonup> bytes"

record tstate =
  last_verified :: "verified_checkpoint option"
  requests_made :: nat
  clock_reads :: nat

type_synonym 'a taction = "(tstate, 'a, transparency_error) action"

subsection \<open>Construction\<close>

fun build_trusted_key_map :: "log_env \<Rightarrow> trusted_key list \<Rightarrow> (string \<rightharpoonup> bytes) \<Rightarrow> (string \<rightharpoonup> bytes)" where
  "build_trusted_key_map env [] kmap = kmap"
| "build_trusted_key_map env (key # keys) kmap =
     build_trusted_key_map env keys
       (case b64_decode env (trim (tk_public_key_base64 key)) of
          Err _ \<Rightarrow> kmap
        | Ok decoded \<Rightarrow>
            if length decoded \<noteq> 32 then kmap
            else
              (case verifying_key_from_bytes (env_ed env) decoded of
                 Ok vk \<Rightarrow> kmap(tk_key_id key \<mapsto> vk)
               | Err _ \<Rightarrow> kmap))"

definition ends_with :: "string \<Rightarrow> string \<Rightarrow> bool" where
  "ends_with suf s \<longleftrightarrow> length suf \<le> length s \<and> drop (length s - length suf) s = suf"

definition normalize_log_url :: "string \<Rightarrow> string" where
  "normalize_log_url log_url =
     (let trimmed = trim_end_matches (CHR ''/'') (trim log_url) in
      if split_once ''/checkpoints/'' trimmed \<noteq> None \<or> ends_with ''.json'' trimmed
      then (case split_once ''/checkpoints/'' trimmed of
              Some (base, _) \<Rightarrow> trim_end_matches (CHR ''/'') base @ ''/api/v1/transparency''
            | None \<Rightarrow> trimmed)
      else trimmed)"

text \<open>The map of trusted keys is non-empty exactly when some configured key decoded.\<close>

definition tclient_new :: "log_env \<Rightarrow> string \<Rightarrow> transparency_config \<Rightarrow> tclient" where
  "tclient_new env log_url config =
     (let keys = build_trusted_key_map env (tc_trusted_signing_keys config) Map.empty in
      \<lparr>tcl_log_url = normalize_log_url log_url, tcl_config = config,
       tcl_feature_enabled =
         (tc_enabled config \<and> list_ex (\<lambda>k. keys (tk_key_id k) \<noteq> None) (tc_trusted_signing_keys config)),
       tcl_trusted_keys = keys\<rparr>)"

definition tstate_new :: tstate where
  "tstate_new = \<lparr>last_verified = None, requests_made = 0, clock_reads = 0\<rparr>"

definition all_zero :: "bytes \<Rightarrow> bool" where
  "all_zero b = list_all (\<lambda>x. x = 0) b"

definition validate_entry :: "transparency_entry \<Rightarrow> (unit, transparency_error) result" where
  "validate_entry e =
     rbind (guard (\<not> (te_signature e = [] \<or> all_zero (te_signature e)))
              (InvalidEntry ''transparency entry signature missing or zeroed'')) (\<lambda>_.
     case te_operation e of
       AddJoinCard user_id device_id key_fingerprint \<Rightarrow>
         rbind (guard (\<not> (trim user_id = [] \<or> trim device_id = []))
                  (InvalidEntry ''join card entry missing user or device metadata'')) (\<lambda>_.
         guard (trim key_fingerprint \<noteq> []) (InvalidEntry ''join card entry missing key fingerprint''))
     | RevokeJoinCard user_id device_id _ \<Rightarrow>
         guard (\<not> (trim user_id = [] \<or> trim device_id = []))
           (InvalidEntry ''revoke join card entry missing user or device metadata'')
     | DirectoryUpdate merkle_root _ \<Rightarrow>
         guard (\<not> all_zero merkle_root) (InvalidEntry ''directory update merkle root is zeroed'')
     | EpochKeyRotation _ epoch_key_hash \<Rightarrow>
         guard (\<not> all_zero epoch_key_hash) (InvalidEntry ''epoch key rotation hash is zeroed'')
     | CoverageSnapshot _ _ _ key_id verifying_key \<Rightarrow>
         rbind (ok_or (InvalidEntry ''coverage snapshot missing signing key identifier'') key_id) (\<lambda>key_id.
         rbind (guard (trim key_id \<noteq> []) (InvalidEntry ''coverage snapshot signing key identifier empty'')) (\<lambda>_.
         guard (\<not> all_zero verifying_key) (InvalidEntry ''coverage snapshot verifying key is zeroed''))))"

subsection \<open>Requests and the clock\<close>

definition utc_now :: "net_env \<Rightarrow> instant taction" where
  "utc_now ne s = (s\<lparr>clock_reads := Suc (clock_reads s)\<rparr>, Ok (ne_now ne (clock_reads s)))"

definition http_post :: "net_env \<Rightarrow> string \<Rightarrow> bytes \<Rightarrow> http_outcome taction" where
  "http_post ne url body s =
     (s\<lparr>requests_made := Suc (requests_made s)\<rparr>, Ok (ne_http ne (requests_made s) url body))"

text \<open>
  \<open>send_http_request\<close> under the timeout of \<open>send_transparency_request\<close>: the body is serialised
  first; a timeout is an outcome of the exchange.
\<close>

definition send_transparency_request :: "net_env \<Rightarrow> tclient \<Rightarrow> string \<Rightarrow> log_request \<Rightarrow> bytes taction" where
  "send_transparency_request ne cl endpoint request =
     (let url = trim_end_matches (CHR ''/'') (tcl_log_url cl) @ ''/'' @ trim_start_matches (CHR ''/'') endpoint in
      sbind (sres (map_err Serialization (json_request ne request))) (\<lambda>body.
      sbind (http_post ne url body) (\<lambda>outcome.
      sres (case outcome of
              TimedOut \<Rightarrow> Err Timeout
            | SendFailed err \<Rightarrow> Err (Network err)
            | Response status status_text text_body bytes_body \<Rightarrow>
                if status = 404 then Err ServerUnavailable
                else if \<not> (200 \<le> status \<and> status < 300)
                then Err (Network (''HTTP '' @ status_text @ '': '' @
                       (case text_body of Ok t \<Rightarrow> t | Err _ \<Rightarrow> ''<opaque error>'')))
                else map_err Network bytes_body))))"

subsection \<open>Checks on the stored checkpoint\<close>

definition is_enabled :: "tclient \<Rightarrow> bool" where
  "is_enabled cl = tcl_feature_enabled cl"

definition checkpoint_is_fresh :: "net_env \<Rightarrow> tclient \<Rightarrow> verified_checkpoint \<Rightarrow> bool taction" where
  "checkpoint_is_fresh ne cl vc =
     (let max_age = tc_max_checkpoint_age_seconds (tcl_config cl) in
      if max_age = 0 then sres (Ok True)
      else
        sbind (utc_now ne) (\<lambda>now.
        let age = num_seconds (now - vc_generated_at vc) in
        if age \<le> 0 then sres (Ok True)
        else if max_age < word_of_int age then sres (Ok False)
        else sres (Ok (\<not> sint max_age < num_seconds (now - vc_verified_at vc)))))"

definition validate_inclusion_proof ::
  "verified_checkpoint option \<Rightarrow> log_inclusion_proof \<Rightarrow> (unit, transparency_error) result" where
  "validate_inclusion_proof lv proof =
     rbind (guard (\<not> ip_log_size proof \<le> ip_leaf_index proof) InvalidInclusionProof) (\<lambda>_.
     rbind (guard (\<not> ip_log_size proof < te_sequence_number (ip_entry proof)) InvalidInclusionProof) (\<lambda>_.
     rbind (ok_or ServerUnavailable lv) (\<lambda>vc.
     rbind (guard (ip_log_root proof = vc_root_hash vc) InvalidInclusionProof) (\<lambda>_.
     guard (ip_log_size proof = ck_tree_size (vc_checkpoint vc)) InvalidInclusionProof))))"

fun unavailable :: "transparency_error \<Rightarrow> bool" where
  "unavailable ServerUnavailable = True"
| "unavailable Timeout = True"
| "unavailable (Network _) = True"
| "unavailable _ = False"

definition should_fallback :: "tclient \<Rightarrow> transparency_error \<Rightarrow> bool" where
  "should_fallback cl e \<longleftrightarrow> tc_fallback_to_pinning (tcl_config cl) \<and> unavailable e"

subsection \<open>Operations\<close>

definition verify_consistency ::
  "net_env \<Rightarrow> tclient \<Rightarrow> u64 \<Rightarrow> u64 \<Rightarrow> bytes \<Rightarrow> bytes \<Rightarrow> unit taction" where
  "verify_consistency ne cl old_size new_size old_root new_root =
     (if new_size < old_size then sres (Err InvalidConsistencyProof)
      else if old_size = new_size
      then sres (if old_root = new_root then Ok () else Err InvalidConsistencyProof)
      else if \<not> is_enabled cl then sres (Ok ())
      else
        sbind (send_transparency_request ne cl ''consistency_proof'' (ConsistencyProofRequest old_size new_size)) (\<lambda>response.
        sres (
          rbind (map_err Serialization (parse_consistency ne response)) (\<lambda>proof.
          rbind (guard (\<not> (cp_old_size proof \<noteq> old_size \<or> cp_new_size proof \<noteq> new_size)) InvalidConsistencyProof) (\<lambda>_.
          rbind (guard (\<not> (cp_old_root proof \<noteq> old_root \<or> cp_new_root proof \<noteq> new_root)) InvalidConsistencyProof) (\<lambda>_.
          rbind (consistency_verify (ne_log ne) proof) (\<lambda>ok.
          guard ok InvalidConsistencyProof)))))))"

text \<open>
  \<open>fetch_and_store_checkpoint\<close>, up to the second lock: fetch a checkpoint, check signature, root
  hash, timestamp and age, and check it against the previously verified one. The candidate is the
  \<open>VerifiedCheckpoint\<close> to be stored, whose \<open>verified_at\<close> is read at the store.
\<close>

definition fetch_checkpoint :: "net_env \<Rightarrow> tclient \<Rightarrow> verified_checkpoint taction" where
  "fetch_checkpoint ne cl =
     (let max_age = tc_max_checkpoint_age_seconds (tcl_config cl); env = ne_log ne in
      sbind (send_transparency_request ne cl ''checkpoint'' (CheckpointRequest (Some max_age))) (\<lambda>response.
      sbind (sres (map_err Serialization (parse_checkpoint ne response))) (\<lambda>checkpoint.
      sbind (sres (signing_key_id checkpoint)) (\<lambda>key_id.
      sbind (sres (ok_or (UnknownSigningKey key_id) (tcl_trusted_keys cl key_id))) (\<lambda>verifying_key.
      sbind (sres (verify_signature env checkpoint verifying_key)) (\<lambda>_.
      sbind (sres (root_hash_bytes env checkpoint)) (\<lambda>root_hash.
      sbind (sres (generated_at env checkpoint)) (\<lambda>generated.
      sbind (if 0 < max_age
             then sbind (utc_now ne) (\<lambda>now.
                  let age = num_seconds (now - generated) in
                  sres (guard (\<not> sint max_age < age) (CheckpointTooOld (word_of_int age) max_age)))
             else sres (Ok ())) (\<lambda>_.
      sres (Ok \<lparr>vc_checkpoint = checkpoint, vc_root_hash = root_hash, vc_signing_key_id = key_id,
                vc_generated_at = generated, vc_verified_at = 0\<rparr>))))))))))"

definition check_against_previous ::
  "net_env \<Rightarrow> tclient \<Rightarrow> verified_checkpoint option \<Rightarrow> verified_checkpoint \<Rightarrow> unit taction" where
  "check_against_previous ne cl previous cand =
     (case previous of
        None \<Rightarrow> sres (Ok ())
      | Some prev \<Rightarrow>
          (let new_size = ck_tree_size (vc_checkpoint cand); old_size = ck_tree_size (vc_checkpoint prev) in
           if new_size < old_size then sres (Err InvalidConsistencyProof)
           else if new_size = old_size
           then sres (guard (vc_root_hash cand = vc_root_hash prev) InvalidConsistencyProof)
           else verify_consistency ne cl old_size new_size (vc_root_hash prev) (vc_root_hash cand)))"

text \<open>The critical section under the second lock.\<close>

definition store_checkpoint :: "net_env \<Rightarrow> tclient \<Rightarrow> verified_checkpoint \<Rightarrow> checkpoint taction" where
  "store_checkpoint ne cl cand =
     sbind (sgets last_verified) (\<lambda>existing.
     let new_size = ck_tree_size (vc_checkpoint cand);
         store = sbind (utc_now ne) (\<lambda>now s.
           (s\<lparr>last_verified := Some (cand\<lparr>vc_verified_at := now\<rparr>)\<rparr>, Ok (vc_checkpoint cand)))
     in case existing of
          None \<Rightarrow> store
        | Some ex \<Rightarrow>
            if new_size < ck_tree_size (vc_checkpoint ex) then sres (Ok (vc_checkpoint ex))
            else if ck_tree_size (vc_checkpoint ex) = new_size \<and> vc_root_hash ex = vc_root_hash cand
            then sbind (checkpoint_is_fresh ne cl ex) (\<lambda>fresh.
                 if fresh then sres (Ok (vc_checkpoint ex)) else store)
            else store)"

definition fetch_and_store_checkpoint :: "net_env \<Rightarrow> tclient \<Rightarrow> checkpoint taction" where
  "fetch_and_store_checkpoint ne cl =
     (if \<not> is_enabled cl then sres (Err ServerUnavailable)
      else
        sbind (fetch_checkpoint ne cl) (\<lambda>cand.
        sbind (sgets last_verified) (\<lambda>previous.
        sbind (check_against_previous ne cl previous cand) (\<lambda>_.
        store_checkpoint ne cl cand))))"

definition ensure_verified_state :: "net_env \<Rightarrow> tclient \<Rightarrow> unit taction" where
  "ensure_verified_state ne cl =
     (if \<not> is_enabled cl then sres (Err ServerUnavailable)
      else
        sbind (sgets last_verified) (\<lambda>lv.
        sbind (case lv of
                 Some vc \<Rightarrow> sbind (checkpoint_is_fresh ne cl vc) (\<lambda>fresh. sres (Ok (\<not> fresh)))
               | None \<Rightarrow> sres (Ok True)) (\<lambda>needs_refresh.
        if needs_refresh then sbind (fetch_and_store_checkpoint ne cl) (\<lambda>_. sres (Ok ()))
        else sres (Ok ()))))"

text \<open>One request for an inclusion proof against the state just verified, up to the proof's own check.\<close>

definition request_inclusion_proof :: "net_env \<Rightarrow> tclient \<Rightarrow> bytes \<Rightarrow> log_inclusion_proof taction" where
  "request_inclusion_proof ne cl join_card_hash =
     sbind (fetch_and_store_checkpoint ne cl) (\<lambda>_.
     sbind (sgets (\<lambda>s. map_option (\<lambda>vc. ck_tree_size (vc_checkpoint vc)) (last_verified s))) (\<lambda>log_size.
     sbind (send_transparency_request ne cl ''inclusion_proof'' (InclusionProofRequest join_card_hash log_size)) (\<lambda>response.
     sres (
       rbind (map_err Serialization (parse_inclusion ne response)) (\<lambda>proof.
       rbind (guard (\<not> (entry_hash (ne_log ne) (ip_entry proof) \<noteq> join_card_hash \<and>
                         te_join_card_hash (ip_entry proof) \<noteq> join_card_hash)) InvalidInclusionProof) (\<lambda>_.
       rbind (inclusion_verify (ne_log ne) proof) (\<lambda>ok.
       rbind (guard ok InvalidInclusionProof) (\<lambda>_. Ok proof))))))))"

definition get_inclusion_proof :: "net_env \<Rightarrow> tclient \<Rightarrow> bytes \<Rightarrow> log_inclusion_proof taction" where
  "get_inclusion_proof ne cl join_card_hash =
     (if \<not> is_enabled cl then sres (Err ServerUnavailable)
      else
        sbind (request_inclusion_proof ne cl join_card_hash) (\<lambda>proof.
        scatch (\<lambda>s. (s, validate_inclusion_proof (last_verified s) proof))
          (\<lambda>_. sres (Ok proof))
          (\<lambda>_. sbind (request_inclusion_proof ne cl join_card_hash) (\<lambda>proof.
                sbind (\<lambda>s. (s, validate_inclusion_proof (last_verified s) proof)) (\<lambda>_.
                sres (Ok proof))))))"

definition get_latest_checkpoint :: "net_env \<Rightarrow> tclient \<Rightarrow> checkpoint taction" where
  "get_latest_checkpoint ne cl =
     (if \<not> is_enabled cl then sres (Err ServerUnavailable)
      else
        sbind (ensure_verified_state ne cl) (\<lambda>_.
        sbind (sgets last_verified) (\<lambda>lv.
        sres (ok_or ServerUnavailable (map_option vc_checkpoint lv)))))"

definition verify_entry_inclusion :: "net_env \<Rightarrow> tclient \<Rightarrow> transparency_entry \<Rightarrow> bool taction" where
  "verify_entry_inclusion ne cl entry =
     (if \<not> is_enabled cl then sres (Ok True)
      else
        scatch (ensure_verified_state ne cl)
          (\<lambda>_. scatch (get_inclusion_proof ne cl (entry_hash (ne_log ne) entry))
             (\<lambda>proof.
                sres (if entry_hash (ne_log ne) (ip_entry proof) \<noteq> entry_hash (ne_log ne) entry then Ok False
                      else if ip_log_size proof < te_sequence_number (ip_entry proof) then Ok False
                      else inclusion_verify (ne_log ne) proof))
             (\<lambda>err. sres (if should_fallback cl err then Ok True else Err err)))
          (\<lambda>err. sres (if should_fallback cl err then Ok True else Err err)))"

definition submit_entry :: "net_env \<Rightarrow> tclient \<Rightarrow> transparency_entry \<Rightarrow> u64 taction" where
  "submit_entry ne cl entry =
     (if \<not> is_enabled cl then sres (Err ServerUnavailable)
      else
        sbind (sres (validate_entry entry)) (\<lambda>_.
        sbind (send_transparency_request ne cl ''submit_entry'' (SubmitEntry entry)) (\<lambda>response.
        sres (map_err Serialization (parse_sequence_number ne response)))))"

definition verify_join_card_logged :: "net_env \<Rightarrow> tclient \<Rightarrow> bytes \<Rightarrow> bool taction" where
  "verify_join_card_logged ne cl join_card_hash =
     (if \<not> is_enabled cl then sres (Ok True)
      else
        scatch (ensure_verified_state ne cl)
          (\<lambda>_. scatch (get_inclusion_proof ne cl join_card_hash)
             (\<lambda>proof. sres (inclusion_verify (ne_log ne) proof))
             (\<lambda>err. sres (if should_fallback cl err then Ok True else Err err)))
          (\<lambda>err. sres (if should_fallback cl err then Ok True else Err err)))"

definition verify_log_consistency :: "net_env \<Rightarrow> tclient \<Rightarrow> bool taction" where
  "verify_log_consistency ne cl =
     (if \<not> is_enabled cl then sres (Ok True)
      else
        scatch (ensure_verified_state ne cl) (\<lambda>_. sres (Ok True))
          (\<lambda>err. sres (if should_fallback cl err then Ok True else Err err)))"

definition get_checkpoint :: "net_env \<Rightarrow> tclient \<Rightarrow> checkpoint taction" where
  "get_checkpoint ne cl = get_latest_checkpoint ne cl"

subsection \<open>What the stored checkpoint may become\<close>

text \<open>
  What the server can answer with. A checkpoint is authentic for the client when the server answered
  with it, the stored root and time are those in it, and the Ed25519 signature in it is one of a trusted key
  that it names, either over the whole payload (version, time, log, key, size, root and entries) or, in the
  form of earlier logs, over the bytes of the root alone. In the second case size and time are not covered.
\<close>

definition served :: "net_env \<Rightarrow> bytes set" where
  "served ne = {b. \<exists>n url body status st tx. ne_http ne n url body = Response status st tx (Ok b)}"

definition served_checkpoints :: "net_env \<Rightarrow> checkpoint set" where
  "served_checkpoints ne = {c. \<exists>b \<in> served ne. parse_checkpoint ne b = Ok c}"

definition served_proofs :: "net_env \<Rightarrow> consistency_proof set" where
  "served_proofs ne = {p. \<exists>b \<in> served ne. parse_consistency ne b = Ok p}"

definition authentic :: "net_env \<Rightarrow> tclient \<Rightarrow> verified_checkpoint \<Rightarrow> bool" where
  "authentic ne cl vc \<longleftrightarrow>
     vc_checkpoint vc \<in> served_checkpoints ne \<and>
     ck_signing_key_id (vc_checkpoint vc) = Some (vc_signing_key_id vc) \<and>
     (\<exists>vk signature. tcl_trusted_keys cl (vc_signing_key_id vc) = Some vk \<and>
        checkpoint_signature (ne_log ne) (vc_checkpoint vc) = Ok signature \<and>
        ((\<exists>payload. signing_payload (ne_log ne) (vc_checkpoint vc) = Ok payload \<and>
            dalek_verify (env_ed (ne_log ne)) vk payload signature = Ok ()) \<or>
         dalek_verify (env_ed (ne_log ne)) vk (vc_root_hash vc) signature = Ok ())) \<and>
     root_hash_bytes (ne_log ne) (vc_checkpoint vc) = Ok (vc_root_hash vc) \<and>
     generated_at (ne_log ne) (vc_checkpoint vc) = Ok (vc_generated_at vc)"

abbreviation vc_size :: "verified_checkpoint \<Rightarrow> u64" where
  "vc_size vc \<equiv> ck_tree_size (vc_checkpoint vc)"

text \<open>
  The specification: a first authentic checkpoint; a re-verified one with the same size and root; or
  one that an accepted consistency proof shows to extend the stored one.
\<close>

inductive checkpoint_update ::
  "net_env \<Rightarrow> tclient \<Rightarrow> verified_checkpoint option \<Rightarrow> verified_checkpoint option \<Rightarrow> bool"
  for ne cl where
  first: "authentic ne cl v \<Longrightarrow> checkpoint_update ne cl None (Some v)"
| again: "authentic ne cl v' \<Longrightarrow> vc_size v' = vc_size v \<Longrightarrow> vc_root_hash v' = vc_root_hash v \<Longrightarrow>
    checkpoint_update ne cl (Some v) (Some v')"
| grow: "authentic ne cl v' \<Longrightarrow> vc_size v < vc_size v' \<Longrightarrow> p \<in> served_proofs ne \<Longrightarrow>
    cp_old_size p = vc_size v \<Longrightarrow> cp_new_size p = vc_size v' \<Longrightarrow>
    cp_old_root p = vc_root_hash v \<Longrightarrow> cp_new_root p = vc_root_hash v' \<Longrightarrow>
    consistency_verify (ne_log ne) p = Ok True \<Longrightarrow>
    checkpoint_update ne cl (Some v) (Some v')"

inductive_cases checkpoint_updateE: "checkpoint_update ne cl a b"

abbreviation updates :: "net_env \<Rightarrow> tclient \<Rightarrow> tstate \<Rightarrow> tstate \<Rightarrow> bool" where
  "updates ne cl s t \<equiv> (checkpoint_update ne cl)\<^sup>*\<^sup>* (last_verified s) (last_verified t)"

abbreviation same_checkpoint :: "tstate \<Rightarrow> tstate \<Rightarrow> bool" where
  "same_checkpoint s t \<equiv> last_verified t = last_verified s"

lemma refl_same [simp]: "reflp same_checkpoint"
  and trans_same [simp]: "transp same_checkpoint"
  and refl_updates [simp]: "reflp (updates ne cl)"
  and trans_updates [simp]: "transp (updates ne cl)"
  by (auto intro!: reflpI transpI)

lemma preserves_weaken: "preserves same_checkpoint m \<Longrightarrow> preserves (updates ne cl) m"
  by (auto simp: preserves_def)

subsection \<open>Actions that leave the checkpoint alone\<close>

lemma utc_now_same [preserves_intros]: "preserves same_checkpoint (utc_now ne)"
  by (auto simp: preserves_def utc_now_def)

lemma http_post_same [preserves_intros]: "preserves same_checkpoint (http_post ne url body)"
  by (auto simp: preserves_def http_post_def)

lemma send_same [preserves_intros]: "preserves same_checkpoint (send_transparency_request ne cl ep rq)"
  unfolding send_transparency_request_def Let_def by (intro preserves_intros refl_same trans_same)

lemma fresh_same [preserves_intros]: "preserves same_checkpoint (checkpoint_is_fresh ne cl vc)"
  unfolding checkpoint_is_fresh_def Let_def by (intro preserves_intros refl_same trans_same)

lemma consistency_same [preserves_intros]: "preserves same_checkpoint (verify_consistency ne cl a b c d)"
  unfolding verify_consistency_def by (intro preserves_intros refl_same trans_same)

lemma fetch_same [preserves_intros]: "preserves same_checkpoint (fetch_checkpoint ne cl)"
  unfolding fetch_checkpoint_def Let_def by (intro preserves_intros refl_same trans_same)

lemma check_same [preserves_intros]: "preserves same_checkpoint (check_against_previous ne cl prev cand)"
  unfolding check_against_previous_def Let_def
  by (cases prev) (auto intro!: preserves_intros)

lemma validate_same [preserves_intros]:
  "preserves same_checkpoint (\<lambda>s. (s, validate_inclusion_proof (last_verified s) proof))"
  by (auto simp: preserves_def)

subsection \<open>Fetching a checkpoint\<close>

lemma send_served:
  assumes "send_transparency_request ne cl ep rq s = (t, Ok b)"
  shows "b \<in> served ne"
proof -
  let ?url = "trim_end_matches (CHR ''/'') (tcl_log_url cl) @ ''/'' @ trim_start_matches (CHR ''/'') ep"
  obtain body where body: "json_request ne rq = Ok body"
    using assms by (auto simp: send_transparency_request_def Let_def action_simps result_simps)
  show ?thesis
  proof (cases "ne_http ne (requests_made s) ?url body")
    case (Response status st tx bb)
    with assms body have "bb = Ok b"
      by (simp add: send_transparency_request_def Let_def action_simps result_simps http_post_def split: if_splits)
    with Response show ?thesis
      unfolding served_def by blast
  qed (use assms body in \<open>simp_all add: send_transparency_request_def Let_def action_simps http_post_def\<close>)
qed

lemma verify_consistency_Ok:
  assumes "verify_consistency ne cl m n a b s = (t, Ok u)" "is_enabled cl" "m < n"
  obtains p where "p \<in> served_proofs ne" "cp_old_size p = m" "cp_new_size p = n" "cp_old_root p = a" "cp_new_root p = b"
    "consistency_verify (ne_log ne) p = Ok True"
proof -
  from assms(3) have "\<not> n < m" "m \<noteq> n" by auto
  with assms(1,2) obtain b' p where "send_transparency_request ne cl ''consistency_proof'' (ConsistencyProofRequest m n) s = (t, Ok b')"
      "parse_consistency ne b' = Ok p" "cp_old_size p = m" "cp_new_size p = n" "cp_old_root p = a" "cp_new_root p = b"
      "consistency_verify (ne_log ne) p = Ok True"
    by (auto simp: verify_consistency_def action_simps result_simps)
  then show thesis
    by (intro that [of p]) (auto simp: served_proofs_def dest: send_served)
qed

lemma verify_signature_Ok:
  assumes "verify_signature env c vk = Ok ()" "root_hash_bytes env c = Ok root"
  shows "\<exists>signature. checkpoint_signature env c = Ok signature \<and>
    ((\<exists>payload. signing_payload env c = Ok payload \<and> dalek_verify (env_ed env) vk payload signature = Ok ()) \<or>
     dalek_verify (env_ed env) vk root signature = Ok ())"
  using assms by (auto simp: verify_signature_def vk_verify_def is_ok_iff result_simps split: if_splits)

lemma fetch_checkpoint_authentic:
  assumes "fetch_checkpoint ne cl s = (t, Ok cand)"
  shows "authentic ne cl (cand\<lparr>vc_verified_at := now\<rparr>)"
proof -
  let ?c = "vc_checkpoint cand"
  have "?c \<in> served_checkpoints ne" "ck_signing_key_id ?c = Some (vc_signing_key_id cand)"
    and root: "root_hash_bytes (ne_log ne) ?c = Ok (vc_root_hash cand)" and "generated_at (ne_log ne) ?c = Ok (vc_generated_at cand)"
    and vk: "\<exists>vk. tcl_trusted_keys cl (vc_signing_key_id cand) = Some vk \<and> verify_signature (ne_log ne) ?c vk = Ok ()"
    using assms by (auto simp: fetch_checkpoint_def Let_def action_simps result_simps signing_key_id_def
        served_checkpoints_def dest!: send_served)
  moreover from vk verify_signature_Ok [OF _ root] have "\<exists>vk signature. tcl_trusted_keys cl (vc_signing_key_id cand) = Some vk \<and>
      checkpoint_signature (ne_log ne) ?c = Ok signature \<and>
      ((\<exists>payload. signing_payload (ne_log ne) ?c = Ok payload \<and> dalek_verify (env_ed (ne_log ne)) vk payload signature = Ok ()) \<or>
       dalek_verify (env_ed (ne_log ne)) vk (vc_root_hash cand) signature = Ok ())" by blast
  ultimately show ?thesis by (simp add: authentic_def)
qed

lemma check_against_previous_update:
  assumes "check_against_previous ne cl prev cand s = (t, Ok u)" "is_enabled cl"
    and auth: "authentic ne cl (cand\<lparr>vc_verified_at := now\<rparr>)"
  shows "checkpoint_update ne cl prev (Some (cand\<lparr>vc_verified_at := now\<rparr>))"
proof (cases prev)
  case None
  with auth show ?thesis by (auto intro: checkpoint_update.first)
next
  case (Some v)
  show ?thesis
  proof (cases "vc_size cand = vc_size v")
    case True
    with assms(1) Some auth show ?thesis
      by (auto simp: check_against_previous_def action_simps result_simps intro!: checkpoint_update.again)
  next
    case False
    with assms(1) Some have lt: "vc_size v < vc_size cand"
      and vc: "verify_consistency ne cl (vc_size v) (vc_size cand) (vc_root_hash v) (vc_root_hash cand) s = (t, Ok u)"
      by (auto simp: check_against_previous_def Let_def action_simps split: if_splits)
    obtain p where "p \<in> served_proofs ne" "cp_old_size p = vc_size v" "cp_new_size p = vc_size cand" "cp_old_root p = vc_root_hash v"
        "cp_new_root p = vc_root_hash cand" "consistency_verify (ne_log ne) p = Ok True"
      by (rule verify_consistency_Ok [OF vc assms(2) lt])
    then show ?thesis
      unfolding Some using lt auth by (intro checkpoint_update.grow) auto
  qed
qed

lemma store_checkpoint_result:
  assumes "store_checkpoint ne cl cand s = (t, r)"
  shows "last_verified t = last_verified s \<or> (\<exists>now. last_verified t = Some (cand\<lparr>vc_verified_at := now\<rparr>))"
  using assms preservesD [OF fresh_same]
  by (fastforce simp: store_checkpoint_def Let_def sbind_def sgets_def sres_def utc_now_def
      split: option.splits if_splits prod.splits result.splits)

lemma fetch_and_store_updates [preserves_intros]: "preserves (updates ne cl) (fetch_and_store_checkpoint ne cl)"
  unfolding preserves_def
proof (intro allI impI)
  fix s t r
  assume run: "fetch_and_store_checkpoint ne cl s = (t, r)"
  show "updates ne cl s t"
  proof (cases "\<exists>u cand w x. is_enabled cl \<and> fetch_checkpoint ne cl s = (u, Ok cand) \<and>
      check_against_previous ne cl (last_verified u) cand u = (w, Ok x)")
    case True
    then obtain u cand w x where en: "is_enabled cl" and f: "fetch_checkpoint ne cl s = (u, Ok cand)"
      and c: "check_against_previous ne cl (last_verified u) cand u = (w, Ok x)" by blast
    then have "store_checkpoint ne cl cand w = (t, r)"
      using run by (simp add: fetch_and_store_checkpoint_def sbind_def sgets_def)
    moreover have "last_verified u = last_verified s" "last_verified w = last_verified u"
      using preservesD [OF fetch_same f] preservesD [OF check_same c] by simp_all
    ultimately show ?thesis
      using store_checkpoint_result check_against_previous_update [OF c en fetch_checkpoint_authentic [OF f]]
      by fastforce
  next
    case False
    then have "last_verified t = last_verified s"
      using run preservesD [OF fetch_same] preservesD [OF check_same]
      by (fastforce simp: fetch_and_store_checkpoint_def sbind_def sgets_def sres_def
          split: if_splits prod.splits result.splits)
    then show ?thesis by simp
  qed
qed

subsection \<open>Runs of the client\<close>

lemmas update_intros = refl_updates trans_updates
  preserves_weaken [OF send_same] preserves_weaken [OF fresh_same] preserves_weaken [OF validate_same]
  preserves_weaken [OF consistency_same]

lemma ensure_updates [preserves_intros]: "preserves (updates ne cl) (ensure_verified_state ne cl)"
proof -
  have "preserves (updates ne cl)
      (case lv of Some vc \<Rightarrow> sbind (checkpoint_is_fresh ne cl vc) (\<lambda>fresh. sres (Ok (\<not> fresh))) | None \<Rightarrow> sres (Ok True))" for lv
    by (cases lv) (simp_all, (intro preserves_intros update_intros)+)
  then show ?thesis
    unfolding ensure_verified_state_def by (intro preserves_intros update_intros)
qed

lemma request_updates [preserves_intros]: "preserves (updates ne cl) (request_inclusion_proof ne cl h)"
  unfolding request_inclusion_proof_def by (intro preserves_intros update_intros)

lemma get_inclusion_updates [preserves_intros]: "preserves (updates ne cl) (get_inclusion_proof ne cl h)"
  unfolding get_inclusion_proof_def by (intro preserves_intros update_intros)

lemma latest_updates [preserves_intros]: "preserves (updates ne cl) (get_latest_checkpoint ne cl)"
  unfolding get_latest_checkpoint_def by (intro preserves_intros update_intros)

lemma entry_inclusion_updates [preserves_intros]: "preserves (updates ne cl) (verify_entry_inclusion ne cl e)"
  unfolding verify_entry_inclusion_def by (intro preserves_intros update_intros)

lemma submit_updates [preserves_intros]: "preserves (updates ne cl) (submit_entry ne cl e)"
  unfolding submit_entry_def by (intro preserves_intros update_intros)

lemma join_card_updates [preserves_intros]: "preserves (updates ne cl) (verify_join_card_logged ne cl h)"
  unfolding verify_join_card_logged_def by (intro preserves_intros update_intros)

lemma log_consistency_updates [preserves_intros]: "preserves (updates ne cl) (verify_log_consistency ne cl)"
  unfolding verify_log_consistency_def by (intro preserves_intros update_intros)

text \<open>The public operations, and a run of the client over a sequence of them.\<close>

datatype tclient_op =
    GetInclusionProof bytes
  | VerifyConsistency u64 u64 bytes bytes
  | GetLatestCheckpoint
  | VerifyEntryInclusion transparency_entry
  | SubmitEntryOp transparency_entry
  | VerifyJoinCardLogged bytes
  | VerifyLogConsistency
  | GetCheckpoint

fun tclient_step :: "net_env \<Rightarrow> tclient \<Rightarrow> tclient_op \<Rightarrow> tstate \<Rightarrow> tstate" where
  "tclient_step ne cl (GetInclusionProof h) s = fst (get_inclusion_proof ne cl h s)"
| "tclient_step ne cl (VerifyConsistency m n a b) s = fst (verify_consistency ne cl m n a b s)"
| "tclient_step ne cl GetLatestCheckpoint s = fst (get_latest_checkpoint ne cl s)"
| "tclient_step ne cl (VerifyEntryInclusion e) s = fst (verify_entry_inclusion ne cl e s)"
| "tclient_step ne cl (SubmitEntryOp e) s = fst (submit_entry ne cl e s)"
| "tclient_step ne cl (VerifyJoinCardLogged h) s = fst (verify_join_card_logged ne cl h s)"
| "tclient_step ne cl VerifyLogConsistency s = fst (verify_log_consistency ne cl s)"
| "tclient_step ne cl GetCheckpoint s = fst (get_checkpoint ne cl s)"

definition tclient_run :: "net_env \<Rightarrow> tclient \<Rightarrow> tclient_op list \<Rightarrow> tstate \<Rightarrow> tstate" where
  "tclient_run ne cl ops s = fold (tclient_step ne cl) ops s"

lemma preserves_fst: "preserves Q m \<Longrightarrow> Q s (fst (m s))"
  by (cases "m s") (auto dest: preservesD)

lemma step_updates: "updates ne cl s (tclient_step ne cl op s)"
  by (cases op; simp only: tclient_step.simps get_checkpoint_def;
      intro preserves_fst [where Q = "updates ne cl"] preserves_intros update_intros)

lemma run_updates: "updates ne cl s (tclient_run ne cl ops s)"
proof (induction ops arbitrary: s)
  case Nil
  then show ?case by (simp add: tclient_run_def)
next
  case (Cons op ops)
  from rtranclp_trans [OF step_updates Cons.IH] show ?case
    by (simp add: tclient_run_def)
qed

text \<open>The invariant of the trust state.\<close>

definition trust_inv :: "net_env \<Rightarrow> tclient \<Rightarrow> verified_checkpoint option \<Rightarrow> bool" where
  "trust_inv ne cl lv \<longleftrightarrow> (\<forall>v. lv = Some v \<longrightarrow> authentic ne cl v)"

interpretation trust: invariant_system "\<lambda>lv. lv = None" "checkpoint_update ne cl" "trust_inv ne cl" for ne cl
proof unfold_locales
  show "trust_inv ne cl lv" if "lv = None" for lv
    using that by (simp add: trust_inv_def)
  show "trust_inv ne cl lv'" if "checkpoint_update ne cl lv lv'" for lv lv'
    using that by (cases rule: checkpoint_update.cases) (auto simp: trust_inv_def)
qed

lemma updates_size:
  assumes "(checkpoint_update ne cl)\<^sup>*\<^sup>* a b" "a = Some v"
  shows "\<exists>v'. b = Some v' \<and> vc_size v \<le> vc_size v' \<and> (vc_size v' = vc_size v \<longrightarrow> vc_root_hash v' = vc_root_hash v)"
  using assms
proof (induction rule: rtranclp_induct)
  case base
  then show ?case by simp
next
  case (step b c)
  then obtain w where w: "b = Some w" "vc_size v \<le> vc_size w" "vc_size w = vc_size v \<longrightarrow> vc_root_hash w = vc_root_hash v"
    by blast
  from step.hyps(2) w(1) show ?case
    by (cases rule: checkpoint_update.cases) (use w in auto)
qed

subsection \<open>The log behind the checkpoints\<close>

text \<open>
  A signer that signs only real logs (possibly different ones for different clients): every checkpoint
  the server answers with carries the size and the root of some log.
\<close>

definition real_logs :: "net_env \<Rightarrow> (checkpoint \<Rightarrow> transparency_entry list) \<Rightarrow> bool" where
  "real_logs ne log_of \<longleftrightarrow>
     (\<forall>c \<in> served_checkpoints ne. unat (ck_tree_size c) = length (log_of c) \<and>
        (\<forall>r. root_hash_bytes (ne_log ne) c = Ok r \<longrightarrow> r = log_root (ne_log ne) (log_of c)))"

text \<open>No collision among what is hashed for the served checkpoints and consistency proofs.\<close>

definition run_msgs :: "net_env \<Rightarrow> (checkpoint \<Rightarrow> transparency_entry list) \<Rightarrow> bytes set" where
  "run_msgs ne log_of =
     (\<Union>c \<in> served_checkpoints ne. set (log_msgs (ne_log ne) (log_of c))) \<union>
     (\<Union>p \<in> served_proofs ne. set (consistency_msgs (ne_log ne) p))"

definition collision_free :: "net_env \<Rightarrow> (checkpoint \<Rightarrow> transparency_entry list) \<Rightarrow> bool" where
  "collision_free ne log_of \<longleftrightarrow>
     inj_on (env_sha (ne_log ne)) (run_msgs ne log_of) \<and>
     inj_on (json_entry (ne_log ne)) (\<Union>c \<in> served_checkpoints ne. set (log_of c))"

definition proofs_wf :: "net_env \<Rightarrow> bool" where
  "proofs_wf ne \<longleftrightarrow> (\<forall>p \<in> served_proofs ne. list_all (\<lambda>h. length h = 32) (cp_proof_path p))"

lemma update_append_only:
  assumes "sha256_len (env_sha (ne_log ne))" "real_logs ne log_of" "collision_free ne log_of" "proofs_wf ne"
    and "authentic ne cl v" "checkpoint_update ne cl (Some v) (Some v')"
  shows "\<exists>ext. log_of (vc_checkpoint v') = log_of (vc_checkpoint v) @ ext"
proof -
  let ?c = "vc_checkpoint v" and ?c' = "vc_checkpoint v'" and ?env = "ne_log ne"
  from assms(6) have "authentic ne cl v'"
    by (cases rule: checkpoint_update.cases)
  with assms(2,5) have log: "unat (ck_tree_size ?c) = length (log_of ?c)" "vc_root_hash v = log_root ?env (log_of ?c)"
      "unat (ck_tree_size ?c') = length (log_of ?c')" "vc_root_hash v' = log_root ?env (log_of ?c')"
    and srv: "?c \<in> served_checkpoints ne" "?c' \<in> served_checkpoints ne"
    by (auto simp: real_logs_def authentic_def)
  have json: "inj_on (json_entry ?env) (set (log_of ?c @ log_of ?c'))"
    by (rule inj_on_subset [of _ "\<Union>c \<in> served_checkpoints ne. set (log_of c)"])
      (use assms(3) srv in \<open>auto simp: collision_free_def\<close>)
  from assms(6) show ?thesis
  proof (cases rule: checkpoint_update.cases)
    case again
    have "inj_on (env_sha ?env) (set (log_msgs ?env (log_of ?c) @ log_msgs ?env (log_of ?c')))"
      by (rule inj_on_subset [of _ "run_msgs ne log_of"]) (use assms(3) srv in \<open>auto simp: collision_free_def run_msgs_def\<close>)
    then have "log_of ?c = log_of ?c'"
      by (rule log_root_binding [OF assms(1) _ json]) (use again log in auto)
    then show ?thesis by simp
  next
    case (grow p)
    have "inj_on (env_sha ?env)
        (set (log_msgs ?env (log_of ?c) @ log_msgs ?env (log_of ?c') @ consistency_msgs ?env p))"
      by (rule inj_on_subset [of _ "run_msgs ne log_of"])
        (use assms(3) srv grow in \<open>auto simp: collision_free_def run_msgs_def\<close>)
    then have "length (log_of ?c) \<le> length (log_of ?c') \<and> log_of ?c = take (length (log_of ?c)) (log_of ?c')"
      by (rule consistency_extends [OF assms(1), rotated]) (use json grow log assms(4) in \<open>simp_all add: proofs_wf_def\<close>)
    then show ?thesis
      by (metis append_take_drop_id)
  qed
qed

lemma updates_append_only:
  assumes "sha256_len (env_sha (ne_log ne))" "real_logs ne log_of" "collision_free ne log_of" "proofs_wf ne"
    and "(checkpoint_update ne cl)\<^sup>*\<^sup>* a b" "a = Some v" "authentic ne cl v"
  shows "\<exists>v' ext. b = Some v' \<and> authentic ne cl v' \<and> log_of (vc_checkpoint v') = log_of (vc_checkpoint v) @ ext"
  using assms(5-7)
proof (induction rule: rtranclp_induct)
  case base
  then show ?case by simp
next
  case (step b c)
  then obtain w ext where w: "b = Some w" "authentic ne cl w" "log_of (vc_checkpoint w) = log_of (vc_checkpoint v) @ ext"
    by blast
  from step.hyps(2) w(1) obtain v' where v': "c = Some v'" "authentic ne cl v'"
    by (auto elim: checkpoint_update.cases)
  with update_append_only [OF assms(1-4) w(2)] step.hyps(2) w(1,3) show ?case
    by auto
qed

subsection \<open>Inclusion proofs\<close>

definition served_inclusions :: "net_env \<Rightarrow> log_inclusion_proof set" where
  "served_inclusions ne = {p. \<exists>b \<in> served ne. parse_inclusion ne b = Ok p}"

text \<open>No collision among what is hashed for a log and for each served inclusion proof.\<close>

definition inclusion_collision_free :: "net_env \<Rightarrow> transparency_entry list \<Rightarrow> bool" where
  "inclusion_collision_free ne es \<longleftrightarrow>
     (\<forall>p \<in> served_inclusions ne. list_all (\<lambda>h. length h = 32) (ip_proof_path p) \<and>
        inj_on (env_sha (ne_log ne)) (set (log_msgs (ne_log ne) es @ inclusion_msgs (ne_log ne) p)) \<and>
        inj_on (json_entry (ne_log ne)) (set (ip_entry p # es)))"

lemma request_inclusion_proof_Ok:
  assumes "request_inclusion_proof ne cl h s = (t, Ok ipr)"
  shows "ipr \<in> served_inclusions ne \<and> inclusion_verify (ne_log ne) ipr = Ok True \<and>
    (entry_hash (ne_log ne) (ip_entry ipr) = h \<or> te_join_card_hash (ip_entry ipr) = h)"
  using assms
  by (auto simp: request_inclusion_proof_def action_simps result_simps served_inclusions_def dest!: send_served)

lemma get_inclusion_proof_Ok:
  assumes "get_inclusion_proof ne cl h s = (t, Ok ipr)"
  shows "ipr \<in> served_inclusions ne \<and> inclusion_verify (ne_log ne) ipr = Ok True \<and>
    (entry_hash (ne_log ne) (ip_entry ipr) = h \<or> te_join_card_hash (ip_entry ipr) = h) \<and>
    validate_inclusion_proof (last_verified t) ipr = Ok ()"
  using assms
  by (auto simp: get_inclusion_proof_def action_simps dest!: request_inclusion_proof_Ok split: if_splits)

lemma validate_inclusion_proof_Ok:
  "validate_inclusion_proof lv ipr = Ok () \<longleftrightarrow>
     ip_leaf_index ipr < ip_log_size ipr \<and> te_sequence_number (ip_entry ipr) \<le> ip_log_size ipr \<and>
     (\<exists>v. lv = Some v \<and> ip_log_root ipr = vc_root_hash v \<and> ip_log_size ipr = vc_size v)"
  by (auto simp: validate_inclusion_proof_def result_simps not_le not_less)

lemma get_inclusion_proof_checkpoint:
  assumes "get_inclusion_proof ne cl h s = (t, Ok ipr)"
  obtains v where "last_verified t = Some v" "ip_log_root ipr = vc_root_hash v" "ip_log_size ipr = vc_size v"
    "ipr \<in> served_inclusions ne" "inclusion_verify (ne_log ne) ipr = Ok True"
    "entry_hash (ne_log ne) (ip_entry ipr) = h \<or> te_join_card_hash (ip_entry ipr) = h"
  using get_inclusion_proof_Ok [OF assms] by (auto simp: validate_inclusion_proof_Ok intro: that)

lemma verify_join_card_logged_True:
  assumes "verify_join_card_logged ne cl h s = (t, Ok True)" "is_enabled cl" "\<not> tc_fallback_to_pinning (tcl_config cl)"
  shows "\<exists>u ipr. get_inclusion_proof ne cl h u = (t, Ok ipr)"
  using assms by (auto simp: verify_join_card_logged_def action_simps should_fallback_def)

subsection \<open>Properties of the client\<close>

text \<open>
  C16. The client refines the specification of its trust state: whatever the server answers, a run of
  public operations changes the stored checkpoint only by the steps of \<open>checkpoint_update\<close>.
\<close>

theorem client_refines_update_spec:
  "(checkpoint_update ne cl)\<^sup>*\<^sup>* (last_verified s) (last_verified (tclient_run ne cl ops s))"
  by (rule run_updates)

text \<open>
  C26. From a new client on, whatever the server answers, the stored checkpoint is one the server sent, with
  the stored root and time decoded from it, and its signature verifies under the trusted key configured for
  the identifier it names: over its whole payload, or over its root alone. A signature of the second kind
  leaves size and time open to the server.
\<close>

theorem stored_checkpoint_authentic:
  assumes "last_verified (tclient_run ne cl ops tstate_new) = Some v"
  shows "authentic ne cl v"
proof -
  have "trust_inv ne cl (last_verified (tclient_run ne cl ops tstate_new))"
    by (rule trust.invar_reachable [OF _ run_updates]) (simp add: tstate_new_def)
  with assms show ?thesis by (simp add: trust_inv_def)
qed

text \<open>
  No rollback: across any run of operations the stored tree size never decreases, a checkpoint is
  never dropped, and an unchanged size keeps its root.
\<close>

theorem checkpoint_never_rolls_back:
  assumes "last_verified s = Some v"
  shows "\<exists>v'. last_verified (tclient_run ne cl ops s) = Some v' \<and> ck_tree_size (vc_checkpoint v) \<le> ck_tree_size (vc_checkpoint v') \<and>
    (ck_tree_size (vc_checkpoint v') = ck_tree_size (vc_checkpoint v) \<longrightarrow> vc_root_hash v' = vc_root_hash v)"
  using updates_size [OF run_updates] assms by blast

text \<open>
  C7. The log is append-only for the client. Suppose the checkpoints served carry sizes and roots of
  real logs (the signer may still show different logs to different clients) and SHA-256 has no
  collision among the messages of these logs and of the served proofs. Then in any run of a new
  client, the log behind the checkpoint stored at the end extends the one behind the checkpoint stored
  at any earlier point.
\<close>

theorem client_log_append_only:
  assumes "sha256_len (env_sha (ne_log ne))" "real_logs ne log_of" "collision_free ne log_of" "proofs_wf ne"
    and v: "last_verified (tclient_run ne cl ops tstate_new) = Some v"
  shows "\<exists>v' ext. last_verified (tclient_run ne cl (ops @ ops') tstate_new) = Some v' \<and>
    log_of (vc_checkpoint v') = log_of (vc_checkpoint v) @ ext"
proof -
  have "trust_inv ne cl (last_verified (tclient_run ne cl ops tstate_new))"
    by (rule trust.invar_reachable [OF _ run_updates]) (simp add: tstate_new_def)
  with v have "authentic ne cl v" by (simp add: trust_inv_def)
  moreover have "tclient_run ne cl (ops @ ops') tstate_new = tclient_run ne cl ops' (tclient_run ne cl ops tstate_new)"
    by (simp add: tclient_run_def)
  ultimately show ?thesis
    using updates_append_only [OF assms(1-4) run_updates v, of _ ops'] by auto
qed

text \<open>
  C17. A join card reported as logged really is, on an enabled client with pinning fallback off: if
  \<open>verify_join_card_logged\<close> answers true there, and the checkpoint that is then stored is for a log of that
  size (less than \<open>2 ^ 64 - 1\<close> entries) and root whose hashes do not collide, this log contains an entry for the
  queried hash (its own hash, or the join card hash it carries). A disabled client answers true without a log.
\<close>

theorem logged_join_card_in_log:
  assumes "sha256_len (env_sha (ne_log ne))"
    and "verify_join_card_logged ne cl h s = (t, Ok True)" "is_enabled cl" "\<not> tc_fallback_to_pinning (tcl_config cl)"
    and v: "last_verified t = Some v" "unat (ck_tree_size (vc_checkpoint v)) = length es" "length es < 2 ^ 64 - 1"
      "vc_root_hash v = log_root (ne_log ne) es"
    and "inclusion_collision_free ne es"
  shows "\<exists>e \<in> set es. entry_hash (ne_log ne) e = h \<or> te_join_card_hash e = h"
proof -
  obtain u ipr where "get_inclusion_proof ne cl h u = (t, Ok ipr)"
    using verify_join_card_logged_True [OF assms(2-4)] by blast
  then obtain v' where v': "last_verified t = Some v'" "ip_log_root ipr = vc_root_hash v'" "ip_log_size ipr = vc_size v'"
      and ok: "ipr \<in> served_inclusions ne" "inclusion_verify (ne_log ne) ipr = Ok True"
      and h: "entry_hash (ne_log ne) (ip_entry ipr) = h \<or> te_join_card_hash (ip_entry ipr) = h"
    by (rule get_inclusion_proof_checkpoint)
  with v have "unat (ip_leaf_index ipr) < length es \<and> es ! unat (ip_leaf_index ipr) = ip_entry ipr"
    using assms(9) ok by (intro inclusion_at_index [OF assms(1)]) (auto simp: inclusion_collision_free_def)
  then have "ip_entry ipr \<in> set es"
    by (metis nth_mem)
  with h show ?thesis by blast
qed

subsection \<open>Concurrent fetches\<close>

text \<open>
  The client is cloned across tasks, and \<open>fetch_and_store_checkpoint\<close> takes the lock twice: once to
  read the previous checkpoint it verifies against, once to store. \<open>conc_step\<close> interleaves fetches at
  these two points; the list holds the candidates verified and not yet stored.
\<close>

inductive conc_step ::
  "net_env \<Rightarrow> tclient \<Rightarrow> tstate \<times> verified_checkpoint list \<Rightarrow> tstate \<times> verified_checkpoint list \<Rightarrow> bool"
  for ne cl where
  verified: "fetch_checkpoint ne cl s = (u, Ok cand) \<Longrightarrow>
    check_against_previous ne cl (last_verified u) cand u = (w, Ok x) \<Longrightarrow>
    conc_step ne cl (s, pending) (w, cand # pending)"
| stored: "cand \<in> set pending \<Longrightarrow> store_checkpoint ne cl cand s = (t, r) \<Longrightarrow>
    conc_step ne cl (s, pending) (t, remove1 cand pending)"

lemma store_checkpoint_size:
  assumes "store_checkpoint ne cl cand s = (t, r)" "last_verified s = Some v"
  shows "\<exists>v'. last_verified t = Some v' \<and> vc_size v \<le> vc_size v'"
proof (cases "vc_size cand < vc_size v")
  case True
  with assms have "t = s"
    by (simp add: store_checkpoint_def Let_def sbind_def sgets_def sres_def)
  with assms(2) show ?thesis by simp
next
  case False
  with store_checkpoint_result [OF assms(1)] assms(2) show ?thesis
    by (auto simp: not_less)
qed

definition holds_size :: "u64 \<Rightarrow> tstate \<times> verified_checkpoint list \<Rightarrow> bool" where
  "holds_size n c \<longleftrightarrow> (\<exists>v. last_verified (fst c) = Some v \<and> n \<le> vc_size v)"

interpretation conc: invariant_system "holds_size n" "conc_step ne cl" "holds_size n" for n ne cl
proof unfold_locales
  fix c d
  assume "holds_size n c" and step: "conc_step ne cl c d"
  then obtain w where w: "last_verified (fst c) = Some w" "n \<le> vc_size w"
    by (auto simp: holds_size_def)
  from step show "holds_size n d"
  proof (cases rule: conc_step.cases)
    case (verified s u cand w' x pending)
    then have "last_verified w' = last_verified s"
      using preservesD [OF fetch_same verified(3)] preservesD [OF check_same verified(4)] by simp
    with w verified show ?thesis by (simp add: holds_size_def)
  next
    case (stored cand pending s t r)
    with store_checkpoint_size [OF stored(4)] w show ?thesis
      by (auto simp: holds_size_def intro: order_trans)
  qed
qed

text \<open>
  Also with concurrent fetches the stored tree size never decreases and a stored checkpoint is
  never dropped: the store re-checks the size under the lock.
\<close>

theorem concurrent_size_monotone:
  assumes "(conc_step ne cl)\<^sup>*\<^sup>* (s, pending) (t, pending')" "last_verified s = Some v"
  shows "\<exists>v'. last_verified t = Some v' \<and> ck_tree_size (vc_checkpoint v) \<le> ck_tree_size (vc_checkpoint v')"
  using conc.invar_reachable [OF _ assms(1), of "vc_size v"] assms(2) by (simp add: holds_size_def)

subsection \<open>Examples\<close>

definition sample_checkpoint_for :: "nat \<Rightarrow> nat \<Rightarrow> checkpoint" where
  "sample_checkpoint_for root n =
     \<lparr>ck_version = 1, ck_generated_at = ''2025'', ck_log_url = None, ck_signing_key_id = Some ''k1'',
      ck_tree_size = of_nat n, ck_root_hash = replicate root (CHR ''r''), ck_entries = [],
      ck_signature = Some (replicate n (CHR ''s''))\<rparr>"

definition sample_checkpoint :: "nat \<Rightarrow> checkpoint" where
  "sample_checkpoint n = sample_checkpoint_for n n"

definition sample_client :: tclient where
  "sample_client =
     \<lparr>tcl_log_url = ''https://log'',
      tcl_config = transparency_config_default
        \<lparr>tc_enabled := True, tc_fallback_to_pinning := False, tc_max_checkpoint_age_seconds := 0\<rparr>,
      tcl_feature_enabled = True, tcl_trusted_keys = [''k1'' \<mapsto> sample_key]\<rparr>"

definition sample_inclusion4 :: log_inclusion_proof where
  "sample_inclusion4 =
     (let h = (\<lambda>i. entry_hash sample_env (sample_entry i)) in
      \<lparr>ip_entry = sample_entry 1, ip_leaf_index = 1,
       ip_proof_path = [h 0, log_hash_internal sample_sha (h 2) (h 3)], ip_log_size = 4,
       ip_log_root = log_root sample_env (sample_log 4)\<rparr>)"

text \<open>A server that answers its requests in order: two checkpoints, a consistency and an inclusion proof.\<close>

definition sample_net :: net_env where
  "sample_net =
     \<lparr>ne_log = sample_env, ne_now = (\<lambda>_. 0), ne_http = (\<lambda>n _ _. Response 200 ''200 OK'' (Ok []) (Ok [of_nat n])),
      json_request = (\<lambda>_. Ok []),
      parse_inclusion = (\<lambda>b. if b = [3] then Ok sample_inclusion4 else Err []),
      parse_consistency = (\<lambda>b. if b = [2] then Ok sample_consistency else Err []),
      parse_checkpoint = (\<lambda>b. if b = [0] then Ok (sample_checkpoint 3)
                               else if b = [1] then Ok (sample_checkpoint 4) else Err []),
      parse_sequence_number = (\<lambda>_. Ok 1)\<rparr>"

definition sample_verified :: "nat \<Rightarrow> verified_checkpoint" where
  "sample_verified n =
     \<lparr>vc_checkpoint = sample_checkpoint n, vc_root_hash = log_root sample_env (sample_log n),
      vc_signing_key_id = ''k1'', vc_generated_at = 4, vc_verified_at = 0\<rparr>"

definition sample_log_of :: "checkpoint \<Rightarrow> transparency_entry list" where
  "sample_log_of c = sample_log (unat (ck_tree_size c))"

lemma sample_net_sha: "sha256_len (env_sha (ne_log sample_net))"
  using sample_env_sha by (simp add: sample_net_def)

lemma sample_served:
  "served_checkpoints sample_net \<subseteq> {sample_checkpoint 3, sample_checkpoint 4}"
  "served_proofs sample_net \<subseteq> {sample_consistency}"
  "served_inclusions sample_net \<subseteq> {sample_inclusion4}"
  by (auto simp: served_checkpoints_def served_proofs_def served_inclusions_def sample_net_def split: if_splits)

lemma sample_log_of_served:
  "sample_log_of (sample_checkpoint 3) = sample_log 3" "sample_log_of (sample_checkpoint 4) = sample_log 4"
  by (simp_all add: sample_log_of_def sample_checkpoint_def sample_checkpoint_for_def)

lemma sample_real_logs: "real_logs sample_net sample_log_of"
proof -
  have "root_hash_bytes sample_env (sample_checkpoint 3) = Ok (log_root sample_env (sample_log 3))"
    "root_hash_bytes sample_env (sample_checkpoint 4) = Ok (log_root sample_env (sample_log 4))"
    by code_simp+
  then show ?thesis
    using sample_served(1) sample_log_of_served
    by (auto simp: real_logs_def sample_net_def sample_checkpoint_def sample_checkpoint_for_def sample_log_def)
qed

lemma sample_collision_free: "collision_free sample_net sample_log_of"
  unfolding collision_free_def
proof
  let ?env = "ne_log sample_net"
  let ?ms = "log_msgs sample_env (sample_log 3) @ log_msgs sample_env (sample_log 4) @ consistency_msgs sample_env sample_consistency"
  have env: "ne_log sample_net = sample_env"
    by (simp add: sample_net_def)
  have "inj_on (env_sha sample_env) (set ?ms)"
    by (rule inj_on_setI) code_simp
  then show "inj_on (env_sha ?env) (run_msgs sample_net sample_log_of)"
    unfolding env
    by (rule inj_on_subset) (use sample_served(1,2) sample_log_of_served in \<open>force simp: run_msgs_def env\<close>)
  have "inj_on (json_entry sample_env) (set (sample_log 3 @ sample_log 4))"
    by (rule inj_on_setI) code_simp
  then show "inj_on (json_entry ?env) (\<Union>c \<in> served_checkpoints sample_net. set (sample_log_of c))"
    unfolding env by (rule inj_on_subset) (use sample_served(1) sample_log_of_served in force)
qed

lemma sample_proofs_wf: "proofs_wf sample_net"
proof -
  have "list_all (\<lambda>h. length h = 32) (cp_proof_path sample_consistency)"
    by code_simp
  with sample_served(2) show ?thesis by (auto simp: proofs_wf_def)
qed

lemma sample_first_checkpoint:
  "last_verified (tclient_run sample_net sample_client [GetLatestCheckpoint] tstate_new) = Some (sample_verified 3)"
  by code_simp

theorem stored_checkpoint_authentic_witness: "authentic sample_net sample_client (sample_verified 3)"
  by (rule stored_checkpoint_authentic [OF sample_first_checkpoint])

theorem checkpoint_never_rolls_back_witness:
  "\<exists>v'. last_verified (tclient_run sample_net sample_client [GetInclusionProof [7]]
       (tclient_run sample_net sample_client [GetLatestCheckpoint] tstate_new)) = Some v' \<and>
     ck_tree_size (vc_checkpoint (sample_verified 3)) \<le> ck_tree_size (vc_checkpoint v') \<and>
     (ck_tree_size (vc_checkpoint v') = ck_tree_size (vc_checkpoint (sample_verified 3)) \<longrightarrow>
      vc_root_hash v' = vc_root_hash (sample_verified 3))"
  by (rule checkpoint_never_rolls_back [OF sample_first_checkpoint])

theorem client_log_append_only_witness:
  "\<exists>v' ext. last_verified (tclient_run sample_net sample_client ([GetLatestCheckpoint] @ [GetInclusionProof [7]]) tstate_new) = Some v' \<and>
     sample_log_of (vc_checkpoint v') = sample_log_of (vc_checkpoint (sample_verified 3)) @ ext"
  by (rule client_log_append_only [OF sample_net_sha sample_real_logs sample_collision_free sample_proofs_wf sample_first_checkpoint])

theorem logged_join_card_in_log_witness:
  "\<exists>e \<in> set (sample_log 4). entry_hash (ne_log sample_net) e = replicate 32 7 \<or> te_join_card_hash e = replicate 32 7"
proof (rule logged_join_card_in_log [OF sample_net_sha])
  have env: "ne_log sample_net = sample_env"
    by (simp add: sample_net_def)
  show "verify_join_card_logged sample_net sample_client (replicate 32 7) tstate_new =
      (\<lparr>last_verified = Some (sample_verified 4), requests_made = 4, clock_reads = 2\<rparr>, Ok True)"
    by code_simp
  show "is_enabled sample_client" "\<not> tc_fallback_to_pinning (tcl_config sample_client)"
    by (simp_all add: is_enabled_def sample_client_def)
  show "last_verified \<lparr>last_verified = Some (sample_verified 4), requests_made = 4, clock_reads = 2\<rparr> = Some (sample_verified 4)"
    by simp
  show "unat (ck_tree_size (vc_checkpoint (sample_verified 4))) = length (sample_log 4)"
    "length (sample_log 4) < 2 ^ 64 - 1"
    "vc_root_hash (sample_verified 4) = log_root (ne_log sample_net) (sample_log 4)"
    by (simp_all add: sample_verified_def sample_checkpoint_def sample_checkpoint_for_def sample_log_def env)
  have "list_all (\<lambda>h. length h = 32) (ip_proof_path sample_inclusion4)"
    by code_simp
  moreover have "inj_on (env_sha sample_env) (set (log_msgs sample_env (sample_log 4) @ inclusion_msgs sample_env sample_inclusion4))"
    by (rule inj_on_setI) code_simp
  moreover have "inj_on (json_entry sample_env) (set (ip_entry sample_inclusion4 # sample_log 4))"
    by (rule inj_on_setI) code_simp
  ultimately show "inclusion_collision_free sample_net (sample_log 4)"
    unfolding inclusion_collision_free_def env using sample_served(3) by blast
qed

theorem concurrent_size_monotone_witness:
  "\<exists>v'. last_verified (tclient_run sample_net sample_client [GetLatestCheckpoint] tstate_new) = Some v' \<and>
     ck_tree_size (vc_checkpoint (sample_verified 3)) \<le> ck_tree_size (vc_checkpoint v')"
  by (rule concurrent_size_monotone [OF rtranclp.rtrancl_refl sample_first_checkpoint])

text \<open>
  A server with a signing key that answers two fetches with different roots for the same size.
\<close>

definition fork_net :: net_env where
  "fork_net = sample_net\<lparr>parse_checkpoint := (\<lambda>b. Ok (sample_checkpoint_for (if b = [0] then 1 else 2) 3))\<rparr>"

definition fork_candidate :: "nat \<Rightarrow> verified_checkpoint" where
  "fork_candidate n =
     \<lparr>vc_checkpoint = sample_checkpoint_for n 3, vc_root_hash = sample_root n,
      vc_signing_key_id = ''k1'', vc_generated_at = 4, vc_verified_at = 0\<rparr>"

text \<open>
  Consistency is not re-checked at the store: two fetches that both verify against the same
  (missing) previous checkpoint can be stored one after the other, so that a stored checkpoint is
  replaced by one with the same size and a different root. A sequential client rejects this.
\<close>

theorem concurrent_fetches_can_fork:
  "\<exists>ne cl s t c v v'. (conc_step ne cl)\<^sup>*\<^sup>* (tstate_new, []) (s, [c]) \<and> conc_step ne cl (s, [c]) (t, []) \<and>
     last_verified s = Some v \<and> last_verified t = Some v' \<and>
     ck_tree_size (vc_checkpoint v) = ck_tree_size (vc_checkpoint v') \<and> vc_root_hash v \<noteq> vc_root_hash v'"
proof -
  let ?st = "\<lambda>lv n k. \<lparr>last_verified = lv, requests_made = n, clock_reads = k\<rparr>"
  let ?a = "fork_candidate 1" and ?b = "fork_candidate 2"
  let ?step = "conc_step fork_net sample_client"
  have fetch: "fetch_checkpoint fork_net sample_client (?st None 0 0) = (?st None 1 0, Ok ?a)"
    "fetch_checkpoint fork_net sample_client (?st None 1 0) = (?st None 2 0, Ok ?b)"
    by code_simp+
  have check: "check_against_previous fork_net sample_client None c s = (s, Ok ())" for c s
    by (simp add: check_against_previous_def sres_def)
  have store: "store_checkpoint fork_net sample_client ?a (?st None 2 0) = (?st (Some ?a) 2 1, Ok (vc_checkpoint ?a))"
    "store_checkpoint fork_net sample_client ?b (?st (Some ?a) 2 1) = (?st (Some ?b) 2 2, Ok (vc_checkpoint ?b))"
    by code_simp+
  have "sample_root 1 \<noteq> sample_root 2"
    by code_simp
  then have ab: "?a \<noteq> ?b" "vc_root_hash ?a \<noteq> vc_root_hash ?b" "vc_size ?a = vc_size ?b"
    by (auto simp: fork_candidate_def sample_checkpoint_for_def)
  have "?step (?st None 0 0, []) (?st None 1 0, [?a])"
    using conc_step.verified [OF fetch(1)] check by simp
  moreover have "?step (?st None 1 0, [?a]) (?st None 2 0, [?b, ?a])"
    using conc_step.verified [OF fetch(2)] check by simp
  moreover have "?step (?st None 2 0, [?b, ?a]) (?st (Some ?a) 2 1, [?b])"
    using conc_step.stored [OF _ store(1), of "[?b, ?a]"] ab(1) by simp
  ultimately have "?step\<^sup>*\<^sup>* (tstate_new, []) (?st (Some ?a) 2 1, [?b])"
    unfolding tstate_new_def by (meson converse_rtranclp_into_rtranclp rtranclp.rtrancl_refl)
  moreover have "?step (?st (Some ?a) 2 1, [?b]) (?st (Some ?b) 2 2, [])"
    using conc_step.stored [OF _ store(2), of "[?b]"] by simp
  ultimately show ?thesis
    using ab by (intro exI conjI) (assumption | simp)+
qed

end
