(* ===== verification/Float64.thy ===== *)
theory Float64
  imports Complex_Main
begin

text \<open>
  The \<open>f64\<close> arithmetic of the ratios and thresholds the components compute. A finite \<open>f64\<close> is its
  rational value, and \<open>f64 x\<close> is the nearest double to \<open>x\<close>, ties to even, as IEEE 754 arithmetic
  rounds the exact result of an operation: a 53 bit significand scaled by a power of two. Exponents
  are unbounded here; the quotients of counts, seconds and configuration constants in the code stay
  far inside the normal range, where the two agree.

  The lemmas give what the components use: rounding is monotone, leaves numbers with at most 53
  significant bits alone, and a proper fraction of counts below $2^{53}$ never rounds up to one.
\<close>

subsection \<open>Rounding\<close>

text \<open>\<open>log2_int n\<close> is the exponent of the leading bit of a positive \<open>n\<close>.\<close>

function log2_int :: "int \<Rightarrow> int" where
  "log2_int n = (if n \<le> 1 then 0 else 1 + log2_int (n div 2))"
  by auto
termination
  by (relation "measure nat") auto

declare log2_int.simps [simp del]

definition f64_exp :: "rat \<Rightarrow> int" where
  "f64_exp x =
     (let (p, q) = quotient_of \<bar>x\<bar>; k = log2_int p - log2_int q
      in if 2 powi k \<le> \<bar>x\<bar> then k else k - 1)"

definition round_half_even :: "rat \<Rightarrow> int" where
  "round_half_even x =
     (let f = \<lfloor>x\<rfloor>; d = x - of_int f
      in if d < 1 / 2 then f else if 1 / 2 < d then f + 1 else if even f then f else f + 1)"

definition f64 :: "rat \<Rightarrow> rat" where
  "f64 x =
     (if x = 0 then 0
      else let e = f64_exp x - 52 in of_int (round_half_even (x * 2 powi (- e))) * 2 powi e)"

text \<open>\<open>as u8\<close>, \<open>as usize\<close> and \<open>as i64\<close> truncate towards zero and saturate.\<close>

definition trunc_f64 :: "rat \<Rightarrow> int" where
  "trunc_f64 x = (if 0 \<le> x then \<lfloor>x\<rfloor> else \<lceil>x\<rceil>)"

definition clamp :: "int \<Rightarrow> int \<Rightarrow> int \<Rightarrow> int" where
  "clamp lo hi x = max lo (min hi x)"

definition f64_of_nat :: "nat \<Rightarrow> rat" where
  "f64_of_nat n = f64 (of_nat n)"

definition f64_div :: "rat \<Rightarrow> rat \<Rightarrow> rat" where
  "f64_div x y = f64 (x / y)"

definition f64_mul :: "rat \<Rightarrow> rat \<Rightarrow> rat" where
  "f64_mul x y = f64 (x * y)"

definition f64_sub :: "rat \<Rightarrow> rat \<Rightarrow> rat" where
  "f64_sub x y = f64 (x - y)"

subsection \<open>The binary exponent\<close>

lemma log2_int_nonneg: "0 \<le> log2_int n"
  by (induction n rule: log2_int.induct) (subst log2_int.simps, auto)

lemma log2_int_bounds: "0 < n \<Longrightarrow> 2 ^ nat (log2_int n) \<le> n \<and> n < 2 ^ nat (log2_int n + 1)"
proof (induction n rule: log2_int.induct)
  case (1 n)
  show ?case
  proof (cases "n \<le> 1")
    case True
    with "1.prems" show ?thesis by (simp add: log2_int.simps [of n])
  next
    case False
    then have IH: "2 ^ nat (log2_int (n div 2)) \<le> n div 2" "n div 2 < 2 ^ nat (log2_int (n div 2) + 1)"
      using "1.IH" by auto
    have "nat (log2_int n) = Suc (nat (log2_int (n div 2)))"
      "nat (log2_int n + 1) = Suc (nat (log2_int (n div 2) + 1))"
      using False log2_int_nonneg [of "n div 2"] by (simp_all add: log2_int.simps [of n] nat_add_distrib)
    with IH show ?thesis by simp linarith
  qed
qed

lemma log2_int_powi:
  assumes "0 < n"
  shows "(2 :: rat) powi log2_int n \<le> of_int n" "(of_int n :: rat) < 2 powi (log2_int n + 1)"
proof -
  have "(2 :: rat) powi log2_int n = of_int (2 ^ nat (log2_int n))"
    "(2 :: rat) powi (log2_int n + 1) = of_int (2 ^ nat (log2_int n + 1))"
    using log2_int_nonneg [of n] by (simp_all add: power_int_def)
  then show "(2 :: rat) powi log2_int n \<le> of_int n" "(of_int n :: rat) < 2 powi (log2_int n + 1)"
    using log2_int_bounds [OF assms] by (simp_all only: of_int_le_iff of_int_less_iff)
qed

lemma f64_exp_bounds:
  assumes "x \<noteq> 0"
  shows "2 powi f64_exp x \<le> \<bar>x\<bar>" "\<bar>x\<bar> < 2 powi (f64_exp x + 1)"
proof -
  obtain p q where pq: "quotient_of \<bar>x\<bar> = (p, q)" by (cases "quotient_of \<bar>x\<bar>")
  have q: "0 < q" using pq by (rule quotient_of_denom_pos)
  have x: "\<bar>x\<bar> = of_int p / of_int q" using pq by (rule quotient_of_div)
  have "0 < of_int p / (of_int q :: rat)" using assms unfolding x [symmetric] by simp
  with q have p: "0 < p" by (simp add: zero_less_divide_iff)
  define k where "k = log2_int p - log2_int q"
  have "\<bar>x\<bar> < 2 powi (log2_int p + 1) / 2 powi log2_int q"
    unfolding x using log2_int_powi [OF p] log2_int_powi [OF q] p q
    by (intro frac_less) auto
  then have up: "\<bar>x\<bar> < 2 powi (k + 1)"
    by (simp add: k_def power_int_diff power_int_add)
  have "2 powi log2_int p / 2 powi (log2_int q + 1) < \<bar>x\<bar>"
    unfolding x using log2_int_powi [OF p] log2_int_powi [OF q] p q
    by (intro frac_less2) auto
  then have lo: "2 powi (k - 1) < \<bar>x\<bar>"
    by (simp add: k_def power_int_diff power_int_add field_simps)
  have e: "f64_exp x = (if 2 powi k \<le> \<bar>x\<bar> then k else k - 1)"
    by (simp add: f64_exp_def pq k_def)
  show "2 powi f64_exp x \<le> \<bar>x\<bar>" "\<bar>x\<bar> < 2 powi (f64_exp x + 1)"
    using up lo by (auto simp: e)
qed

lemma powi2_less: "(2 :: rat) powi a < 2 powi b \<Longrightarrow> a < b"
  by (rule ccontr) (use power_int_increasing [of b a "2 :: rat"] in simp)

subsection \<open>Rounding to an integer\<close>

lemma round_half_even_of_int [simp]: "round_half_even (of_int n) = n"
  by (simp add: round_half_even_def)

lemma round_half_even_bounds: "\<lfloor>x\<rfloor> \<le> round_half_even x" "round_half_even x \<le> \<lfloor>x\<rfloor> + 1"
  by (auto simp: round_half_even_def Let_def)

lemma round_half_even_mono:
  assumes "x \<le> y"
  shows "round_half_even x \<le> round_half_even y"
proof (cases "\<lfloor>x\<rfloor> = \<lfloor>y\<rfloor>")
  case True
  with assms show ?thesis by (auto simp: round_half_even_def Let_def)
next
  case False
  with assms have "\<lfloor>x\<rfloor> + 1 \<le> \<lfloor>y\<rfloor>" using floor_mono [OF assms] by linarith
  with round_half_even_bounds [of x] round_half_even_bounds [of y] show ?thesis by linarith
qed

lemma round_half_even_le: "x \<le> of_int n \<Longrightarrow> round_half_even x \<le> n"
  using round_half_even_mono [of x "of_int n"] by simp

lemma round_half_even_ge: "of_int n \<le> x \<Longrightarrow> n \<le> round_half_even x"
  using round_half_even_mono [of "of_int n" x] by simp

subsection \<open>Rounding to a double\<close>

lemma f64_0 [simp]: "f64 0 = 0"
  by (simp add: f64_def)

text \<open>Numbers with at most 53 significant bits are doubles.\<close>

lemma f64_exact:
  assumes "\<bar>n\<bar> < 2 ^ 53"
  shows "f64 (of_int n * 2 powi k) = of_int n * 2 powi k" (is "f64 ?x = ?x")
proof (cases "n = 0")
  case False
  define e where "e = f64_exp ?x - 52"
  have x: "?x \<noteq> 0" using False by simp
  have "(of_int \<bar>n\<bar> :: rat) < of_int (2 ^ 53)" using assms by (simp only: of_int_less_iff)
  then have "\<bar>?x\<bar> < 2 powi 53 * 2 powi k" by (simp add: abs_mult power_int_def)
  also have "\<dots> = 2 powi (53 + k)" by (simp add: power_int_add)
  finally have "(2 :: rat) powi f64_exp ?x < 2 powi (53 + k)"
    using f64_exp_bounds(1) [OF x] by linarith
  then have "e \<le> k" using powi2_less by (fastforce simp: e_def)
  then have "?x * 2 powi (- e) = of_int (n * 2 ^ nat (k - e))"
    by (simp add: mult.assoc flip: power_int_add) (simp add: power_int_def)
  then have "f64 ?x = of_int (n * 2 ^ nat (k - e)) * 2 powi e"
    using x by (simp only: f64_def e_def [symmetric] Let_def round_half_even_of_int if_False)
  also have "\<dots> = of_int n * (2 powi (k - e) * 2 powi e)"
    using \<open>e \<le> k\<close> by (simp add: power_int_def)
  also have "\<dots> = ?x" by (simp flip: power_int_add)
  finally show ?thesis .
qed simp

lemma f64_of_int: "\<bar>n\<bar> < 2 ^ 53 \<Longrightarrow> f64 (of_int n) = of_int n"
  using f64_exact [of n 0] by simp

lemma f64_of_nat_exact: "n < 2 ^ 53 \<Longrightarrow> f64_of_nat n = of_nat n"
  using f64_of_int [of "int n"] by (simp add: f64_of_nat_def)

lemma f64_1 [simp]: "f64 1 = 1"
  using f64_of_int [of 1] by simp

lemma f64_pos_bounds:
  assumes "0 < x"
  shows "2 powi f64_exp x \<le> f64 x" "f64 x \<le> 2 powi (f64_exp x + 1)"
proof -
  define e where "e = f64_exp x - 52"
  have b: "2 powi f64_exp x \<le> x" "x < 2 powi (f64_exp x + 1)"
    using f64_exp_bounds [of x] assms by auto
  have "x * 2 powi (- e) \<le> 2 powi (f64_exp x + 1) * 2 powi (- e)"
    using b by (intro mult_right_mono) auto
  also have "\<dots> = of_int (2 ^ 53)" by (simp add: e_def flip: power_int_add)
  finally have u: "round_half_even (x * 2 powi (- e)) \<le> 2 ^ 53" by (rule round_half_even_le)
  have "of_int (2 ^ 52) = (2 :: rat) powi f64_exp x * 2 powi (- e)"
    by (simp add: e_def flip: power_int_add)
  also have "\<dots> \<le> x * 2 powi (- e)" using b by (intro mult_right_mono) auto
  finally have l: "2 ^ 52 \<le> round_half_even (x * 2 powi (- e))" by (rule round_half_even_ge)
  have f: "f64 x = of_int (round_half_even (x * 2 powi (- e))) * 2 powi e"
    using assms by (simp add: f64_def e_def)
  have "(2 :: rat) powi f64_exp x = of_int (2 ^ 52) * 2 powi e"
    by (simp add: e_def power_int_diff)
  also have "\<dots> \<le> f64 x" unfolding f using l by (intro mult_right_mono) (simp_all only: of_int_le_iff, simp)
  finally show "2 powi f64_exp x \<le> f64 x" .
  have "f64 x \<le> of_int (2 ^ 53) * 2 powi e"
    unfolding f using u by (intro mult_right_mono) (simp_all only: of_int_le_iff, simp)
  also have "\<dots> = 2 powi (f64_exp x + 1)" by (simp add: e_def power_int_diff power_int_add)
  finally show "f64 x \<le> 2 powi (f64_exp x + 1)" .
qed

lemma f64_nonneg: "0 \<le> x \<Longrightarrow> 0 \<le> f64 x"
  using f64_pos_bounds(1) [of x] zero_less_power_int [of "2 :: rat" "f64_exp x"]
  by (cases "x = 0") (simp_all del: zero_less_power_int)

lemma f64_mono:
  assumes "0 \<le> x" "x \<le> y"
  shows "f64 x \<le> f64 y"
proof (cases "x = 0")
  case True
  with assms show ?thesis by (simp add: f64_nonneg)
next
  case False
  then have pos: "0 < x" "0 < y" using assms by auto
  from f64_exp_bounds [of x] f64_exp_bounds [of y] pos assms
  have "(2 :: rat) powi f64_exp x < 2 powi (f64_exp y + 1)" by auto
  then have le: "f64_exp x \<le> f64_exp y" using powi2_less by fastforce
  show ?thesis
  proof (cases "f64_exp x = f64_exp y")
    case True
    have "x * 2 powi (- (f64_exp y - 52)) \<le> y * 2 powi (- (f64_exp y - 52))"
      using assms by (intro mult_right_mono) auto
    from round_half_even_mono [OF this] pos True show ?thesis
      by (simp add: f64_def Let_def)
  next
    case False
    with le have "(2 :: rat) powi (f64_exp x + 1) \<le> 2 powi f64_exp y"
      by (simp add: power_int_increasing)
    with f64_pos_bounds [OF pos(1)] f64_pos_bounds [OF pos(2)] show ?thesis by linarith
  qed
qed

text \<open>
  A quotient of two counts below $2^{53}$ lies in the unit interval, and rounds to one only when the
  counts are equal.
\<close>

lemma f64_fraction_bounds: "a \<le> b \<Longrightarrow> 0 \<le> f64 (of_nat a / of_nat b) \<and> f64 (of_nat a / of_nat b) \<le> 1"
  using f64_mono [of "of_nat a / of_nat b" 1] by (auto intro: f64_nonneg simp: divide_le_eq)

lemma f64_fraction_one_iff:
  assumes "a \<le> b" "0 < b" "b < 2 ^ 53"
  shows "f64 (of_nat a / of_nat b) = 1 \<longleftrightarrow> a = b"
proof
  assume one: "f64 (of_nat a / of_nat b) = 1"
  show "a = b"
  proof (rule ccontr)
    assume "a \<noteq> b"
    with assms have "(of_nat a :: rat) + 1 \<le> of_nat b"
      by (metis Suc_leI le_neq_implies_less of_nat_Suc of_nat_le_iff add.commute)
    moreover have bb: "(0 :: rat) < of_nat b" "(of_nat b :: rat) \<le> of_nat (2 ^ 53)"
      using assms by (simp_all only: of_nat_le_iff of_nat_0_less_iff)
    moreover have "of_nat b / 2 ^ 53 \<le> (1 :: rat)" using bb(2) by (simp add: divide_le_eq)
    ultimately have "of_nat a / of_nat b \<le> (1 - 1 / 2 ^ 53 :: rat)"
      by (simp add: divide_le_eq left_diff_distrib)
    then have "f64 (of_nat a / of_nat b) \<le> f64 (1 - 1 / 2 ^ 53)"
      by (intro f64_mono) auto
    also have "f64 (1 - 1 / 2 ^ 53) = 1 - 1 / 2 ^ 53"
      using f64_exact [of "2 ^ 53 - 1" "- 53"] by (simp add: power_int_def field_simps)
    finally show False using one by simp
  qed
qed (use assms in simp)

text \<open>\<open>a as f64 / b as f64\<close> for two counts.\<close>

definition f64_ratio :: "nat \<Rightarrow> nat \<Rightarrow> rat" where
  "f64_ratio a b = f64_div (f64_of_nat a) (f64_of_nat b)"

lemma f64_ratio_bounds: "a \<le> b \<Longrightarrow> 0 \<le> f64_ratio a b \<and> f64_ratio a b \<le> 1"
proof -
  assume "a \<le> b"
  then have "0 \<le> f64_of_nat a" "f64_of_nat a \<le> f64_of_nat b"
    by (auto simp: f64_of_nat_def intro: f64_nonneg f64_mono)
  then have "0 \<le> f64_of_nat a / f64_of_nat b" "f64_of_nat a / f64_of_nat b \<le> 1"
    by (auto simp: divide_le_eq_1)
  then show ?thesis
    using f64_mono [of "f64_of_nat a / f64_of_nat b" 1] by (simp add: f64_ratio_def f64_div_def f64_nonneg)
qed

lemma f64_ratio_one_iff: "a \<le> b \<Longrightarrow> 0 < b \<Longrightarrow> b < 2 ^ 53 \<Longrightarrow> f64_ratio a b = 1 \<longleftrightarrow> a = b"
  using f64_fraction_one_iff [of a b] by (simp add: f64_ratio_def f64_div_def f64_of_nat_exact)

lemma f64_dyadic: "\<bar>n\<bar> < 2 ^ 53 \<Longrightarrow> f64 (of_int n / 2 ^ k) = of_int n / 2 ^ k"
  using f64_exact [of n "- int k"] by (simp add: power_int_minus divide_inverse)

end
