(* ===== verification/MountCache.thy ===== *)
theory MountCache
  imports Prelude Float64 "HOL-Library.AList"
begin

text \<open>
  The decrypted data caches of the mounted file system (\<open>crates/mount/src/cache\<close>): the chunk cache with
  its byte budget (\<open>chunks.rs\<close>), the metadata cache (\<open>metadata.rs\<close>), the eviction priorities
  (\<open>eviction.rs\<close>) and the manager with its time based invalidation (\<open>mod.rs\<close>).

  The LRU map is that of the third-party crate \<open>lru\<close>: the parameter record \<open>lru_ops\<close>, over an abstract
  cache type \<open>'c\<close>. \<open>lru_documented\<close> states its documented behaviour through the list that \<open>iter\<close>
  yields, most recently used entry first. Byte counts are natural numbers with the wrapping \<open>u64\<close>
  addition written out; a slice out of range is a panic, the outer \<open>None\<close>. Calls
  follow each other: an operation is one step, although the code releases and retakes its locks within some
  of them, so interleaved calls are outside the model.
\<close>

subsection \<open>The LRU crate\<close>

record ('k, 'v, 'c) lru_ops =
  lru_new :: "nat \<Rightarrow> 'c"
  lru_valid :: "'c \<Rightarrow> bool"
  lru_cap :: "'c \<Rightarrow> nat"
  lru_iter :: "'c \<Rightarrow> ('k \<times> 'v) list"
  lru_put :: "'k \<Rightarrow> 'v \<Rightarrow> 'c \<Rightarrow> 'c"
  lru_pop :: "'k \<Rightarrow> 'c \<Rightarrow> 'c \<times> 'v option"
  lru_pop_lru :: "'c \<Rightarrow> 'c \<times> ('k \<times> 'v) option"
  lru_get_mut :: "'k \<Rightarrow> ('v \<Rightarrow> 'v) \<Rightarrow> 'c \<Rightarrow> 'c \<times> 'v option"

abbreviation lru_len :: "('k, 'v, 'c) lru_ops \<Rightarrow> 'c \<Rightarrow> nat" where
  "lru_len lo c \<equiv> length (lru_iter lo c)"

definition lru_documented :: "('k, 'v, 'c) lru_ops \<Rightarrow> bool" where
  "lru_documented lo \<longleftrightarrow>
     (\<forall>n > 0. lru_valid lo (lru_new lo n) \<and> lru_cap lo (lru_new lo n) = n \<and> lru_iter lo (lru_new lo n) = []) \<and>
     (\<forall>c. lru_valid lo c \<longrightarrow>
        0 < lru_cap lo c \<and> distinct (map fst (lru_iter lo c)) \<and> lru_len lo c \<le> lru_cap lo c \<and>
        (\<forall>k v. lru_valid lo (lru_put lo k v c) \<and> lru_cap lo (lru_put lo k v c) = lru_cap lo c \<and>
           lru_iter lo (lru_put lo k v c) = take (lru_cap lo c) ((k, v) # filter (\<lambda>p. fst p \<noteq> k) (lru_iter lo c))) \<and>
        (\<forall>k. lru_valid lo (fst (lru_pop lo k c)) \<and> lru_cap lo (fst (lru_pop lo k c)) = lru_cap lo c \<and>
           lru_iter lo (fst (lru_pop lo k c)) = filter (\<lambda>p. fst p \<noteq> k) (lru_iter lo c) \<and>
           snd (lru_pop lo k c) = map_of (lru_iter lo c) k) \<and>
        (lru_valid lo (fst (lru_pop_lru lo c)) \<and> lru_cap lo (fst (lru_pop_lru lo c)) = lru_cap lo c \<and>
           lru_iter lo (fst (lru_pop_lru lo c)) = butlast (lru_iter lo c) \<and>
           snd (lru_pop_lru lo c) = (if lru_iter lo c = [] then None else Some (last (lru_iter lo c)))) \<and>
        (\<forall>k f. lru_valid lo (fst (lru_get_mut lo k f c)) \<and> lru_cap lo (fst (lru_get_mut lo k f c)) = lru_cap lo c \<and>
           lru_iter lo (fst (lru_get_mut lo k f c)) =
             (case map_of (lru_iter lo c) k of
                None \<Rightarrow> lru_iter lo c
              | Some v \<Rightarrow> (k, f v) # filter (\<lambda>p. fst p \<noteq> k) (lru_iter lo c)) \<and>
           snd (lru_get_mut lo k f c) = map_option f (map_of (lru_iter lo c) k)))"

subsection \<open>Chunk cache\<close>

record cache_key =
  ky_file_id :: string
  ky_offset :: u64
  ky_size :: nat

definition cache_key_new :: "string \<Rightarrow> u64 \<Rightarrow> nat \<Rightarrow> cache_key" where
  "cache_key_new file_id offset sz = \<lparr>ky_file_id = file_id, ky_offset = offset, ky_size = sz\<rparr>"

record cached_chunk =
  ck_data :: bytes
  ck_epoch_id :: string
  ck_cache_time :: instant
  ck_access_count :: u64

record cache_stats =
  st_hits :: u64
  st_misses :: u64
  st_evictions :: u64
  st_total_bytes_cached :: u64
  st_average_chunk_size :: rat

definition default_stats :: cache_stats where
  "default_stats =
     \<lparr>st_hits = 0, st_misses = 0, st_evictions = 0, st_total_bytes_cached = 0, st_average_chunk_size = 0\<rparr>"

record 'c chunk_cache =
  kc_cache :: 'c
  kc_max_size_bytes :: nat
  kc_current_size_bytes :: nat
  kc_stats :: cache_stats

type_synonym 'c chunk_ops = "(cache_key, cached_chunk, 'c) lru_ops"

definition chunk_cache_new :: "'c chunk_ops \<Rightarrow> nat \<Rightarrow> 'c chunk_cache" where
  "chunk_cache_new lo max_size_bytes =
     \<lparr>kc_cache = lru_new lo (max (max_size_bytes div (64 * 1024)) 1000), kc_max_size_bytes = max_size_bytes,
      kc_current_size_bytes = 0, kc_stats = default_stats\<rparr>"

definition exact_match :: "cache_key \<Rightarrow> cache_key \<times> cached_chunk \<Rightarrow> bool" where
  "exact_match key entry \<longleftrightarrow>
     ky_file_id (fst entry) = ky_file_id key \<and> ky_offset (fst entry) = ky_offset key \<and>
     ky_size key \<le> length (ck_data (snd entry))"

definition get_exact_chunk :: "'c chunk_ops \<Rightarrow> cache_key \<Rightarrow> 'c chunk_cache \<Rightarrow> 'c chunk_cache \<times> bytes option" where
  "get_exact_chunk lo key s =
     (case find (exact_match key) (lru_iter lo (kc_cache s)) of
        Some (cached_key, cached_chunk) \<Rightarrow>
          (let chunk = cached_chunk\<lparr>ck_access_count := ck_access_count cached_chunk + 1\<rparr>
           in (s\<lparr>kc_cache := lru_put lo cached_key chunk (kc_cache s),
                 kc_stats := (kc_stats s)\<lparr>st_hits := st_hits (kc_stats s) + 1\<rparr>\<rparr>,
               Some (take (min (ky_size key) (length (ck_data chunk))) (ck_data chunk))))
      | None \<Rightarrow> (s\<lparr>kc_stats := (kc_stats s)\<lparr>st_misses := st_misses (kc_stats s) + 1\<rparr>\<rparr>, None))"

definition slice :: "nat \<Rightarrow> nat \<Rightarrow> bytes \<Rightarrow> bytes option" where
  "slice i j b = (if i \<le> j \<and> j \<le> length b then Some (take (j - i) (drop i b)) else None)"

fun get_overlapping :: "string \<Rightarrow> u64 \<Rightarrow> u64 \<Rightarrow> (cache_key \<times> cached_chunk) list \<Rightarrow> bytes option option" where
  "get_overlapping file_id offset sz [] = Some None"
| "get_overlapping file_id offset sz ((cached_key, cached_chunk) # entries) =
     (if ky_file_id cached_key = file_id then
        let cached_start = ky_offset cached_key;
            cached_end = cached_start + of_nat (length (ck_data cached_chunk));
            request_end = offset + sz
        in if offset < cached_end \<and> cached_start < request_end then
             let overlap_start = max offset cached_start;
                 overlap_end = min request_end cached_end
             in if overlap_start < overlap_end then
                  let data_start = unat (overlap_start - cached_start);
                      data_end = data_start + unat (overlap_end - overlap_start)
                  in map_option Some (slice data_start data_end (ck_data cached_chunk))
                else get_overlapping file_id offset sz entries
           else get_overlapping file_id offset sz entries
      else get_overlapping file_id offset sz entries)"

definition get_overlapping_chunk :: "'c chunk_ops \<Rightarrow> string \<Rightarrow> u64 \<Rightarrow> u64 \<Rightarrow> 'c chunk_cache \<Rightarrow> bytes option option" where
  "get_overlapping_chunk lo file_id offset sz s = get_overlapping file_id offset sz (lru_iter lo (kc_cache s))"

definition get_chunk ::
  "'c chunk_ops \<Rightarrow> string \<Rightarrow> u64 \<Rightarrow> u64 \<Rightarrow> 'c chunk_cache \<Rightarrow> ('c chunk_cache \<times> bytes option) option" where
  "get_chunk lo file_id offset sz s =
     (case get_exact_chunk lo (cache_key_new file_id offset (unat sz)) s of
        (s', Some cached) \<Rightarrow> Some (s', Some cached)
      | (s', None) \<Rightarrow> map_option (Pair s') (get_overlapping_chunk lo file_id offset sz s'))"

text \<open>
  \<open>while freed_bytes < bytes_to_free && !cache.is_empty() { .. pop_lru .. }\<close>. Whether it ends depends
  on the map, so it is a partial function: \<open>None\<close> would be a loop that does not end.
\<close>

partial_function (option) evict_loop :: "'c chunk_ops \<Rightarrow> nat \<Rightarrow> nat \<Rightarrow> u64 \<Rightarrow> 'c \<Rightarrow> ('c \<times> nat \<times> u64) option" where
  "evict_loop lo bytes_to_free freed_bytes eviction_count c =
     (if freed_bytes < bytes_to_free \<and> lru_iter lo c \<noteq> [] then
        (case lru_pop_lru lo c of
           (c', Some (_, chunk)) \<Rightarrow>
             evict_loop lo bytes_to_free (add_u64 freed_bytes (length (ck_data chunk))) (eviction_count + 1) c'
         | (c', None) \<Rightarrow> evict_loop lo bytes_to_free freed_bytes eviction_count c')
      else Some (c, freed_bytes, eviction_count))"

definition evict_chunks :: "'c chunk_ops \<Rightarrow> nat \<Rightarrow> 'c chunk_cache \<Rightarrow> ('c chunk_cache \<times> nat) option" where
  "evict_chunks lo bytes_to_free s =
     map_option (\<lambda>(c, freed_bytes, eviction_count).
         (s\<lparr>kc_cache := c, kc_current_size_bytes := sat_sub (kc_current_size_bytes s) freed_bytes,
            kc_stats := (kc_stats s)\<lparr>st_evictions := st_evictions (kc_stats s) + eviction_count\<rparr>\<rparr>, freed_bytes))
       (evict_loop lo bytes_to_free 0 0 (kc_cache s))"

definition ensure_cache_space :: "'c chunk_ops \<Rightarrow> nat \<Rightarrow> 'c chunk_cache \<Rightarrow> 'c chunk_cache option" where
  "ensure_cache_space lo required_bytes s =
     (if add_u64 (kc_current_size_bytes s) required_bytes \<le> kc_max_size_bytes s then Some s
      else
        let target_size = unat (of_nat (kc_max_size_bytes s) * 3 :: u64) div 4;
            bytes_to_free = sat_sub (add_u64 (kc_current_size_bytes s) required_bytes) target_size
        in map_option fst (evict_chunks lo bytes_to_free s))"

text \<open>The part of \<open>insert_chunk\<close> after space was made.\<close>

definition put_chunk :: "'c chunk_ops \<Rightarrow> instant \<Rightarrow> string \<Rightarrow> u64 \<Rightarrow> bytes \<Rightarrow> 'c chunk_cache \<Rightarrow> 'c chunk_cache" where
  "put_chunk lo now file_id offset data s =
     (let data_size = length data;
          key = cache_key_new file_id offset data_size;
          chunk = \<lparr>ck_data = data, ck_epoch_id = ''current'', ck_cache_time = now, ck_access_count = 1\<rparr>;
          c = lru_put lo key chunk (kc_cache s);
          sz = add_u64 (kc_current_size_bytes s) data_size;
          stats = (kc_stats s)\<lparr>st_total_bytes_cached := st_total_bytes_cached (kc_stats s) + of_nat data_size\<rparr>
      in s\<lparr>kc_cache := c, kc_current_size_bytes := sz,
           kc_stats := (if 0 < lru_len lo c
                        then stats\<lparr>st_average_chunk_size := f64_ratio sz (lru_len lo c)\<rparr> else stats)\<rparr>)"

definition insert_chunk ::
  "'c chunk_ops \<Rightarrow> instant \<Rightarrow> string \<Rightarrow> u64 \<Rightarrow> bytes \<Rightarrow> 'c chunk_cache \<Rightarrow> 'c chunk_cache option" where
  "insert_chunk lo now file_id offset data s =
     (if kc_max_size_bytes s div 4 < length data then Some s
      else map_option (put_chunk lo now file_id offset data) (ensure_cache_space lo (length data) s))"

definition evict_lru :: "'c chunk_ops \<Rightarrow> nat \<Rightarrow> 'c chunk_cache \<Rightarrow> ('c chunk_cache \<times> nat) option" where
  "evict_lru lo bytes_to_free s = (if bytes_to_free = 0 then Some (s, 0) else evict_chunks lo bytes_to_free s)"

primrec pop_keys :: "'c chunk_ops \<Rightarrow> cache_key list \<Rightarrow> 'c \<Rightarrow> nat \<Rightarrow> nat \<Rightarrow> 'c \<times> nat \<times> nat" where
  "pop_keys lo [] c freed_bytes count = (c, freed_bytes, count)"
| "pop_keys lo (key # ks) c freed_bytes count =
     (case lru_pop lo key c of
        (c', Some chunk) \<Rightarrow> pop_keys lo ks c' (add_u64 freed_bytes (length (ck_data chunk))) (count + 1)
      | (c', None) \<Rightarrow> pop_keys lo ks c' freed_bytes count)"

definition invalidate_file :: "'c chunk_ops \<Rightarrow> string \<Rightarrow> 'c chunk_cache \<Rightarrow> 'c chunk_cache \<times> nat" where
  "invalidate_file lo file_id s =
     (let keys_to_remove = filter (\<lambda>key. ky_file_id key = file_id) (map fst (lru_iter lo (kc_cache s)))
      in case pop_keys lo keys_to_remove (kc_cache s) 0 0 of
           (c, freed_bytes, invalidated_count) \<Rightarrow>
             (s\<lparr>kc_cache := c, kc_current_size_bytes := sat_sub (kc_current_size_bytes s) freed_bytes\<rparr>, invalidated_count))"

definition get_hit_rate :: "'c chunk_cache \<Rightarrow> rat" where
  "get_hit_rate s =
     (let total_requests = st_hits (kc_stats s) + st_misses (kc_stats s)
      in if 0 < total_requests then f64_ratio (unat (st_hits (kc_stats s))) (unat total_requests) else 0)"

text \<open>\<open>None\<close>: the quotient is not a number when the capacity is zero.\<close>

definition get_utilization :: "'c chunk_cache \<Rightarrow> rat option" where
  "get_utilization s =
     (if kc_max_size_bytes s = 0 then None else Some (f64_ratio (kc_current_size_bytes s) (kc_max_size_bytes s)))"

subsection \<open>Metadata cache\<close>

record cached_metadata =
  md_file_id :: string
  md_size :: u64
  md_is_directory :: bool
  md_modified_time :: instant
  md_access_time :: instant
  md_creation_time :: instant
  md_permissions :: "16 word"
  md_epoch_id :: string
  md_cache_time :: instant
  md_access_count :: u64

record metadata_stats =
  ms_hits :: u64
  ms_misses :: u64
  ms_entries :: u64
  ms_evictions :: u64

record 'd metadata_cache =
  mc_cache :: 'd
  mc_stats :: metadata_stats

type_synonym 'd metadata_ops = "(string, cached_metadata, 'd) lru_ops"

text \<open>\<open>NonZeroUsize::new(max_entries).unwrap()\<close> panics on zero.\<close>

definition metadata_cache_new :: "'d metadata_ops \<Rightarrow> nat \<Rightarrow> 'd metadata_cache option" where
  "metadata_cache_new lo max_entries =
     (if max_entries = 0 then None
      else Some \<lparr>mc_cache = lru_new lo max_entries,
                 mc_stats = \<lparr>ms_hits = 0, ms_misses = 0, ms_entries = 0, ms_evictions = 0\<rparr>\<rparr>)"

definition get_metadata ::
  "'d metadata_ops \<Rightarrow> instant \<Rightarrow> string \<Rightarrow> 'd metadata_cache \<Rightarrow> 'd metadata_cache \<times> cached_metadata option" where
  "get_metadata lo now file_id s =
     (case lru_get_mut lo file_id
             (\<lambda>md. md\<lparr>md_access_count := md_access_count md + 1, md_access_time := now\<rparr>) (mc_cache s) of
        (c, Some md) \<Rightarrow> (s\<lparr>mc_cache := c, mc_stats := (mc_stats s)\<lparr>ms_hits := ms_hits (mc_stats s) + 1\<rparr>\<rparr>, Some md)
      | (c, None) \<Rightarrow> (s\<lparr>mc_cache := c, mc_stats := (mc_stats s)\<lparr>ms_misses := ms_misses (mc_stats s) + 1\<rparr>\<rparr>, None))"

definition insert_metadata :: "'d metadata_ops \<Rightarrow> cached_metadata \<Rightarrow> 'd metadata_cache \<Rightarrow> 'd metadata_cache" where
  "insert_metadata lo md s =
     s\<lparr>mc_cache := lru_put lo (md_file_id md) md (mc_cache s),
       mc_stats := (mc_stats s)\<lparr>ms_entries := ms_entries (mc_stats s) + 1\<rparr>\<rparr>"

definition sat_sub_u64 :: "u64 \<Rightarrow> u64 \<Rightarrow> u64" where
  "sat_sub_u64 a b = (if b \<le> a then a - b else 0)"

definition invalidate_metadata :: "'d metadata_ops \<Rightarrow> string \<Rightarrow> 'd metadata_cache \<Rightarrow> 'd metadata_cache \<times> bool" where
  "invalidate_metadata lo file_id s =
     (case lru_pop lo file_id (mc_cache s) of
        (c, Some _) \<Rightarrow>
          (s\<lparr>mc_cache := c, mc_stats := (mc_stats s)\<lparr>ms_entries := sat_sub_u64 (ms_entries (mc_stats s)) 1\<rparr>\<rparr>, True)
      | (c, None) \<Rightarrow> (s\<lparr>mc_cache := c\<rparr>, False))"

definition metadata_hit_rate :: "'d metadata_cache \<Rightarrow> rat" where
  "metadata_hit_rate s =
     (let total_requests = ms_hits (mc_stats s) + ms_misses (mc_stats s)
      in if 0 < total_requests then f64_ratio (unat (ms_hits (mc_stats s))) (unat total_requests) else 0)"

text \<open>\<open>entry_bytes\<close> is \<open>size_of::<CachedMetadata>()\<close>, which the compiler chooses.\<close>

definition estimated_memory_usage :: "nat \<Rightarrow> 'd metadata_cache \<Rightarrow> nat" where
  "estimated_memory_usage entry_bytes s = unat (ms_entries (mc_stats s) * of_nat entry_bytes)"

partial_function (option) shrink_loop :: "'d metadata_ops \<Rightarrow> nat \<Rightarrow> nat \<Rightarrow> 'd \<Rightarrow> ('d \<times> nat) option" where
  "shrink_loop lo max_entries removed c =
     (if max_entries < lru_len lo c then
        (case lru_pop_lru lo c of
           (c', Some _) \<Rightarrow> shrink_loop lo max_entries (removed + 1) c'
         | (c', None) \<Rightarrow> Some (c', removed))
      else Some (c, removed))"

definition shrink_to :: "'d metadata_ops \<Rightarrow> nat \<Rightarrow> 'd metadata_cache \<Rightarrow> ('d metadata_cache \<times> nat) option" where
  "shrink_to lo max_entries s =
     map_option (\<lambda>(c, removed).
         (s\<lparr>mc_cache := c,
            mc_stats := (if 0 < removed
                         then (mc_stats s)\<lparr>ms_entries := sat_sub_u64 (ms_entries (mc_stats s)) (of_nat removed)\<rparr>
                         else mc_stats s)\<rparr>, removed))
       (shrink_loop lo max_entries 0 (mc_cache s))"

subsection \<open>Eviction priorities\<close>

datatype eviction_policy = LRU | LFU | TimeToLive int | SizePriority

definition F64_MAX :: rat where
  "F64_MAX = (2 - 1 / 2 ^ 52) * 2 ^ 1023"

text \<open>Durations are nanoseconds; \<open>as_secs_f64\<close> adds the seconds and the nanoseconds divided by $10^9$.\<close>

definition as_secs_f64 :: "int \<Rightarrow> rat" where
  "as_secs_f64 d = f64 (f64 (of_int (d div 1000000000)) + f64_div (of_int (d mod 1000000000)) 1000000000)"

definition calculate_priority :: "eviction_policy \<Rightarrow> instant \<Rightarrow> u64 \<Rightarrow> instant \<Rightarrow> u64 \<Rightarrow> int \<Rightarrow> rat option" where
  "calculate_priority policy now access_count last_access sz age =
     (case policy of
        LRU \<Rightarrow> Some (if last_access \<le> now then as_secs_f64 (now - last_access) else 0)
      | LFU \<Rightarrow> Some (if 0 < access_count then f64_div 1 (f64_of_nat (unat access_count)) else F64_MAX)
      | TimeToLive ttl \<Rightarrow>
          if ttl < age then Some F64_MAX
          else if as_secs_f64 ttl = 0 then None
          else Some (f64_div (f64_sub (as_secs_f64 ttl) (as_secs_f64 age)) (as_secs_f64 ttl))
      | SizePriority \<Rightarrow>
          let frequency_factor = (if 0 < access_count then f64_div 1 (f64_of_nat (unat access_count)) else 1);
              size_factor = f64_div (f64_of_nat (unat sz)) (1024 * 1024)
          in Some (f64_mul frequency_factor size_factor))"

definition should_evict :: "eviction_policy \<Rightarrow> int \<Rightarrow> bool" where
  "should_evict policy age = (case policy of TimeToLive ttl \<Rightarrow> ttl < age | _ \<Rightarrow> False)"

subsection \<open>The manager\<close>

record cache_config =
  cg_max_chunk_cache_size :: nat
  cg_max_metadata_entries :: nat
  cg_default_ttl :: int
  cg_migration_aware :: bool
  cg_memory_pressure_threshold :: rat

text \<open>The threshold \<open>0.8\<close> is an \<open>f32\<close> literal; the nearest single is $13421773 / 2^{24}$.\<close>

definition default_cache_config :: cache_config where
  "default_cache_config =
     \<lparr>cg_max_chunk_cache_size = 256 * 1024 * 1024, cg_max_metadata_entries = 10000,
      cg_default_ttl = 300 * 1000000000, cg_migration_aware = True,
      cg_memory_pressure_threshold = 13421773 / 2 ^ 24\<rparr>"

record invalidation_tracker =
  it_pending_files :: "(string \<times> instant) list"
  it_last_migration_event :: "instant option"
  it_epoch_markers :: "(u64 \<times> instant) list"

record ('c, 'd) cache_manager =
  cm_chunk_cache :: "'c chunk_cache"
  cm_metadata_cache :: "'d metadata_cache"
  cm_tracker :: invalidation_tracker
  cm_config :: cache_config

record manager_chunk =
  xc_data :: bytes
  xc_epoch_id :: u64
  xc_timestamp :: instant
  xc_ttl :: int
  xc_access_count :: u64

definition cache_manager_new :: "'c chunk_ops \<Rightarrow> 'd metadata_ops \<Rightarrow> cache_config \<Rightarrow> ('c, 'd) cache_manager option" where
  "cache_manager_new lo mo cfg =
     map_option (\<lambda>mc.
       \<lparr>cm_chunk_cache = chunk_cache_new lo (cg_max_chunk_cache_size cfg), cm_metadata_cache = mc,
        cm_tracker = \<lparr>it_pending_files = [], it_last_migration_event = None, it_epoch_markers = []\<rparr>,
        cm_config = cfg\<rparr>)
       (metadata_cache_new mo (cg_max_metadata_entries cfg))"

text \<open>\<open>t.elapsed().unwrap_or(Duration::ZERO)\<close>.\<close>

definition elapsed_or_zero :: "instant \<Rightarrow> instant \<Rightarrow> int" where
  "elapsed_or_zero now t = max 0 (now - t)"

definition is_cache_entry_valid :: "instant \<Rightarrow> string \<Rightarrow> ('c, 'd) cache_manager \<Rightarrow> bool" where
  "is_cache_entry_valid now file_id m =
     (if (case map_of (it_pending_files (cm_tracker m)) file_id of
            Some invalidation_time \<Rightarrow> elapsed_or_zero now invalidation_time < 1 * 1000000000
          | None \<Rightarrow> False) then False
      else if (case it_last_migration_event (cm_tracker m) of
                 Some migration_time \<Rightarrow> elapsed_or_zero now migration_time < 30 * 1000000000
               | None \<Rightarrow> False) then False
      else True)"

definition manager_get_chunk ::
  "'c chunk_ops \<Rightarrow> instant \<Rightarrow> cache_key \<Rightarrow> ('c, 'd) cache_manager \<Rightarrow> (('c, 'd) cache_manager \<times> manager_chunk option) option" where
  "manager_get_chunk lo now key m =
     (if is_cache_entry_valid now (ky_file_id key) m then
        map_option (\<lambda>(s, r).
            (m\<lparr>cm_chunk_cache := s\<rparr>,
             map_option (\<lambda>data. \<lparr>xc_data = data, xc_epoch_id = 0, xc_timestamp = now, xc_ttl = 300 * 1000000000,
                                  xc_access_count = 1\<rparr>) r))
          (get_chunk lo (ky_file_id key) (ky_offset key) (of_nat (ky_size key)) (cm_chunk_cache m))
      else Some (m, None))"

definition store_chunk ::
  "'c chunk_ops \<Rightarrow> instant \<Rightarrow> cache_key \<Rightarrow> bytes \<Rightarrow> ('c, 'd) cache_manager \<Rightarrow> ('c, 'd) cache_manager option" where
  "store_chunk lo now key data m =
     map_option (\<lambda>s. m\<lparr>cm_chunk_cache := s\<rparr>)
       (insert_chunk lo now (ky_file_id key) (ky_offset key) data (cm_chunk_cache m))"

definition manager_invalidate_file ::
  "'c chunk_ops \<Rightarrow> instant \<Rightarrow> string \<Rightarrow> ('c, 'd) cache_manager \<Rightarrow> ('c, 'd) cache_manager" where
  "manager_invalidate_file lo now file_id m =
     m\<lparr>cm_chunk_cache := fst (invalidate_file lo file_id (cm_chunk_cache m)),
       cm_tracker := (cm_tracker m)\<lparr>it_pending_files := AList.update file_id now (it_pending_files (cm_tracker m))\<rparr>\<rparr>"

definition invalidate_epoch :: "instant \<Rightarrow> u64 \<Rightarrow> ('c, 'd) cache_manager \<Rightarrow> ('c, 'd) cache_manager" where
  "invalidate_epoch now epoch_id m =
     m\<lparr>cm_tracker := (cm_tracker m)\<lparr>it_epoch_markers := AList.update epoch_id now (it_epoch_markers (cm_tracker m))\<rparr>\<rparr>"

definition handle_migration_event :: "instant \<Rightarrow> instant \<Rightarrow> u64 \<Rightarrow> u64 \<Rightarrow> ('c, 'd) cache_manager \<Rightarrow> ('c, 'd) cache_manager" where
  "handle_migration_event now1 now2 from_epoch to_epoch m =
     (let m = invalidate_epoch now1 from_epoch m
      in m\<lparr>cm_tracker := (cm_tracker m)\<lparr>it_last_migration_event := Some now2\<rparr>\<rparr>)"

definition estimate_memory_usage :: "nat \<Rightarrow> ('c, 'd) cache_manager \<Rightarrow> nat" where
  "estimate_memory_usage entry_bytes m =
     add_u64 (kc_current_size_bytes (cm_chunk_cache m)) (estimated_memory_usage entry_bytes (cm_metadata_cache m))"

definition pressure_target :: "('c, 'd) cache_manager \<Rightarrow> rat" where
  "pressure_target m = max 0 (min 1 (f64_mul (cg_memory_pressure_threshold (cm_config m)) (f64 (8 / 10))))"

definition as_u64 :: "rat \<Rightarrow> nat" where
  "as_u64 x = nat (clamp 0 (2 ^ 64 - 1) (trunc_f64 x))"

definition relieve_chunks :: "'c chunk_ops \<Rightarrow> ('c, 'd) cache_manager \<Rightarrow> ('c, 'd) cache_manager option" where
  "relieve_chunks lo m =
     (let s = cm_chunk_cache m; capacity = kc_max_size_bytes s; usage = kc_current_size_bytes s in
      if 0 < capacity \<and> cg_memory_pressure_threshold (cm_config m) < f64_ratio usage capacity then
        let target_bytes = as_u64 (f64_mul (f64_of_nat capacity) (pressure_target m));
            bytes_to_free = sat_sub usage target_bytes
        in if 0 < bytes_to_free
           then map_option (\<lambda>(s, _). m\<lparr>cm_chunk_cache := s\<rparr>) (evict_lru lo bytes_to_free s)
           else Some m
      else Some m)"

definition relieve_metadata :: "'d metadata_ops \<Rightarrow> nat \<Rightarrow> ('c, 'd) cache_manager \<Rightarrow> ('c, 'd) cache_manager option" where
  "relieve_metadata mo entry_bytes m =
     (let capacity = min (cg_max_metadata_entries (cm_config m) * entry_bytes) (2 ^ 64 - 1);
          usage = estimated_memory_usage entry_bytes (cm_metadata_cache m) in
      if 0 < capacity \<and> cg_memory_pressure_threshold (cm_config m) < f64_ratio usage capacity then
        let target_entries = as_u64 (f64_mul (f64_of_nat (cg_max_metadata_entries (cm_config m))) (pressure_target m))
        in map_option (\<lambda>(s, _). m\<lparr>cm_metadata_cache := s\<rparr>) (shrink_to mo target_entries (cm_metadata_cache m))
      else Some m)"

definition handle_memory_pressure ::
  "'c chunk_ops \<Rightarrow> 'd metadata_ops \<Rightarrow> nat \<Rightarrow> ('c, 'd) cache_manager \<Rightarrow> (('c, 'd) cache_manager \<times> nat) option" where
  "handle_memory_pressure lo mo entry_bytes m =
     (case relieve_chunks lo m of
        None \<Rightarrow> None
      | Some m1 \<Rightarrow>
          map_option (\<lambda>m2. (m2, sat_sub (estimate_memory_usage entry_bytes m) (estimate_memory_usage entry_bytes m2)))
            (relieve_metadata mo entry_bytes m1))"

record manager_stats =
  gs_chunk_cache :: cache_stats
  gs_metadata_cache :: metadata_stats
  gs_total_memory_usage :: nat
  gs_chunk_cache_bytes :: nat
  gs_chunk_cache_capacity :: nat
  gs_chunk_cache_utilization :: rat
  gs_chunk_hit_rate :: rat
  gs_metadata_hit_rate :: rat
  gs_metadata_memory_usage :: nat

definition manager_get_stats :: "nat \<Rightarrow> ('c, 'd) cache_manager \<Rightarrow> manager_stats" where
  "manager_get_stats entry_bytes m =
     (let chunk_bytes = kc_current_size_bytes (cm_chunk_cache m); chunk_capacity = kc_max_size_bytes (cm_chunk_cache m) in
      \<lparr>gs_chunk_cache = kc_stats (cm_chunk_cache m), gs_metadata_cache = mc_stats (cm_metadata_cache m),
       gs_total_memory_usage = estimate_memory_usage entry_bytes m, gs_chunk_cache_bytes = chunk_bytes,
       gs_chunk_cache_capacity = chunk_capacity,
       gs_chunk_cache_utilization = (if 0 < chunk_capacity then f64_ratio chunk_bytes chunk_capacity else 0),
       gs_chunk_hit_rate = get_hit_rate (cm_chunk_cache m), gs_metadata_hit_rate = metadata_hit_rate (cm_metadata_cache m),
       gs_metadata_memory_usage = estimated_memory_usage entry_bytes (cm_metadata_cache m)\<rparr>)"

subsection \<open>Consequences of the LRU crate's documentation\<close>

named_theorems lru_laws \<open>what the documented LRU operations do to the entries\<close>

lemma lru_new_laws [lru_laws]:
  assumes "lru_documented lo" and "0 < n"
  shows "lru_valid lo (lru_new lo n)" and "lru_cap lo (lru_new lo n) = n" and "lru_iter lo (lru_new lo n) = []"
  using assms by (simp_all add: lru_documented_def)

lemma lru_valid_facts:
  assumes "lru_documented lo" and "lru_valid lo c"
  shows "0 < lru_cap lo c" and "distinct (map fst (lru_iter lo c))" and "lru_len lo c \<le> lru_cap lo c"
  using assms by (simp_all add: lru_documented_def)

lemma lru_put_laws [lru_laws]:
  assumes "lru_documented lo" and "lru_valid lo c"
  shows "lru_valid lo (lru_put lo k v c)" and "lru_cap lo (lru_put lo k v c) = lru_cap lo c"
    and "lru_iter lo (lru_put lo k v c) = take (lru_cap lo c) ((k, v) # filter (\<lambda>p. fst p \<noteq> k) (lru_iter lo c))"
  using assms by (simp_all add: lru_documented_def)

lemma lru_pop_laws [lru_laws]:
  assumes "lru_documented lo" and "lru_valid lo c"
  shows "lru_valid lo (fst (lru_pop lo k c))" and "lru_cap lo (fst (lru_pop lo k c)) = lru_cap lo c"
    and "lru_iter lo (fst (lru_pop lo k c)) = filter (\<lambda>p. fst p \<noteq> k) (lru_iter lo c)"
    and "snd (lru_pop lo k c) = map_of (lru_iter lo c) k"
  using assms by (simp_all add: lru_documented_def)

lemma lru_pop_lru_laws [lru_laws]:
  assumes "lru_documented lo" and "lru_valid lo c"
  shows "lru_valid lo (fst (lru_pop_lru lo c))" and "lru_cap lo (fst (lru_pop_lru lo c)) = lru_cap lo c"
    and "lru_iter lo (fst (lru_pop_lru lo c)) = butlast (lru_iter lo c)"
    and "snd (lru_pop_lru lo c) = (if lru_iter lo c = [] then None else Some (last (lru_iter lo c)))"
  using assms by (simp_all add: lru_documented_def)

text \<open>The bytes that a list of entries really holds.\<close>

definition entries_bytes :: "(cache_key \<times> cached_chunk) list \<Rightarrow> nat" where
  "entries_bytes es = sum_list (map (\<lambda>e. length (ck_data (snd e))) es)"

lemma entries_bytes_simps [simp]:
  "entries_bytes [] = 0"
  "entries_bytes (e # es) = length (ck_data (snd e)) + entries_bytes es"
  "entries_bytes (es @ es') = entries_bytes es + entries_bytes es'"
  by (simp_all add: entries_bytes_def)

lemma entries_bytes_filter_le: "entries_bytes (filter P es) \<le> entries_bytes es"
  by (induction es) auto

lemma entries_bytes_take_le: "entries_bytes (take n es) \<le> entries_bytes es"
  using entries_bytes_simps(3) [of "take n es" "drop n es"] by (simp del: entries_bytes_simps)

lemma entries_bytes_split: "entries_bytes (filter P es) + entries_bytes (filter (\<lambda>e. \<not> P e) es) = entries_bytes es"
  by (induction es) auto

lemma entries_bytes_filter_id: "filter P es = es' \<Longrightarrow> (\<forall>e \<in> set es. P e) \<Longrightarrow> entries_bytes es' = entries_bytes es"
  by (metis filter_True)

subsection \<open>Eviction\<close>

text \<open>
  The loop ends, keeps a prefix of the recency order (so it drops the least recently used entries), frees
  as much as was asked for unless nothing is left, and drops no entry after that.
\<close>

definition evicted ::
  "nat \<Rightarrow> nat \<Rightarrow> (cache_key \<times> cached_chunk) list \<Rightarrow> nat \<Rightarrow> (cache_key \<times> cached_chunk) list \<Rightarrow> bool" where
  "evicted bytes_to_free freed es freed' es' \<longleftrightarrow>
     (\<exists>i. es' = take i es \<and> freed' = freed + entries_bytes (drop i es) \<and>
        (bytes_to_free \<le> freed' \<or> es' = []) \<and>
        (i < length es \<longrightarrow> freed + entries_bytes (drop (Suc i) es) < bytes_to_free))"

lemma evicted_refl: "\<not> (freed < b \<and> es \<noteq> []) \<Longrightarrow> evicted b freed es freed es"
  unfolding evicted_def by (rule exI [of _ "length es"]) auto

lemma evicted_snoc:
  assumes "evicted b (freed + length (ck_data (snd e))) es freed' es'" and "freed < b"
  shows "evicted b freed (es @ [e]) freed' es'"
proof -
  obtain i where i: "es' = take i es" "freed' = freed + length (ck_data (snd e)) + entries_bytes (drop i es)"
    "b \<le> freed' \<or> es' = []"
    "i < length es \<longrightarrow> freed + length (ck_data (snd e)) + entries_bytes (drop (Suc i) es) < b"
    using assms(1) unfolding evicted_def by blast
  let ?j = "min i (length es)"
  have last: "freed + entries_bytes (drop (Suc ?j) (es @ [e])) < b"
  proof (cases "i < length es")
    case True
    with i(4) show ?thesis by simp
  next
    case False
    with assms(2) show ?thesis by simp
  qed
  have "es' = take ?j (es @ [e])" and "freed' = freed + entries_bytes (drop ?j (es @ [e]))"
    using i(1,2) by (auto simp: min_def)
  with last i(3) show ?thesis unfolding evicted_def by blast
qed

lemma evict_loop_returns:
  assumes doc: "lru_documented lo" and "lru_valid lo c" and "freed + entries_bytes (lru_iter lo c) < 2 ^ 64"
  shows "\<exists>c' freed' n'. evict_loop lo b freed n c = Some (c', freed', n') \<and> lru_valid lo c' \<and>
           lru_cap lo c' = lru_cap lo c \<and> evicted b freed (lru_iter lo c) freed' (lru_iter lo c')"
  using assms(2, 3)
proof (induction "lru_len lo c" arbitrary: c freed n)
  case 0
  then show ?case by (subst evict_loop.simps) (auto intro!: evicted_refl)
next
  case (Suc k)
  show ?case
  proof (cases "freed < b")
    case False
    with Suc.prems show ?thesis by (subst evict_loop.simps) (auto intro!: evicted_refl)
  next
    case True
    let ?es = "lru_iter lo c" and ?c = "fst (lru_pop_lru lo c)"
    from Suc.hyps(2) have ne: "?es \<noteq> []" by auto
    let ?e = "last ?es"
    have es: "?es = butlast ?es @ [?e]" using ne by simp
    have pop: "lru_pop_lru lo c = (?c, Some ?e)"
      using lru_pop_lru_laws(4) [OF doc Suc.prems(1)] ne by (simp add: prod_eq_iff)
    note c' = lru_pop_lru_laws [OF doc Suc.prems(1)]
    have bytes: "entries_bytes ?es = entries_bytes (butlast ?es) + length (ck_data (snd ?e))"
      by (subst es) simp
    have add: "add_u64 freed (length (ck_data (snd ?e))) = freed + length (ck_data (snd ?e))"
      using Suc.prems(2) bytes by (simp add: add_u64_mod)
    have step: "evict_loop lo b freed n c = evict_loop lo b (freed + length (ck_data (snd ?e))) (n + 1) ?c"
      by (subst evict_loop.simps) (use True ne pop add in \<open>auto split: prod.splits\<close>)
    have len: "k = lru_len lo ?c" using Suc.hyps(2) by (simp add: c'(3))
    have lt: "freed + length (ck_data (snd ?e)) + entries_bytes (lru_iter lo ?c) < 2 ^ 64"
      using Suc.prems(2) bytes by (simp add: c'(3))
    obtain c'' freed' n' where r: "evict_loop lo b (freed + length (ck_data (snd ?e))) (n + 1) ?c = Some (c'', freed', n')"
      "lru_valid lo c''" "lru_cap lo c'' = lru_cap lo ?c"
      "evicted b (freed + length (ck_data (snd ?e))) (lru_iter lo ?c) freed' (lru_iter lo c'')"
      using Suc.hyps(1) [OF len c'(1) lt, of "n + 1"] by blast
    have "evicted b freed (butlast ?es @ [?e]) freed' (lru_iter lo c'')"
      using r(4) True by (intro evicted_snoc) (simp_all add: c'(3))
    then have "evicted b freed ?es freed' (lru_iter lo c'')" by (simp only: append_butlast_last_id [OF ne])
    with r(1-3) step c'(2) show ?thesis by simp
  qed
qed

text \<open>
  The invariant of the chunk cache: the entries hold at most the tracked number of bytes and at most
  the budget, and the tracked number exceeds them by at most the budget.
\<close>

definition chunk_inv :: "'c chunk_ops \<Rightarrow> 'c chunk_cache \<Rightarrow> bool" where
  "chunk_inv lo s \<longleftrightarrow>
     (let stored = entries_bytes (lru_iter lo (kc_cache s)) in
      lru_valid lo (kc_cache s) \<and> kc_max_size_bytes s < 2 ^ 62 \<and> stored \<le> kc_max_size_bytes s \<and>
      stored \<le> kc_current_size_bytes s \<and> kc_current_size_bytes s \<le> stored + kc_max_size_bytes s \<and>
      (\<forall>e \<in> set (lru_iter lo (kc_cache s)). ky_size (fst e) = length (ck_data (snd e))))"

lemma chunk_inv_new:
  assumes "lru_documented lo" and "max_bytes < 2 ^ 62"
  shows "chunk_inv lo (chunk_cache_new lo max_bytes)"
  using assms by (simp add: chunk_inv_def chunk_cache_new_def lru_laws)

lemma evict_chunks_returns:
  assumes doc: "lru_documented lo" and inv: "chunk_inv lo s"
  shows "\<exists>s' freed. evict_chunks lo b s = Some (s', freed) \<and> chunk_inv lo s' \<and>
           kc_max_size_bytes s' = kc_max_size_bytes s \<and> lru_cap lo (kc_cache s') = lru_cap lo (kc_cache s) \<and>
           kc_current_size_bytes s' + freed = kc_current_size_bytes s \<and>
           evicted b 0 (lru_iter lo (kc_cache s)) freed (lru_iter lo (kc_cache s'))"
proof -
  let ?es = "lru_iter lo (kc_cache s)"
  have lt: "0 + entries_bytes ?es < 2 ^ 64" and valid: "lru_valid lo (kc_cache s)"
    using inv by (auto simp: chunk_inv_def Let_def)
  obtain c' freed n where r: "evict_loop lo b 0 0 (kc_cache s) = Some (c', freed, n)" "lru_valid lo c'"
    "lru_cap lo c' = lru_cap lo (kc_cache s)" "evicted b 0 ?es freed (lru_iter lo c')"
    using evict_loop_returns [OF doc valid lt] by blast
  obtain i where i: "lru_iter lo c' = take i ?es" "freed = entries_bytes (drop i ?es)"
    using r(4) by (auto simp: evicted_def)
  have split: "entries_bytes ?es = entries_bytes (lru_iter lo c') + freed"
    using entries_bytes_simps(3) [of "take i ?es" "drop i ?es"] by (simp add: i del: entries_bytes_simps)
  have sub: "\<forall>e \<in> set (lru_iter lo c'). e \<in> set ?es" using i(1) by (auto dest: in_set_takeD)
  let ?s = "s\<lparr>kc_cache := c', kc_current_size_bytes := kc_current_size_bytes s - freed,
              kc_stats := (kc_stats s)\<lparr>st_evictions := st_evictions (kc_stats s) + n\<rparr>\<rparr>"
  have ev: "evict_chunks lo b s = Some (?s, freed)"
    using r(1) by (simp add: evict_chunks_def sat_sub_def)
  have inv': "chunk_inv lo ?s"
    using inv r(2) split sub unfolding chunk_inv_def Let_def
    by simp (elim conjE, intro conjI; linarith)
  have "kc_current_size_bytes s - freed + freed = kc_current_size_bytes s"
    using inv split by (simp add: chunk_inv_def Let_def)
  with ev inv' r(3,4) show ?thesis by (intro exI [of _ ?s] exI [of _ freed]) simp
qed

subsection \<open>The chunk cache keeps its invariant\<close>

lemma chunk_invD:
  assumes "chunk_inv lo s"
  shows "lru_valid lo (kc_cache s)" and "kc_max_size_bytes s < 2 ^ 62"
    and "entries_bytes (lru_iter lo (kc_cache s)) \<le> kc_max_size_bytes s"
    and "entries_bytes (lru_iter lo (kc_cache s)) \<le> kc_current_size_bytes s"
    and "kc_current_size_bytes s \<le> entries_bytes (lru_iter lo (kc_cache s)) + kc_max_size_bytes s"
    and "e \<in> set (lru_iter lo (kc_cache s)) \<Longrightarrow> ky_size (fst e) = length (ck_data (snd e))"
  using assms by (simp_all add: chunk_inv_def Let_def)

lemma put_entries_bytes_le:
  "entries_bytes (take n ((k, v) # filter P es)) \<le> length (ck_data v) + entries_bytes es"
  using entries_bytes_take_le [of n "(k, v) # filter P es"] entries_bytes_filter_le [of P es] by simp

lemma put_chunk_inv:
  assumes doc: "lru_documented lo" and inv: "chunk_inv lo s" and small: "length data \<le> kc_max_size_bytes s div 4"
    and room: "kc_current_size_bytes s + length data \<le> kc_max_size_bytes s \<or> lru_iter lo (kc_cache s) = []"
  shows "chunk_inv lo (put_chunk lo now f off data s)"
    and "kc_current_size_bytes (put_chunk lo now f off data s) = kc_current_size_bytes s + length data"
    and "kc_max_size_bytes (put_chunk lo now f off data s) = kc_max_size_bytes s"
proof -
  let ?s = "put_chunk lo now f off data s"
  note I = chunk_invD [OF inv]
  have add: "add_u64 (kc_current_size_bytes s) (length data) = kc_current_size_bytes s + length data"
    using I(2-5) small by (simp add: add_u64_mod)
  then show cur: "kc_current_size_bytes ?s = kc_current_size_bytes s + length data"
    by (simp add: put_chunk_def Let_def)
  show mx: "kc_max_size_bytes ?s = kc_max_size_bytes s" by (simp add: put_chunk_def Let_def)
  let ?k = "cache_key_new f off (length data)"
  let ?v = "\<lparr>ck_data = data, ck_epoch_id = ''current'', ck_cache_time = now, ck_access_count = 1\<rparr>"
  have cache: "kc_cache ?s = lru_put lo ?k ?v (kc_cache s)" by (simp add: put_chunk_def Let_def)
  have iter: "lru_iter lo (kc_cache ?s) =
      take (lru_cap lo (kc_cache s)) ((?k, ?v) # filter (\<lambda>p. fst p \<noteq> ?k) (lru_iter lo (kc_cache s)))"
    using lru_put_laws(3) [OF doc I(1)] by (simp add: cache)
  have le: "entries_bytes (lru_iter lo (kc_cache ?s)) \<le> length data + entries_bytes (lru_iter lo (kc_cache s))"
    unfolding iter using put_entries_bytes_le [of _ ?k ?v] by simp
  have empty: "lru_iter lo (kc_cache s) = [] \<Longrightarrow> entries_bytes (lru_iter lo (kc_cache ?s)) = length data"
    unfolding iter using lru_valid_facts(1) [OF doc I(1)] by (cases "lru_cap lo (kc_cache s)") auto
  have sizes: "\<forall>e \<in> set (lru_iter lo (kc_cache ?s)). ky_size (fst e) = length (ck_data (snd e))"
    unfolding iter using I(6) by (auto simp: cache_key_new_def dest!: in_set_takeD)
  have valid: "lru_valid lo (kc_cache ?s)" unfolding cache by (rule lru_put_laws(1) [OF doc I(1)])
  from room show "chunk_inv lo ?s"
  proof
    assume "kc_current_size_bytes s + length data \<le> kc_max_size_bytes s"
    with valid sizes le I(2-5) show ?thesis by (simp add: chunk_inv_def Let_def cur mx)
  next
    assume e: "lru_iter lo (kc_cache s) = []"
    with valid sizes empty [OF e] I(2-5) small show ?thesis by (simp add: chunk_inv_def Let_def cur mx)
  qed
qed

lemma ensure_cache_space_returns:
  assumes doc: "lru_documented lo" and inv: "chunk_inv lo s" and small: "n \<le> kc_max_size_bytes s div 4"
  shows "\<exists>s'. ensure_cache_space lo n s = Some s' \<and> chunk_inv lo s' \<and> kc_max_size_bytes s' = kc_max_size_bytes s \<and>
           (\<exists>i. lru_iter lo (kc_cache s') = take i (lru_iter lo (kc_cache s))) \<and>
           kc_current_size_bytes s' \<le> kc_current_size_bytes s \<and>
           (kc_current_size_bytes s' + n \<le> kc_max_size_bytes s \<or> lru_iter lo (kc_cache s') = [])"
proof -
  note I = chunk_invD [OF inv]
  have add: "add_u64 (kc_current_size_bytes s) n = kc_current_size_bytes s + n"
    using I(2-5) small by (simp add: add_u64_mod)
  show ?thesis
  proof (cases "kc_current_size_bytes s + n \<le> kc_max_size_bytes s")
    case True
    have "\<exists>i. lru_iter lo (kc_cache s) = take i (lru_iter lo (kc_cache s))"
      by (rule exI [of _ "length (lru_iter lo (kc_cache s))"]) simp
    with True inv add show ?thesis by (simp add: ensure_cache_space_def)
  next
    case False
    let ?target = "unat (of_nat (kc_max_size_bytes s) * 3 :: u64) div 4"
    have "unat (of_nat (kc_max_size_bytes s) * 3 :: u64) = kc_max_size_bytes s * 3"
      using unat_of_nat_u64 [of "kc_max_size_bytes s * 3"] I(2) by simp
    then have target: "?target \<le> kc_max_size_bytes s" by simp
    let ?b = "kc_current_size_bytes s + n - ?target"
    obtain s' freed where ev: "evict_chunks lo ?b s = Some (s', freed)" "chunk_inv lo s'"
      "kc_max_size_bytes s' = kc_max_size_bytes s" "kc_current_size_bytes s' + freed = kc_current_size_bytes s"
      "evicted ?b 0 (lru_iter lo (kc_cache s)) freed (lru_iter lo (kc_cache s'))"
      using evict_chunks_returns [OF doc inv] by blast
    have "ensure_cache_space lo n s = Some s'"
      using False ev(1) by (simp add: ensure_cache_space_def add sat_sub_def Let_def)
    moreover have "kc_current_size_bytes s' + n \<le> kc_max_size_bytes s \<or> lru_iter lo (kc_cache s') = []"
      using ev(4,5) target by (auto simp: evicted_def)
    moreover have "\<exists>i. lru_iter lo (kc_cache s') = take i (lru_iter lo (kc_cache s))"
      using ev(5) by (auto simp: evicted_def)
    ultimately show ?thesis using ev(2-4) by auto
  qed
qed

lemma insert_chunk_inv:
  assumes doc: "lru_documented lo" and inv: "chunk_inv lo s"
  shows "\<exists>s'. insert_chunk lo now f off data s = Some s' \<and> chunk_inv lo s' \<and> kc_max_size_bytes s' = kc_max_size_bytes s"
proof (cases "kc_max_size_bytes s div 4 < length data")
  case True
  with inv show ?thesis by (simp add: insert_chunk_def)
next
  case False
  then have small: "length data \<le> kc_max_size_bytes s div 4" by simp
  obtain s' where s': "ensure_cache_space lo (length data) s = Some s'" "chunk_inv lo s'"
    "kc_max_size_bytes s' = kc_max_size_bytes s"
    "kc_current_size_bytes s' + length data \<le> kc_max_size_bytes s \<or> lru_iter lo (kc_cache s') = []"
    using ensure_cache_space_returns [OF doc inv small] by blast
  have "chunk_inv lo (put_chunk lo now f off data s')" and "kc_max_size_bytes (put_chunk lo now f off data s') = kc_max_size_bytes s'"
    using put_chunk_inv [OF doc s'(2), of data] s'(3,4) small by auto
  with s' False show ?thesis by (simp add: insert_chunk_def)
qed

lemma distinct_key_entry:
  "distinct (map fst es) \<Longrightarrow> (k, v) \<in> set es \<Longrightarrow> filter (\<lambda>p. fst p = k) es = [(k, v)]"
proof (induction es)
  case (Cons e es)
  show ?case
  proof (cases "fst e = k")
    case True
    with Cons.prems(1) have "\<forall>p \<in> set es. fst p \<noteq> k" by (auto simp: image_iff)
    moreover from this Cons.prems(2) have "e = (k, v)" by auto
    ultimately show ?thesis by (simp add: filter_empty_conv)
  next
    case False
    with Cons show ?thesis by auto
  qed
qed simp

text \<open>Moving an entry to the front keeps the set of keys and the number of bytes.\<close>

lemma touch_entries:
  assumes doc: "lru_documented lo" and valid: "lru_valid lo c" and mem: "(k, v) \<in> set (lru_iter lo c)"
    and len: "length (ck_data v') = length (ck_data v)"
  shows "lru_iter lo (lru_put lo k v' c) = (k, v') # filter (\<lambda>p. fst p \<noteq> k) (lru_iter lo c)"
    and "entries_bytes ((k, v') # filter (\<lambda>p. fst p \<noteq> k) (lru_iter lo c)) = entries_bytes (lru_iter lo c)"
proof -
  let ?es = "lru_iter lo c"
  note F = lru_valid_facts [OF doc valid]
  have one: "filter (\<lambda>p. fst p = k) ?es = [(k, v)]" by (rule distinct_key_entry [OF F(2) mem])
  have "length ?es = Suc (length (filter (\<lambda>p. fst p \<noteq> k) ?es))"
    using sum_length_filter_compl [of "\<lambda>p. fst p = k" ?es] one by simp
  with F(3) have "length (filter (\<lambda>p. fst p \<noteq> k) ?es) < lru_cap lo c" by simp
  then show "lru_iter lo (lru_put lo k v' c) = (k, v') # filter (\<lambda>p. fst p \<noteq> k) ?es"
    using lru_put_laws(3) [OF doc valid, of k v'] by (cases "lru_cap lo c") auto
  show "entries_bytes ((k, v') # filter (\<lambda>p. fst p \<noteq> k) ?es) = entries_bytes ?es"
    using entries_bytes_split [of "\<lambda>p. fst p = k" ?es] one len by simp
qed

lemma get_exact_chunk_inv:
  assumes doc: "lru_documented lo" and inv: "chunk_inv lo s"
  shows "chunk_inv lo (fst (get_exact_chunk lo key s))"
    and "kc_max_size_bytes (fst (get_exact_chunk lo key s)) = kc_max_size_bytes s"
    and "snd (get_exact_chunk lo key s) = None \<Longrightarrow> kc_cache (fst (get_exact_chunk lo key s)) = kc_cache s"
proof -
  let ?es = "lru_iter lo (kc_cache s)"
  note I = chunk_invD [OF inv]
  show "chunk_inv lo (fst (get_exact_chunk lo key s))"
  proof (cases "find (exact_match key) ?es")
    case None
    with inv show ?thesis by (simp add: get_exact_chunk_def chunk_inv_def)
  next
    case (Some e)
    obtain k v where e: "e = (k, v)" by (cases e)
    with Some have mem: "(k, v) \<in> set ?es" by (auto simp: find_Some_iff)
    let ?v = "v\<lparr>ck_access_count := ck_access_count v + 1\<rparr>"
    note T = touch_entries [OF doc I(1) mem, of ?v, simplified]
    have "\<forall>p \<in> set ((k, ?v) # filter (\<lambda>p. fst p \<noteq> k) ?es). ky_size (fst p) = length (ck_data (snd p))"
      using I(6) mem by auto
    moreover have "lru_valid lo (lru_put lo k ?v (kc_cache s))" by (rule lru_put_laws(1) [OF doc I(1)])
    ultimately show ?thesis using Some e inv T
      by (simp add: get_exact_chunk_def chunk_inv_def Let_def)
  qed
qed (auto simp: get_exact_chunk_def split: option.splits prod.splits)

lemma slice_SomeI: "i \<le> j \<Longrightarrow> j \<le> length b \<Longrightarrow> slice i j b = Some (take (j - i) (drop i b))"
  by (simp add: slice_def)

text \<open>
  One candidate of the overlap scan. The four comparisons of the code work on wrapping sums; when they
  all succeed nothing wrapped, and the slice is in range.
\<close>

lemma overlap_bounds:
  fixes off sz start :: u64
  assumes len: "n < 2 ^ 64"
    and ov: "max off start < min (off + sz) (start + of_nat n)"
  shows "unat (min (off + sz) (start + of_nat n)) = min (unat off + unat sz) (unat start + n)"
    and "unat (max off start) = max (unat off) (unat start)"
proof -
  have n: "unat (of_nat n :: u64) = n" using len by (rule unat_of_nat_u64)
  have "off \<le> off + sz" and "start \<le> start + of_nat n" using ov by (auto simp: less_imp_le)
  then have "unat (off + sz) = unat off + unat sz" and "unat (start + of_nat n) = unat start + n"
    using n by (simp_all add: unat_plus_simple)
  then show "unat (min (off + sz) (start + of_nat n)) = min (unat off + unat sz) (unat start + n)"
    by (simp add: min_def word_le_nat_alt)
  show "unat (max off start) = max (unat off) (unat start)"
    by (simp add: max_def word_le_nat_alt)
qed

definition overlap_hit :: "string \<Rightarrow> u64 \<Rightarrow> u64 \<Rightarrow> cache_key \<times> cached_chunk \<Rightarrow> bool" where
  "overlap_hit f off sz e \<longleftrightarrow>
     ky_file_id (fst e) = f \<and>
     max off (ky_offset (fst e)) < min (off + sz) (ky_offset (fst e) + of_nat (length (ck_data (snd e))))"

definition overlap_data :: "u64 \<Rightarrow> u64 \<Rightarrow> cache_key \<times> cached_chunk \<Rightarrow> bytes" where
  "overlap_data off sz e =
     (let start = unat (ky_offset (fst e));
          from = max (unat off) start;
          upto = min (unat off + unat sz) (start + length (ck_data (snd e)))
      in take (upto - from) (drop (from - start) (ck_data (snd e))))"

lemma overlap_slice:
  assumes "length (ck_data v) < 2 ^ 64"
    and ov: "max off (ky_offset k) < min (off + sz) (ky_offset k + of_nat (length (ck_data v)))"
  shows "slice (unat (max off (ky_offset k) - ky_offset k))
           (unat (max off (ky_offset k) - ky_offset k) +
            unat (min (off + sz) (ky_offset k + of_nat (length (ck_data v))) - max off (ky_offset k))) (ck_data v) =
         Some (overlap_data off sz (k, v))"
proof -
  let ?st = "ky_offset k"
  note B = overlap_bounds [OF assms]
  have d1: "unat (max off ?st - ?st) = max (unat off) (unat ?st) - unat ?st"
    by (simp add: unat_sub B(2) [symmetric])
  have d2: "unat (min (off + sz) (?st + of_nat (length (ck_data v))) - max off ?st) =
      min (unat off + unat sz) (unat ?st + length (ck_data v)) - max (unat off) (unat ?st)"
    using ov by (simp only: unat_sub [OF less_imp_le [OF ov]] B)
  have lt: "max (unat off) (unat ?st) < min (unat off + unat sz) (unat ?st + length (ck_data v))"
    using ov unfolding word_less_nat_alt B .
  show ?thesis unfolding d1 d2
    by (subst slice_SomeI) (use lt in \<open>auto simp: overlap_data_def Let_def\<close>)
qed

lemma get_overlapping_find:
  assumes "\<forall>e \<in> set es. length (ck_data (snd e)) < 2 ^ 64"
  shows "get_overlapping f off sz es = Some (map_option (overlap_data off sz) (find (overlap_hit f off sz) es))"
  using assms
proof (induction es)
  case (Cons e es)
  obtain k v where e: "e = (k, v)" by (cases e)
  let ?lo = "max off (ky_offset k)" and ?hi = "min (off + sz) (ky_offset k + of_nat (length (ck_data v)))"
  show ?case
  proof (cases "overlap_hit f off sz e")
    case True
    then have f: "ky_file_id k = f" and ov: "?lo < ?hi" by (auto simp: overlap_hit_def e)
    have lt: "off < ky_offset k + of_nat (length (ck_data v))" "ky_offset k < off + sz"
      using ov by (auto simp: less_max_iff_disj min_less_iff_disj)
    have "slice (unat (?lo - ky_offset k)) (unat (?lo - ky_offset k) + unat (?hi - ?lo)) (ck_data v) =
        Some (overlap_data off sz e)"
      using overlap_slice [of v off k sz] Cons.prems ov e by simp
    with True f ov lt show ?thesis by (simp add: e Let_def)
  next
    case False
    with Cons show ?thesis by (auto simp: overlap_hit_def e Let_def)
  qed
qed simp

lemma chunk_inv_lengths:
  assumes "chunk_inv lo s" and "e \<in> set (lru_iter lo (kc_cache s))"
  shows "length (ck_data (snd e)) < 2 ^ 64"
proof -
  have "length (ck_data (snd e)) \<le> entries_bytes (lru_iter lo (kc_cache s))"
    unfolding entries_bytes_def using assms(2) by (auto intro: member_le_sum_list)
  with chunk_invD(2,3) [OF assms(1)] show ?thesis by simp
qed

text \<open>The lookup in closed form, on the entries in recency order.\<close>

definition lookup_spec :: "string \<Rightarrow> u64 \<Rightarrow> u64 \<Rightarrow> (cache_key \<times> cached_chunk) list \<Rightarrow> bytes option" where
  "lookup_spec f off sz es =
     (case find (exact_match (cache_key_new f off (unat sz))) es of
        Some e \<Rightarrow> Some (take (unat sz) (ck_data (snd e)))
      | None \<Rightarrow> map_option (overlap_data off sz) (find (overlap_hit f off sz) es))"

lemma get_chunk_lookup:
  assumes doc: "lru_documented lo" and inv: "chunk_inv lo s"
  shows "get_chunk lo f off sz s =
           Some (fst (get_exact_chunk lo (cache_key_new f off (unat sz)) s), lookup_spec f off sz (lru_iter lo (kc_cache s)))"
proof (cases "find (exact_match (cache_key_new f off (unat sz))) (lru_iter lo (kc_cache s))")
  case None
  have "get_overlapping f off sz (lru_iter lo (kc_cache s)) =
      Some (map_option (overlap_data off sz) (find (overlap_hit f off sz) (lru_iter lo (kc_cache s))))"
    by (rule get_overlapping_find) (use chunk_inv_lengths [OF inv] in blast)
  with None show ?thesis
    by (simp add: get_chunk_def get_exact_chunk_def get_overlapping_chunk_def lookup_spec_def)
next
  case (Some e)
  then have "unat sz \<le> length (ck_data (snd e))" by (auto simp: find_Some_iff exact_match_def cache_key_new_def)
  with Some show ?thesis
    by (cases e) (simp add: get_chunk_def get_exact_chunk_def lookup_spec_def cache_key_new_def min.absorb1 Let_def)
qed

lemma pop_keys_laws:
  assumes doc: "lru_documented lo" and "lru_valid lo c" and "freed + entries_bytes (lru_iter lo c) < 2 ^ 64"
  shows "\<exists>c' freed' n'. pop_keys lo ks c freed n = (c', freed', n') \<and> lru_valid lo c' \<and>
           lru_iter lo c' = filter (\<lambda>e. fst e \<notin> set ks) (lru_iter lo c) \<and>
           freed' + entries_bytes (lru_iter lo c') = freed + entries_bytes (lru_iter lo c) \<and>
           n' + lru_len lo c' = n + lru_len lo c"
  using assms(2, 3)
proof (induction ks arbitrary: c freed n)
  case Nil
  then show ?case by simp
next
  case (Cons k ks)
  let ?es = "lru_iter lo c" and ?c = "fst (lru_pop lo k c)"
  note L = lru_pop_laws [OF doc Cons.prems(1), of k]
  have filt: "filter (\<lambda>e. fst e \<notin> set ks) (filter (\<lambda>p. fst p \<noteq> k) es) = filter (\<lambda>e. fst e \<notin> set (k # ks)) es"
    for es :: "(cache_key \<times> cached_chunk) list" by (induction es) auto
  show ?case
  proof (cases "map_of ?es k")
    case None
    then have "filter (\<lambda>p. fst p \<noteq> k) ?es = ?es" by (auto simp: filter_id_conv map_of_eq_None_iff)
    moreover have "pop_keys lo (k # ks) c freed n = pop_keys lo ks ?c freed n"
      using L(4) None by (simp add: prod.case_eq_if)
    moreover note Cons.IH [OF L(1), of freed n]
    ultimately show ?thesis using Cons.prems(2) L(3) filt [of ?es] by simp
  next
    case (Some v)
    let ?n = "length (ck_data v)"
    have "filter (\<lambda>p. fst p = k) ?es = [(k, v)]"
      using distinct_key_entry [OF lru_valid_facts(2) [OF doc Cons.prems(1)] map_of_SomeD [OF Some]] .
    then have bytes: "entries_bytes ?es = ?n + entries_bytes (lru_iter lo ?c)" and len: "length ?es = Suc (lru_len lo ?c)"
      using entries_bytes_split [of "\<lambda>p. fst p = k" ?es] sum_length_filter_compl [of "\<lambda>p. fst p = k" ?es] L(3) by simp_all
    have "add_u64 freed ?n = freed + ?n" using Cons.prems(2) bytes by (simp add: add_u64_mod)
    then have "pop_keys lo (k # ks) c freed n = pop_keys lo ks ?c (freed + ?n) (n + 1)"
      using L(4) Some by (simp add: prod.case_eq_if)
    moreover have "freed + ?n + entries_bytes (lru_iter lo ?c) < 2 ^ 64" using Cons.prems(2) bytes by simp
    note Cons.IH [OF L(1) this, of "n + 1"]
    ultimately show ?thesis using L(3) filt [of ?es] bytes len by auto
  qed
qed

lemma invalidate_file_spec:
  assumes doc: "lru_documented lo" and inv: "chunk_inv lo s"
  shows "\<exists>s'. invalidate_file lo f s = (s', length (filter (\<lambda>e. ky_file_id (fst e) = f) (lru_iter lo (kc_cache s)))) \<and>
           chunk_inv lo s' \<and> kc_max_size_bytes s' = kc_max_size_bytes s \<and>
           lru_iter lo (kc_cache s') = filter (\<lambda>e. ky_file_id (fst e) \<noteq> f) (lru_iter lo (kc_cache s))"
proof -
  let ?es = "lru_iter lo (kc_cache s)" and ?P = "\<lambda>e. ky_file_id (fst e) = f"
  let ?ks = "filter (\<lambda>key. ky_file_id key = f) (map fst ?es)"
  note I = chunk_invD [OF inv]
  obtain c' freed n where p: "pop_keys lo ?ks (kc_cache s) 0 0 = (c', freed, n)" "lru_valid lo c'"
    "lru_iter lo c' = filter (\<lambda>e. fst e \<notin> set ?ks) ?es"
    "freed + entries_bytes (lru_iter lo c') = entries_bytes ?es" "n + lru_len lo c' = length ?es"
    using pop_keys_laws [OF doc I(1), of 0 ?ks 0] I(2,3) by auto
  have iter: "lru_iter lo c' = filter (\<lambda>e. \<not> ?P e) ?es" unfolding p(3) by (rule filter_cong) auto
  have n: "n = length (filter ?P ?es)" using p(5) sum_length_filter_compl [of ?P ?es] iter by simp
  let ?s = "s\<lparr>kc_cache := c', kc_current_size_bytes := kc_current_size_bytes s - freed\<rparr>"
  have "chunk_inv lo ?s"
    using I p(2,4) iter by (simp add: chunk_inv_def Let_def) linarith
  moreover have "invalidate_file lo f s = (?s, n)"
    using p(1) by (simp add: invalidate_file_def sat_sub_def Let_def)
  ultimately show ?thesis using iter n by (intro exI [of _ ?s]) simp
qed

subsection \<open>Sequences of calls\<close>

datatype cache_call =
    GetChunk string u64 u64
  | InsertChunk instant string u64 bytes
  | EvictLru nat
  | InvalidateFile string

fun cache_call_step :: "'c chunk_ops \<Rightarrow> cache_call \<Rightarrow> 'c chunk_cache \<Rightarrow> 'c chunk_cache option" where
  "cache_call_step lo (GetChunk f off sz) s = map_option fst (get_chunk lo f off sz s)"
| "cache_call_step lo (InsertChunk now f off data) s = insert_chunk lo now f off data s"
| "cache_call_step lo (EvictLru n) s = map_option fst (evict_lru lo n s)"
| "cache_call_step lo (InvalidateFile f) s = Some (fst (invalidate_file lo f s))"

primrec run_calls :: "'c chunk_ops \<Rightarrow> cache_call list \<Rightarrow> 'c chunk_cache \<Rightarrow> 'c chunk_cache option" where
  "run_calls lo [] s = Some s"
| "run_calls lo (call # calls) s =
     (case cache_call_step lo call s of None \<Rightarrow> None | Some s' \<Rightarrow> run_calls lo calls s')"

lemma cache_call_step_inv:
  assumes doc: "lru_documented lo" and inv: "chunk_inv lo s"
  shows "\<exists>s'. cache_call_step lo call s = Some s' \<and> chunk_inv lo s' \<and> kc_max_size_bytes s' = kc_max_size_bytes s"
proof (cases call)
  case (GetChunk f off sz)
  with get_exact_chunk_inv(1,2) [OF doc inv] get_chunk_lookup [OF doc inv] show ?thesis by simp
next
  case (InsertChunk now f off data)
  with insert_chunk_inv [OF doc inv] show ?thesis by simp
next
  case (EvictLru n)
  obtain s' freed where "evict_chunks lo n s = Some (s', freed)" "chunk_inv lo s'" "kc_max_size_bytes s' = kc_max_size_bytes s"
    using evict_chunks_returns [OF doc inv] by blast
  with EvictLru inv show ?thesis by (simp add: evict_lru_def)
next
  case (InvalidateFile f)
  obtain s' n where "invalidate_file lo f s = (s', n)" "chunk_inv lo s'" "kc_max_size_bytes s' = kc_max_size_bytes s"
    using invalidate_file_spec [OF doc inv] by blast
  with InvalidateFile show ?thesis by simp
qed

lemma run_calls_inv:
  assumes doc: "lru_documented lo" and "chunk_inv lo s"
  shows "\<exists>s'. run_calls lo calls s = Some s' \<and> chunk_inv lo s' \<and> kc_max_size_bytes s' = kc_max_size_bytes s"
  using assms(2)
proof (induction calls arbitrary: s)
  case (Cons call calls)
  obtain s1 where "cache_call_step lo call s = Some s1" "chunk_inv lo s1" "kc_max_size_bytes s1 = kc_max_size_bytes s"
    using cache_call_step_inv [OF doc Cons.prems] by blast
  with Cons.IH [of s1] show ?case by simp
qed simp

subsection \<open>What a cached read returns\<close>

text \<open>Every entry holds the bytes of its file at its offset.\<close>

definition coherent :: "(string \<Rightarrow> bytes) \<Rightarrow> (cache_key \<times> cached_chunk) list \<Rightarrow> bool" where
  "coherent content es \<longleftrightarrow>
     (\<forall>e \<in> set es. ck_data (snd e) =
        take (length (ck_data (snd e))) (drop (unat (ky_offset (fst e))) (content (ky_file_id (fst e)))))"

definition part_of :: "bytes \<Rightarrow> nat \<Rightarrow> bytes \<Rightarrow> bool" where
  "part_of file start data \<longleftrightarrow> data = take (length data) (drop start file)"

lemma part_of_sub:
  assumes "part_of file start data"
  shows "part_of file (start + i) (take n (drop i data))"
proof -
  have "drop i data = take (length data - i) (drop (start + i) file)"
    using assms unfolding part_of_def by (metis drop_drop drop_take add.commute)
  then have "take n (drop i data) = take (min n (length data - i)) (drop (start + i) file)" by simp
  moreover have "take (length (take m (drop (start + i) file))) (drop (start + i) file) = take m (drop (start + i) file)" for m
    by (simp add: min_def)
  ultimately show ?thesis unfolding part_of_def by metis
qed

lemma coherent_part_of: "coherent content es \<longleftrightarrow>
    (\<forall>e \<in> set es. part_of (content (ky_file_id (fst e))) (unat (ky_offset (fst e))) (ck_data (snd e)))"
  by (simp add: coherent_def part_of_def)

lemma lookup_spec_coherent:
  assumes coh: "coherent content es" and "lookup_spec f off sz es = Some data"
  shows "\<exists>start. unat off \<le> start \<and> part_of (content f) start data \<and> length data \<le> unat sz \<and>
           (start = unat off \<or> (\<exists>e \<in> set es. ky_file_id (fst e) = f \<and> unat (ky_offset (fst e)) = start))"
proof (cases "find (exact_match (cache_key_new f off (unat sz))) es")
  case (Some e)
  then have e: "e \<in> set es" "ky_file_id (fst e) = f" "ky_offset (fst e) = off"
    by (auto simp: find_Some_iff exact_match_def cache_key_new_def)
  then have "part_of (content f) (unat off) (take (unat sz) (ck_data (snd e)))"
    using coh part_of_sub [of "content f" "unat off" "ck_data (snd e)" 0 "unat sz"] by (auto simp: coherent_part_of)
  with assms(2) Some show ?thesis by (auto simp: lookup_spec_def)
next
  case None
  with assms(2) obtain e where f: "find (overlap_hit f off sz) es = Some e" and data: "data = overlap_data off sz e"
    by (auto simp: lookup_spec_def)
  let ?st = "unat (ky_offset (fst e))"
  let ?from = "max (unat off) ?st"
  from f have e: "e \<in> set es" "ky_file_id (fst e) = f" by (auto simp: find_Some_iff overlap_hit_def)
  have "part_of (content f) (?st + (?from - ?st)) data" unfolding data overlap_data_def Let_def
    by (rule part_of_sub) (use coh e in \<open>auto simp: coherent_part_of\<close>)
  moreover have "length data \<le> unat sz" by (auto simp: data overlap_data_def Let_def)
  ultimately show ?thesis using e by (intro exI [of _ ?from]) auto
qed

lemma get_exact_chunk_coherent:
  assumes doc: "lru_documented lo" and inv: "chunk_inv lo s" and coh: "coherent content (lru_iter lo (kc_cache s))"
  shows "coherent content (lru_iter lo (kc_cache (fst (get_exact_chunk lo key s))))"
proof (cases "find (exact_match key) (lru_iter lo (kc_cache s))")
  case None
  with coh show ?thesis by (simp add: get_exact_chunk_def)
next
  case (Some e)
  obtain k v where e: "e = (k, v)" by (cases e)
  with Some have mem: "(k, v) \<in> set (lru_iter lo (kc_cache s))" by (auto simp: find_Some_iff)
  have "coherent content ((k, v\<lparr>ck_access_count := ck_access_count v + 1\<rparr>) # filter (\<lambda>p. fst p \<noteq> k) (lru_iter lo (kc_cache s)))"
    using coh mem by (auto simp: coherent_part_of)
  then show ?thesis
    using Some e touch_entries(1) [OF doc chunk_invD(1) [OF inv] mem] by (simp add: get_exact_chunk_def Let_def)
qed

subsection \<open>An LRU map over lists\<close>

text \<open>An instance of the crate's documentation, on which the properties below are evaluated.\<close>

definition list_lru :: "('k, 'v, nat \<times> ('k \<times> 'v) list) lru_ops" where
  "list_lru =
     \<lparr>lru_new = (\<lambda>n. (n, [])),
      lru_valid = (\<lambda>(n, es). 0 < n \<and> distinct (map fst es) \<and> length es \<le> n),
      lru_cap = fst,
      lru_iter = snd,
      lru_put = (\<lambda>k v (n, es). (n, take n ((k, v) # filter (\<lambda>p. fst p \<noteq> k) es))),
      lru_pop = (\<lambda>k (n, es). ((n, filter (\<lambda>p. fst p \<noteq> k) es), map_of es k)),
      lru_pop_lru = (\<lambda>(n, es). ((n, butlast es), if es = [] then None else Some (last es))),
      lru_get_mut = (\<lambda>k f (n, es).
        ((n, case map_of es k of None \<Rightarrow> es | Some v \<Rightarrow> (k, f v) # filter (\<lambda>p. fst p \<noteq> k) es),
         map_option f (map_of es k)))\<rparr>"

lemma distinct_map_fst_take: "distinct (map fst es) \<Longrightarrow> distinct (map fst (take n es))"
  by (simp add: take_map [symmetric])

lemma distinct_put: "distinct (map fst es) \<Longrightarrow> distinct (map fst ((k, v) # filter (\<lambda>p. fst p \<noteq> k) es))"
  by (auto simp: distinct_map inj_on_def)

lemma length_touch: "(k, v) \<in> set es \<Longrightarrow> length (filter (\<lambda>p. fst p \<noteq> k) es) < length es"
  by (rule length_filter_less) auto

lemma list_lru_documented: "lru_documented (list_lru :: ('k, 'v, nat \<times> ('k \<times> 'v) list) lru_ops)"
proof -
  have put: "distinct (map fst (take n ((k, v) # filter (\<lambda>p. fst p \<noteq> k) es)))"
    if "distinct (map fst es)" for n k v and es :: "('k \<times> 'v) list"
    using that by (intro distinct_map_fst_take distinct_put)
  have pop: "distinct (map fst (filter P es))" if "distinct (map fst es)" for P and es :: "('k \<times> 'v) list"
    using that by (auto simp: distinct_map inj_on_def)
  have bl: "distinct (map fst (butlast es))" if "distinct (map fst es)" for es :: "('k \<times> 'v) list"
    using that by (simp add: map_butlast distinct_butlast)
  show ?thesis
    unfolding lru_documented_def
  proof (intro conjI allI impI, goal_cases)
    case (18 c k f)
    then show ?case
      by (cases c) (auto simp: list_lru_def pop Suc_le_eq split: option.splits intro: less_le_trans [OF length_touch])
  next
    case (20 c k f)
    then show ?case by (cases c) (simp add: list_lru_def split: option.splits)
  qed (auto simp: list_lru_def put pop bl split: prod.splits intro: le_trans [OF length_filter_le])
qed

subsection \<open>Memory pressure\<close>

lemma shrink_loop_returns:
  assumes doc: "lru_documented mo" and "lru_valid mo c"
  shows "\<exists>c'. shrink_loop mo n removed c = Some (c', removed + (lru_len mo c - n)) \<and> lru_valid mo c' \<and>
           lru_iter mo c' = take n (lru_iter mo c)"
  using assms(2)
proof (induction "lru_len mo c" arbitrary: c removed)
  case 0
  then show ?case by (subst shrink_loop.simps) simp
next
  case (Suc k)
  show ?case
  proof (cases "n < lru_len mo c")
    case False
    with Suc.prems show ?thesis by (subst shrink_loop.simps) simp
  next
    case True
    let ?c = "fst (lru_pop_lru mo c)"
    note L = lru_pop_lru_laws [OF doc Suc.prems]
    from True have ne: "lru_iter mo c \<noteq> []" by auto
    have "shrink_loop mo n removed c = shrink_loop mo n (removed + 1) ?c"
      by (subst shrink_loop.simps) (use True ne L(4) in \<open>auto simp: prod.case_eq_if\<close>)
    moreover have "take n (butlast (lru_iter mo c)) = take n (lru_iter mo c)"
      using True by (simp add: take_butlast)
    moreover have "k = lru_len mo ?c" using Suc.hyps(2) L(3) by simp
    ultimately show ?thesis using Suc.hyps(1) [of ?c "removed + 1"] L(1,3) True by auto
  qed
qed

text \<open>
  Handling memory pressure always returns and keeps the invariant of the chunk cache; the metadata map
  keeps its most recently used entries.
\<close>

lemma handle_memory_pressure_returns:
  assumes doc: "lru_documented lo" "lru_documented mo" and inv: "chunk_inv lo (cm_chunk_cache m)"
    and valid: "lru_valid mo (mc_cache (cm_metadata_cache m))"
  shows "\<exists>m' freed n. handle_memory_pressure lo mo entry_bytes m = Some (m', freed) \<and> chunk_inv lo (cm_chunk_cache m') \<and>
           lru_valid mo (mc_cache (cm_metadata_cache m')) \<and>
           lru_iter mo (mc_cache (cm_metadata_cache m')) = take n (lru_iter mo (mc_cache (cm_metadata_cache m)))"
proof -
  have "\<exists>m1. relieve_chunks lo m = Some m1 \<and> chunk_inv lo (cm_chunk_cache m1) \<and> cm_metadata_cache m1 = cm_metadata_cache m"
    using inv evict_chunks_returns [OF doc(1) inv] by (fastforce simp: relieve_chunks_def evict_lru_def Let_def)
  then obtain m1 where m1: "relieve_chunks lo m = Some m1" "chunk_inv lo (cm_chunk_cache m1)"
      "cm_metadata_cache m1 = cm_metadata_cache m" by blast
  let ?es = "lru_iter mo (mc_cache (cm_metadata_cache m))"
  have shrink: "\<exists>s' k. shrink_to mo n (cm_metadata_cache m1) = Some (s', k) \<and> lru_valid mo (mc_cache s') \<and>
      lru_iter mo (mc_cache s') = take n ?es" for n
  proof -
    obtain c' k where c': "shrink_loop mo n 0 (mc_cache (cm_metadata_cache m)) = Some (c', k)" "lru_valid mo c'"
        "lru_iter mo c' = take n ?es"
      using shrink_loop_returns [OF doc(2) valid, of n 0] by blast
    show ?thesis unfolding shrink_to_def m1(3) c'(1) option.map prod.case
      by (intro exI conjI, rule refl) (simp_all add: c'(2,3))
  qed
  have "\<exists>m2 n. relieve_metadata mo entry_bytes m1 = Some m2 \<and> cm_chunk_cache m2 = cm_chunk_cache m1 \<and>
      lru_valid mo (mc_cache (cm_metadata_cache m2)) \<and> lru_iter mo (mc_cache (cm_metadata_cache m2)) = take n ?es"
  proof (cases "relieve_metadata mo entry_bytes m1 = Some m1")
    case True
    with valid m1(3) show ?thesis by (intro exI [of _ m1] exI [of _ "length ?es"]) simp
  next
    case False
    then obtain n where "relieve_metadata mo entry_bytes m1 =
        map_option (\<lambda>(s, _). m1\<lparr>cm_metadata_cache := s\<rparr>) (shrink_to mo n (cm_metadata_cache m1))"
      by (auto simp: relieve_metadata_def Let_def split: if_splits)
    with shrink [of n] show ?thesis by force
  qed
  with m1 show ?thesis by (fastforce simp: handle_memory_pressure_def)
qed

subsection \<open>Eviction order\<close>

lemma f64_of_nat_mono: "a \<le> b \<Longrightarrow> f64_of_nat a \<le> f64_of_nat b"
  by (auto simp: f64_of_nat_def intro!: f64_mono)

lemma f64_of_nat_pos: "0 < n \<Longrightarrow> 0 < f64_of_nat n"
  using f64_of_nat_mono [of 1 n] by (simp add: f64_of_nat_def)

lemma as_secs_f64_mono:
  assumes "0 \<le> d" and "d \<le> e" and "e div 1000000000 < 2 ^ 53"
  shows "as_secs_f64 d \<le> as_secs_f64 e"
proof -
  let ?s = "\<lambda>d. d div 1000000000" and ?n = "\<lambda>d. f64_div (of_int (d mod 1000000000)) 1000000000"
  have le: "?s d \<le> ?s e" using assms(2) by (rule zdiv_mono1) simp
  have exact: "f64 (of_int (?s d)) = of_int (?s d)" "f64 (of_int (?s e)) = of_int (?s e)"
    using assms le by (auto intro!: f64_of_int simp: pos_imp_zdiv_nonneg_iff)
  have nonneg: "0 \<le> ?n x" for x by (auto simp: f64_div_def intro!: f64_nonneg)
  have "?n d \<le> 1" unfolding f64_div_def
    using f64_mono [of "of_int (d mod 1000000000) / 1000000000 :: rat" 1] by simp
  have "of_int (?s d) + ?n d \<le> of_int (?s e) + ?n e"
  proof (cases "?s d = ?s e")
    case True
    then have "d mod 1000000000 \<le> e mod 1000000000" using assms(2) by (metis add_le_cancel_left div_mult_mod_eq)
    then have "?n d \<le> ?n e" unfolding f64_div_def by (intro f64_mono) (auto simp: divide_right_mono)
    with True show ?thesis by simp
  next
    case False
    with le have "of_int (?s d) + (1 :: rat) \<le> of_int (?s e)" by linarith
    with \<open>?n d \<le> 1\<close> nonneg [of e] show ?thesis by linarith
  qed
  moreover have "0 \<le> of_int (?s d) + ?n d" using nonneg [of d] assms(1) by (simp add: pos_imp_zdiv_nonneg_iff)
  ultimately show ?thesis unfolding as_secs_f64_def exact by (intro f64_mono)
qed

text \<open>
  The item that was used least recently has the largest \<open>LRU\<close> priority, and the item that was used least
  often the largest \<open>LFU\<close> priority.
\<close>

lemma lru_priority_order:
  assumes "last1 \<le> last2" and "(now - last1) div 1000000000 < 2 ^ 53"
  shows "\<exists>p1 p2. calculate_priority LRU now n1 last1 sz1 age1 = Some p1 \<and>
           calculate_priority LRU now n2 last2 sz2 age2 = Some p2 \<and> p2 \<le> p1"
proof -
  have "0 \<le> as_secs_f64 d" if "0 \<le> d" "d div 1000000000 < 2 ^ 53" for d
    using as_secs_f64_mono [of 0 d] that by (simp add: as_secs_f64_def f64_div_def)
  with as_secs_f64_mono [of "now - last2" "now - last1"] assms show ?thesis
    by (auto simp: calculate_priority_def)
qed

lemma lfu_priority_order:
  assumes "n1 \<le> n2" and "0 < n1"
  shows "\<exists>p1 p2. calculate_priority LFU now n1 last1 sz1 age1 = Some p1 \<and>
           calculate_priority LFU now n2 last2 sz2 age2 = Some p2 \<and> p2 \<le> p1"
proof -
  have n: "0 < unat n1" "unat n1 \<le> unat n2" using assms by (auto simp: word_le_nat_alt word_less_nat_alt)
  have "0 < f64_of_nat (unat n1)" and "f64_of_nat (unat n1) \<le> f64_of_nat (unat n2)"
    using n by (auto intro: f64_of_nat_pos f64_of_nat_mono)
  then have "f64_div 1 (f64_of_nat (unat n2)) \<le> f64_div 1 (f64_of_nat (unat n1))"
    unfolding f64_div_def by (intro f64_mono) (auto simp: frac_le)
  moreover have "0 < n2" using assms by simp
  ultimately show ?thesis using assms(2) by (simp add: calculate_priority_def)
qed

subsection \<open>Properties\<close>

text \<open>
  C24. The eviction loop always ends: for every documented LRU map it drops a suffix of the recency
  order, hence the least recently used entries, reports exactly their bytes, frees the requested number
  of bytes unless the cache is empty, and drops no entry more than that needs.
\<close>

theorem eviction_terminates:
  assumes "lru_documented lo" and "lru_valid lo c" and "entries_bytes (lru_iter lo c) < 2 ^ 64"
  shows "\<exists>c' freed n i. evict_loop lo bytes_to_free 0 0 c = Some (c', freed, n) \<and> lru_valid lo c' \<and>
           lru_iter lo c' = take i (lru_iter lo c) \<and> freed = entries_bytes (drop i (lru_iter lo c)) \<and>
           (bytes_to_free \<le> freed \<or> lru_iter lo c' = []) \<and>
           (i < lru_len lo c \<longrightarrow> entries_bytes (drop (Suc i) (lru_iter lo c)) < bytes_to_free)"
proof -
  obtain c' freed n where "evict_loop lo bytes_to_free 0 0 c = Some (c', freed, n)" "lru_valid lo c'"
    "evicted bytes_to_free 0 (lru_iter lo c) freed (lru_iter lo c')"
    using evict_loop_returns [OF assms(1,2), of 0 bytes_to_free 0] assms(3) by auto
  then show ?thesis unfolding evicted_def by auto
qed

definition sample_entry :: "u64 \<Rightarrow> bytes \<Rightarrow> cache_key \<times> cached_chunk" where
  "sample_entry off data =
     (\<lparr>ky_file_id = ''a'', ky_offset = off, ky_size = length data\<rparr>,
      \<lparr>ck_data = data, ck_epoch_id = ''current'', ck_cache_time = 0, ck_access_count = 1\<rparr>)"

theorem eviction_terminates_witness:
  "\<exists>c' freed n i. evict_loop list_lru 3 0 0 (4, [sample_entry 0 [1, 2], sample_entry 2 [3, 4], sample_entry 4 [5, 6]]) =
     Some (c', freed, n) \<and>
     freed = entries_bytes (drop i [sample_entry 0 [1, 2], sample_entry 2 [3, 4], sample_entry 4 [5, 6]]) \<and>
     (3 \<le> freed \<or> lru_iter list_lru c' = [])"
proof -
  let ?es = "[sample_entry 0 [1, 2], sample_entry 2 [3, 4], sample_entry 4 [5, 6]]"
  have valid: "lru_valid list_lru (4, ?es)" and iter: "lru_iter list_lru (4, ?es) = ?es"
    by (simp_all add: list_lru_def sample_entry_def)
  have "entries_bytes (lru_iter list_lru (4, ?es)) < 2 ^ 64" unfolding iter by (simp add: sample_entry_def)
  from eviction_terminates [OF list_lru_documented valid this, of 3] show ?thesis unfolding iter by blast
qed

text \<open>
  C14. No sequence of reads, insertions, evictions and file invalidations, one after the other, on a
  fresh cache with a budget below \<open>2 ^ 62\<close> bytes panics or loops, and after each the bytes held never exceed the configured budget: although the tracked size
  may drift upwards it never falls below the bytes held, and the drift never exceeds the budget.
\<close>

theorem chunk_cache_within_budget:
  assumes "lru_documented lo" and "max_bytes < 2 ^ 62"
  shows "\<exists>s. run_calls lo calls (chunk_cache_new lo max_bytes) = Some s \<and>
           entries_bytes (lru_iter lo (kc_cache s)) \<le> max_bytes \<and>
           entries_bytes (lru_iter lo (kc_cache s)) \<le> kc_current_size_bytes s \<and>
           kc_current_size_bytes s \<le> entries_bytes (lru_iter lo (kc_cache s)) + max_bytes"
proof -
  have "kc_max_size_bytes (chunk_cache_new lo max_bytes) = max_bytes" by (simp add: chunk_cache_new_def)
  then obtain s where "run_calls lo calls (chunk_cache_new lo max_bytes) = Some s" "chunk_inv lo s"
      "kc_max_size_bytes s = max_bytes"
    using run_calls_inv [OF assms(1) chunk_inv_new [OF assms]] by metis
  with chunk_invD [OF this(2)] show ?thesis by auto
qed

theorem chunk_cache_within_budget_witness:
  "\<exists>s. run_calls list_lru
          [InsertChunk 0 ''a'' 0 [1, 2], InsertChunk 1 ''a'' 0 [1, 2], GetChunk ''a'' 0 2, InsertChunk 2 ''b'' 0 [7, 8],
           InvalidateFile ''a'', EvictLru 1] (chunk_cache_new list_lru 16) = Some s \<and>
        entries_bytes (lru_iter list_lru (kc_cache s)) \<le> 16"
proof -
  have "(16 :: nat) < 2 ^ 62" by simp
  from chunk_cache_within_budget [OF list_lru_documented this] show ?thesis by blast
qed

text \<open>
  C25. A read of a coherent cache never panics, keeps it coherent, and any bytes it returns are a
  contiguous part of the file no longer than requested; that part starts at the requested offset or, when
  it comes from an overlapping entry, at the offset of an entry that begins later.
\<close>

theorem cached_read_sound:
  assumes "lru_documented lo" and "chunk_inv lo s" and "coherent content (lru_iter lo (kc_cache s))"
  shows "\<exists>s' r. get_chunk lo f off sz s = Some (s', r) \<and> chunk_inv lo s' \<and> coherent content (lru_iter lo (kc_cache s')) \<and>
           (\<forall>data. r = Some data \<longrightarrow>
              (\<exists>start. unat off \<le> start \<and> part_of (content f) start data \<and> length data \<le> unat sz \<and>
                 (start = unat off \<or>
                  (\<exists>e \<in> set (lru_iter lo (kc_cache s)). ky_file_id (fst e) = f \<and> unat (ky_offset (fst e)) = start))))"
  using get_chunk_lookup [OF assms(1,2)] get_exact_chunk_inv(1) [OF assms(1,2)] get_exact_chunk_coherent [OF assms]
    lookup_spec_coherent [OF assms(3)] by simp

definition sample_cache :: "(nat \<times> (cache_key \<times> cached_chunk) list) chunk_cache" where
  "sample_cache =
     \<lparr>kc_cache = (4, [sample_entry 2 [3, 4]]), kc_max_size_bytes = 16, kc_current_size_bytes = 2, kc_stats = default_stats\<rparr>"

lemma sample_cache_inv: "chunk_inv list_lru sample_cache"
  by (simp add: chunk_inv_def sample_cache_def sample_entry_def list_lru_def)

theorem cached_read_sound_witness:
  "\<exists>s' data start. get_chunk list_lru ''a'' 0 4 sample_cache = Some (s', Some data) \<and> part_of [1, 2, 3, 4] start data"
proof -
  let ?content = "\<lambda>f. [1, 2, 3, 4] :: bytes"
  have coh: "coherent ?content (lru_iter list_lru (kc_cache sample_cache))"
    by (simp add: coherent_def sample_cache_def sample_entry_def list_lru_def)
  obtain s' r where r: "get_chunk list_lru ''a'' 0 4 sample_cache = Some (s', r)"
    "\<forall>data. r = Some data \<longrightarrow> (\<exists>start. part_of [1, 2, 3, 4] start data)"
    using cached_read_sound [OF list_lru_documented sample_cache_inv coh, of "''a''" 0 4] by blast
  have "map_option snd (get_chunk list_lru ''a'' 0 4 sample_cache) = Some (Some [3, 4])" by code_simp
  with r show ?thesis by auto
qed

lemma insert_into_empty:
  assumes doc: "lru_documented lo" and bound: "max_bytes < 2 ^ 62" and small: "length data \<le> max_bytes div 4"
  shows "\<exists>s. insert_chunk lo now f k data (chunk_cache_new lo max_bytes) = Some s \<and> chunk_inv lo s \<and>
           lru_iter lo (kc_cache s) =
             [(cache_key_new f k (length data),
               \<lparr>ck_data = data, ck_epoch_id = ''current'', ck_cache_time = now, ck_access_count = 1\<rparr>)] \<and>
           kc_current_size_bytes s = length data \<and> kc_max_size_bytes s = max_bytes"
proof -
  let ?s0 = "chunk_cache_new lo max_bytes"
  note inv = chunk_inv_new [OF doc bound]
  have s0: "kc_max_size_bytes ?s0 = max_bytes" "kc_current_size_bytes ?s0 = 0" "lru_iter lo (kc_cache ?s0) = []"
    "0 < lru_cap lo (kc_cache ?s0)"
    by (simp_all add: chunk_cache_new_def lru_laws doc)
  have "add_u64 0 (length data) = length data" using bound small by (simp add: add_u64_mod)
  moreover have "length data \<le> max_bytes" using small div_le_dividend [of max_bytes 4] by linarith
  ultimately have ins: "insert_chunk lo now f k data ?s0 = Some (put_chunk lo now f k data ?s0)"
    using small by (simp add: insert_chunk_def ensure_cache_space_def s0(1,2))
  have "lru_iter lo (kc_cache (put_chunk lo now f k data ?s0)) =
      [(cache_key_new f k (length data),
        \<lparr>ck_data = data, ck_epoch_id = ''current'', ck_cache_time = now, ck_access_count = 1\<rparr>)]"
    using s0(3,4) by (simp add: put_chunk_def Let_def lru_put_laws(3) [OF doc chunk_invD(1) [OF inv]] gr0_conv_Suc) auto
  with ins put_chunk_inv [OF doc inv, of data now f k] small s0 show ?thesis by auto
qed

text \<open>
  A read that begins before a cached chunk and reaches into it is answered with the chunk's first
  bytes: the bytes of the file at the chunk's offset are returned for the earlier offset of the request.
\<close>

theorem overlap_read_shifted:
  assumes doc: "lru_documented lo" and bound: "max_bytes < 2 ^ 62" and small: "length data \<le> max_bytes div 4"
    and before: "unat off < unat k" and reach: "unat k < unat off + unat sz" "unat off + unat sz < 2 ^ 64"
    and ne: "data \<noteq> []" "unat k + length data < 2 ^ 64"
  shows "\<exists>s s'. insert_chunk lo now f k data (chunk_cache_new lo max_bytes) = Some s \<and>
           get_chunk lo f off sz s = Some (s', Some (take (unat off + unat sz - unat k) data))"
proof -
  obtain s where s: "insert_chunk lo now f k data (chunk_cache_new lo max_bytes) = Some s" "chunk_inv lo s"
    "lru_iter lo (kc_cache s) =
      [(cache_key_new f k (length data),
        \<lparr>ck_data = data, ck_epoch_id = ''current'', ck_cache_time = now, ck_access_count = 1\<rparr>)]" (is "_ = [?e]")
    using insert_into_empty [OF doc bound small] by blast
  have "unat (off + sz) = unat off + unat sz" using reach(2) by (simp add: unat_word_ariths)
  moreover have "unat (k + of_nat (length data)) = unat k + length data"
    using ne(2) unat_of_nat_u64 [of "length data"] by (simp add: unat_word_ariths)
  ultimately have "off < k" "k < off + sz" "k < k + of_nat (length data)"
    using before reach(1) ne(1) by (simp_all add: word_less_nat_alt)
  then have hit: "overlap_hit f off sz ?e" by (auto simp: overlap_hit_def cache_key_new_def)
  have "off \<noteq> k" using before by auto
  then have "lookup_spec f off sz [?e] = Some (overlap_data off sz ?e)"
    using hit by (simp add: lookup_spec_def exact_match_def cache_key_new_def)
  moreover have "overlap_data off sz ?e = take (unat off + unat sz - unat k) data"
    using before by (simp add: overlap_data_def cache_key_new_def Let_def min_def max_def)
  ultimately show ?thesis using s get_chunk_lookup [OF doc s(2), of f off sz] by auto
qed

theorem overlap_read_shifted_witness:
  "\<exists>s s'. insert_chunk list_lru 0 ''a'' 4 [5, 6, 7, 8] (chunk_cache_new list_lru 64) = Some s \<and>
     get_chunk list_lru ''a'' 0 8 s = Some (s', Some [5, 6, 7, 8])"
  using overlap_read_shifted [OF list_lru_documented, of 64 "[5, 6, 7, 8]" 0 4 8 0 "''a''"] by simp

lemma reinsert_step:
  assumes doc: "lru_documented lo" and inv: "chunk_inv lo s" and small: "length data \<le> kc_max_size_bytes s div 4"
    and fits: "kc_current_size_bytes s + length data \<le> kc_max_size_bytes s"
    and iter: "lru_iter lo (kc_cache s) = [(cache_key_new f k (length data), v)]"
  shows "\<exists>s'. insert_chunk lo now f k data s = Some s' \<and> chunk_inv lo s' \<and>
           lru_iter lo (kc_cache s') =
             [(cache_key_new f k (length data),
               \<lparr>ck_data = data, ck_epoch_id = ''current'', ck_cache_time = now, ck_access_count = 1\<rparr>)] \<and>
           kc_current_size_bytes s' = kc_current_size_bytes s + length data \<and> kc_max_size_bytes s' = kc_max_size_bytes s"
proof -
  note I = chunk_invD [OF inv]
  have "add_u64 (kc_current_size_bytes s) (length data) = kc_current_size_bytes s + length data"
    using fits I(2) by (simp add: add_u64_mod)
  then have ins: "insert_chunk lo now f k data s = Some (put_chunk lo now f k data s)"
    using small fits by (simp add: insert_chunk_def ensure_cache_space_def)
  have "lru_iter lo (kc_cache (put_chunk lo now f k data s)) =
      [(cache_key_new f k (length data),
        \<lparr>ck_data = data, ck_epoch_id = ''current'', ck_cache_time = now, ck_access_count = 1\<rparr>)]"
    using lru_valid_facts(1) [OF doc I(1)] iter
    by (simp add: put_chunk_def Let_def lru_put_laws(3) [OF doc I(1)] gr0_conv_Suc) auto
  with ins put_chunk_inv [OF doc inv small, of now f k] fits show ?thesis by auto
qed

lemma reinsert_many:
  assumes doc: "lru_documented lo" and bound: "max_bytes < 2 ^ 62" and small: "length data \<le> max_bytes div 4"
    and "Suc n * length data \<le> max_bytes"
  shows "\<exists>s. run_calls lo (replicate (Suc n) (InsertChunk now f k data)) (chunk_cache_new lo max_bytes) = Some s \<and>
           chunk_inv lo s \<and>
           lru_iter lo (kc_cache s) =
             [(cache_key_new f k (length data),
               \<lparr>ck_data = data, ck_epoch_id = ''current'', ck_cache_time = now, ck_access_count = 1\<rparr>)] \<and>
           kc_current_size_bytes s = Suc n * length data \<and> kc_max_size_bytes s = max_bytes"
  using assms(4)
proof (induction n)
  case 0
  obtain s where "insert_chunk lo now f k data (chunk_cache_new lo max_bytes) = Some s" "chunk_inv lo s"
    "lru_iter lo (kc_cache s) =
       [(cache_key_new f k (length data),
         \<lparr>ck_data = data, ck_epoch_id = ''current'', ck_cache_time = now, ck_access_count = 1\<rparr>)]"
    "kc_current_size_bytes s = length data" "kc_max_size_bytes s = max_bytes"
    using insert_into_empty [OF doc bound small] by blast
  then show ?case by simp
next
  case (Suc n)
  have app: "run_calls lo (xs @ [y]) s = (case run_calls lo xs s of None \<Rightarrow> None | Some s' \<Rightarrow> cache_call_step lo y s')"
    for xs y s by (induction xs arbitrary: s) (auto split: option.splits)
  obtain s where s: "run_calls lo (replicate (Suc n) (InsertChunk now f k data)) (chunk_cache_new lo max_bytes) = Some s"
    "chunk_inv lo s" "lru_iter lo (kc_cache s) =
       [(cache_key_new f k (length data),
         \<lparr>ck_data = data, ck_epoch_id = ''current'', ck_cache_time = now, ck_access_count = 1\<rparr>)]"
    "kc_current_size_bytes s = Suc n * length data" "kc_max_size_bytes s = max_bytes"
    using Suc by auto
  have rep: "replicate (Suc (Suc n)) x = replicate (Suc n) x @ [x]" for x :: cache_call
    by (simp add: replicate_append_same)
  show ?case unfolding rep app s(1)
    using reinsert_step [OF doc s(2) _ _ s(3), of now] s(4,5) small Suc.prems by (auto simp del: replicate.simps)
qed

text \<open>
  Reading back a range that was just inserted returns it, and re-inserting the same chunk makes the
  tracked size grow by its length each time although only one copy is held: after \<open>n\<close> insertions the
  cache holds \<open>length data\<close> bytes and accounts for \<open>n * length data\<close>.
\<close>

theorem reinsertion_drift:
  assumes "lru_documented lo" and "max_bytes < 2 ^ 62" and "length data \<le> max_bytes div 4" and "length data < 2 ^ 64"
    and "Suc n * length data \<le> max_bytes"
  shows "\<exists>s s'. run_calls lo (replicate (Suc n) (InsertChunk now f k data)) (chunk_cache_new lo max_bytes) = Some s \<and>
           get_chunk lo f k (of_nat (length data)) s = Some (s', Some data) \<and>
           entries_bytes (lru_iter lo (kc_cache s)) = length data \<and> kc_current_size_bytes s = Suc n * length data"
proof -
  obtain s where s: "run_calls lo (replicate (Suc n) (InsertChunk now f k data)) (chunk_cache_new lo max_bytes) = Some s"
    "chunk_inv lo s" "lru_iter lo (kc_cache s) =
       [(cache_key_new f k (length data),
         \<lparr>ck_data = data, ck_epoch_id = ''current'', ck_cache_time = now, ck_access_count = 1\<rparr>)]"
    "kc_current_size_bytes s = Suc n * length data"
    using reinsert_many [OF assms(1-3,5)] by blast
  have "lookup_spec f k (of_nat (length data)) (lru_iter lo (kc_cache s)) = Some data"
    by (simp add: s(3) lookup_spec_def exact_match_def cache_key_new_def unat_of_nat_u64 [OF assms(4)])
  with s get_chunk_lookup [OF assms(1) s(2)] show ?thesis by simp
qed

theorem reinsertion_drift_witness:
  "\<exists>s s'. run_calls list_lru (replicate (Suc 2) (InsertChunk 0 ''a'' 4 [5, 6])) (chunk_cache_new list_lru 16) = Some s \<and>
     get_chunk list_lru ''a'' 4 2 s = Some (s', Some [5, 6]) \<and>
     entries_bytes (lru_iter list_lru (kc_cache s)) = Suc (Suc 0) \<and> kc_current_size_bytes s = 6"
  using reinsertion_drift [OF list_lru_documented, of 16 "[5, 6]" 2 0 "''a''" 4] by simp

lemma find_filter_imp: "(\<And>e. P e \<Longrightarrow> Q e) \<Longrightarrow> find P (filter Q es) = find P es"
  by (induction es) auto

lemma find_filter_none: "(\<And>e. P e \<Longrightarrow> \<not> Q e) \<Longrightarrow> find P (filter Q es) = None"
  by (induction es) auto

lemma lookup_spec_filter:
  "lookup_spec f off sz (filter (\<lambda>e. ky_file_id (fst e) \<noteq> f) es) = None"
  "g \<noteq> f \<Longrightarrow> lookup_spec g off sz (filter (\<lambda>e. ky_file_id (fst e) \<noteq> f) es) = lookup_spec g off sz es"
  unfolding lookup_spec_def
  by (subst find_filter_none find_filter_imp; auto simp: exact_match_def overlap_hit_def cache_key_new_def)+

text \<open>
  After the manager invalidates a file, no read of that file is answered from the cache at any later
  time, every other file reads back exactly what it did before, and the metadata cache keeps the file's
  entry.
\<close>

theorem file_invalidation_complete:
  assumes doc: "lru_documented lo" and inv: "chunk_inv lo (cm_chunk_cache m)"
  shows "map_option snd (manager_get_chunk lo now (cache_key_new f off n) (manager_invalidate_file lo t f m)) = Some None \<and>
     (g \<noteq> f \<longrightarrow>
       map_option snd (manager_get_chunk lo now (cache_key_new g off n) (manager_invalidate_file lo t f m)) =
       map_option snd (manager_get_chunk lo now (cache_key_new g off n) m)) \<and>
     cm_metadata_cache (manager_invalidate_file lo t f m) = cm_metadata_cache m"
proof -
  obtain s k where s: "invalidate_file lo f (cm_chunk_cache m) = (s, k)" "chunk_inv lo s"
    "lru_iter lo (kc_cache s) = filter (\<lambda>e. ky_file_id (fst e) \<noteq> f) (lru_iter lo (kc_cache (cm_chunk_cache m)))"
    using invalidate_file_spec [OF doc inv] by blast
  note D = manager_get_chunk_def manager_invalidate_file_def cache_key_new_def s(1,3)
    get_chunk_lookup [OF doc s(2)] get_chunk_lookup [OF doc inv] lookup_spec_filter
  have "map_option snd (manager_get_chunk lo now (cache_key_new f off n) (manager_invalidate_file lo t f m)) = Some None"
    by (simp add: D)
  moreover have "g \<noteq> f \<Longrightarrow>
      map_option snd (manager_get_chunk lo now (cache_key_new g off n) (manager_invalidate_file lo t f m)) =
      map_option snd (manager_get_chunk lo now (cache_key_new g off n) m)"
    by (simp add: D is_cache_entry_valid_def update_conv')
  moreover have "cm_metadata_cache (manager_invalidate_file lo t f m) = cm_metadata_cache m"
    by (simp add: manager_invalidate_file_def)
  ultimately show ?thesis by blast
qed

definition sample_manager ::
  "(nat \<times> (cache_key \<times> cached_chunk) list, nat \<times> (string \<times> cached_metadata) list) cache_manager" where
  "sample_manager =
     \<lparr>cm_chunk_cache = sample_cache,
      cm_metadata_cache = \<lparr>mc_cache = (4, []), mc_stats = \<lparr>ms_hits = 0, ms_misses = 0, ms_entries = 0, ms_evictions = 0\<rparr>\<rparr>,
      cm_tracker = \<lparr>it_pending_files = [], it_last_migration_event = None, it_epoch_markers = []\<rparr>,
      cm_config = \<lparr>cg_max_chunk_cache_size = 16, cg_max_metadata_entries = 4, cg_default_ttl = 300 * 1000000000,
                   cg_migration_aware = True, cg_memory_pressure_threshold = 1 / 2\<rparr>\<rparr>"

theorem file_invalidation_complete_witness:
  "map_option snd (manager_get_chunk list_lru 9 (cache_key_new ''a'' 2 2) sample_manager) \<noteq> Some None \<and>
   map_option snd (manager_get_chunk list_lru 9 (cache_key_new ''a'' 2 2)
     (manager_invalidate_file list_lru 5 ''a'' sample_manager)) = Some None"
proof
  show "map_option snd (manager_get_chunk list_lru 9 (cache_key_new ''a'' 2 2) sample_manager) \<noteq> Some None" by code_simp
  have "chunk_inv list_lru (cm_chunk_cache sample_manager)" by (simp add: sample_manager_def sample_cache_inv)
  from file_invalidation_complete [OF list_lru_documented this]
  show "map_option snd (manager_get_chunk list_lru 9 (cache_key_new ''a'' 2 2)
     (manager_invalidate_file list_lru 5 ''a'' sample_manager)) = Some None" by blast
qed

text \<open>
  A migration event removes no entry: it makes every read miss for thirty seconds, and from then on
  each read that would have been served without the event is served the same bytes, which were cached
  before the migration.
\<close>

theorem migration_only_pauses_cache:
  assumes "is_cache_entry_valid now (ky_file_id key) m"
  shows "cm_chunk_cache (handle_migration_event t1 t2 from_epoch to_epoch m) = cm_chunk_cache m \<and>
     map_option snd (manager_get_chunk lo now key (handle_migration_event t1 t2 from_epoch to_epoch m)) =
       (if now - t2 < 30 * 1000000000 then Some None else map_option snd (manager_get_chunk lo now key m))"
proof -
  have "is_cache_entry_valid now (ky_file_id key) (handle_migration_event t1 t2 from_epoch to_epoch m) \<longleftrightarrow>
      30 * 1000000000 \<le> now - t2"
    using assms by (auto simp: is_cache_entry_valid_def handle_migration_event_def invalidate_epoch_def elapsed_or_zero_def
        Let_def split: option.splits if_splits)
  moreover have "cm_chunk_cache (handle_migration_event t1 t2 from_epoch to_epoch m) = cm_chunk_cache m"
    by (simp add: handle_migration_event_def invalidate_epoch_def Let_def)
  ultimately show ?thesis using assms by (auto simp: manager_get_chunk_def option.map_comp comp_def case_prod_unfold)
qed

theorem migration_only_pauses_cache_witness:
  "map_option (map_option xc_data \<circ> snd) (manager_get_chunk list_lru 31000000000 (cache_key_new ''a'' 2 2)
     (handle_migration_event 0 0 1 2 sample_manager)) = Some (Some [3, 4])"
proof -
  have "is_cache_entry_valid 31000000000 (ky_file_id (cache_key_new ''a'' 2 2)) sample_manager" by code_simp
  from migration_only_pauses_cache [OF this, of 0 0 1 2 list_lru]
  have "map_option snd (manager_get_chunk list_lru 31000000000 (cache_key_new ''a'' 2 2)
      (handle_migration_event 0 0 1 2 sample_manager)) =
    map_option snd (manager_get_chunk list_lru 31000000000 (cache_key_new ''a'' 2 2) sample_manager)" by simp
  moreover have "map_option (map_option xc_data \<circ> snd)
      (manager_get_chunk list_lru 31000000000 (cache_key_new ''a'' 2 2) sample_manager) = Some (Some [3, 4])" by code_simp
  ultimately show ?thesis by (metis (no_types, lifting) option.map_comp)
qed

end
