(* ===== verification/CoverageLog.thy ===== *)
theory CoverageLog
  imports MerkleTree Transparency Float64 "HOL-Library.AList" "HOL-Library.List_Lexorder" "HOL-Library.Char_ord"
    "HOL-Library.Multiset"
    Complex_Main
begin

text \<open>
  The coverage log (\<open>crates/coverage/src/lib.rs\<close>): which file is encrypted under which epoch, with a
  signed Merkle root over the assignment. The \<open>HashMap\<close> of entries is an association list with
  distinct keys; only its finite map is observable, since the code sorts the items before hashing.
  Ratios computed in \<open>f64\<close> are rounded as IEEE 754 does (\<open>f64_ratio\<close>).

  Parameters: the signer and the publisher (trait objects), the transparency verifier, and, in
  \<open>cov_env\<close>, the digest, the curve and the \<open>Debug\<close> text of a log operation. A panic inside
  \<open>MerkleTree::root\<close> would surface as \<open>Panicked\<close>; \<open>build_tree_root\<close> shows that it never does.
\<close>

subsection \<open>Data\<close>

datatype coverage_error = Generic string | Panicked

fun coverage_error_display :: "coverage_error \<Rightarrow> string" where
  "coverage_error_display (Generic msg) = ''coverage error: '' @ msg"
| "coverage_error_display Panicked = []"

record file_epoch_entry =
  fe_file_id :: string
  fe_epoch_id :: u64
  fe_proof :: inclusion_proof
  fe_merkle_root :: bytes
  fe_signature :: bytes
  fe_verifying_key :: bytes
  fe_signing_key_id :: "string option"

definition default_verifying_key :: bytes where
  "default_verifying_key = replicate VERIFYING_KEY_LEN 0"

record coverage_log =
  cg_entries :: "(string \<times> u64) list"
  cg_latest_root :: "bytes option"
  cg_latest_signature :: "bytes option"
  cg_verifying_key :: "bytes option"
  cg_signing_key_id :: "string option"
  cg_latest_epoch :: "u64 option"

record coverage_counts =
  total_items :: u64
  rewrapped_items :: u64

record root_snapshot =
  rs_merkle_root :: bytes
  rs_signature :: bytes
  rs_verifying_key :: bytes
  rs_signing_key_id :: "string option"

record publication =
  pb_snapshot :: root_snapshot
  pb_epoch_id :: u64
  pb_total_files :: u64
  pb_updated_at :: instant

record transparency_metadata =
  tm_sequence_number :: u64
  tm_log_size :: u64
  tm_leaf_index :: u64
  tm_entry_timestamp :: u64

record cov_env =
  cv_log :: log_env
  dbg_operation :: "transparency_operation \<Rightarrow> string"

abbreviation cv_sha :: "cov_env \<Rightarrow> bytes \<Rightarrow> bytes" where
  "cv_sha ce \<equiv> env_sha (cv_log ce)"

definition from_record :: "log_inclusion_proof \<Rightarrow> transparency_metadata" where
  "from_record p =
     \<lparr>tm_sequence_number = te_sequence_number (ip_entry p), tm_log_size = ip_log_size p,
      tm_leaf_index = ip_leaf_index p, tm_entry_timestamp = te_timestamp (ip_entry p)\<rparr>"

record coverage_signer =
  sg_sign :: "bytes \<Rightarrow> (bytes, coverage_error) result"
  sg_verifying_key :: bytes
  sg_key_id :: "string option"

definition ed25519_signer :: "ed25519 \<Rightarrow> bytes \<Rightarrow> string option \<Rightarrow> coverage_signer" where
  "ed25519_signer ed sk key_id =
     \<lparr>sg_sign = (\<lambda>msg. map_err (\<lambda>e. Generic (''signing failed: '' @ crypto_error_display e)) (sk_sign ed sk msg)),
      sg_verifying_key = sk_verifying_key ed sk, sg_key_id = key_id\<rparr>"

subsection \<open>The log\<close>

definition log_new :: coverage_log where
  "log_new =
     \<lparr>cg_entries = [], cg_latest_root = None, cg_latest_signature = None, cg_verifying_key = None,
      cg_signing_key_id = None, cg_latest_epoch = None\<rparr>"

definition add_entry :: "coverage_log \<Rightarrow> file_epoch_entry \<Rightarrow> coverage_log" where
  "add_entry l e =
     (let l1 = l\<lparr>cg_entries := AList.update (fe_file_id e) (fe_epoch_id e) (cg_entries l),
                 cg_latest_root := Some (fe_merkle_root e), cg_latest_epoch := Some (fe_epoch_id e)\<rparr>;
          l2 = (if fe_signature e \<noteq> [] then l1\<lparr>cg_latest_signature := Some (fe_signature e)\<rparr> else l1);
          l3 = (if fe_verifying_key e \<noteq> default_verifying_key
                then l2\<lparr>cg_verifying_key := Some (fe_verifying_key e)\<rparr> else l2)
      in case fe_signing_key_id e of
           Some key_id \<Rightarrow> if key_id \<noteq> [] then l3\<lparr>cg_signing_key_id := Some key_id\<rparr> else l3
         | None \<Rightarrow> l3)"

definition get_entry :: "coverage_log \<Rightarrow> string \<Rightarrow> u64 option" where
  "get_entry l file_id = map_of (cg_entries l) file_id"

definition remove_entry :: "coverage_log \<Rightarrow> string \<Rightarrow> coverage_log" where
  "remove_entry l file_id = l\<lparr>cg_entries := AList.delete file_id (cg_entries l)\<rparr>"

definition replace_entry :: "coverage_log \<Rightarrow> string \<Rightarrow> file_epoch_entry \<Rightarrow> coverage_log" where
  "replace_entry l old_file_id e = add_entry (l\<lparr>cg_entries := AList.delete old_file_id (cg_entries l)\<rparr>) e"

definition log_insert :: "coverage_log \<Rightarrow> string \<Rightarrow> u64 \<Rightarrow> coverage_log" where
  "log_insert l file_id epoch_id = l\<lparr>cg_entries := AList.update file_id epoch_id (cg_entries l)\<rparr>"

definition coverage_leaf :: "string \<times> u64 \<Rightarrow> bytes" where
  "coverage_leaf item = as_bytes (fst item @ '':'' @ dec_nat (unat (snd item)))"

definition build_tree :: "(bytes \<Rightarrow> bytes) \<Rightarrow> coverage_log \<Rightarrow> merkle_tree \<times> (string \<times> u64) list" where
  "build_tree sha l =
     (let items = sort_key fst (cg_entries l)
      in (foldl (\<lambda>t item. insert_leaf sha t (coverage_leaf item)) tree_new items, items))"

text \<open>\<open>tree.root().map_err(|e| Generic(msg + e))\<close>, with the panic of a missing cached root.\<close>

definition root_or :: "string \<Rightarrow> (bytes, merkle_error) result option \<Rightarrow> (bytes, coverage_error) result" where
  "root_or msg r =
     (case r of None \<Rightarrow> Err Panicked | Some r \<Rightarrow> map_err (\<lambda>e. Generic (msg @ merkle_error_display e)) r)"

definition log_merkle_root :: "cov_env \<Rightarrow> coverage_log \<Rightarrow> (bytes, coverage_error) result" where
  "log_merkle_root ce l =
     (case build_tree (cv_sha ce) l of (tree, _) \<Rightarrow> root_or [] (snd (tree_root (cv_sha ce) tree)))"

definition log_get_merkle_root :: "(bytes \<Rightarrow> string) \<Rightarrow> cov_env \<Rightarrow> coverage_log \<Rightarrow> (string, coverage_error) result" where
  "log_get_merkle_root hex_encode ce l = rbind (log_merkle_root ce l) (\<lambda>rt. Ok (hex_encode rt))"

fun position :: "string \<Rightarrow> (string \<times> u64) list \<Rightarrow> nat option" where
  "position file_id [] = None"
| "position file_id ((f, _) # items) =
     (if f = file_id then Some 0 else map_option Suc (position file_id items))"

definition cov_inclusion_proof ::
  "cov_env \<Rightarrow> coverage_log \<Rightarrow> string \<Rightarrow> (inclusion_proof \<times> bytes, coverage_error) result" where
  "cov_inclusion_proof ce l file_id =
     (case build_tree (cv_sha ce) l of
        (tree, items) \<Rightarrow>
          rbind (ok_or (Generic ''file not found'') (position file_id items)) (\<lambda>index.
          case tree_root (cv_sha ce) tree of
            (tree', r) \<Rightarrow>
              rbind (root_or [] r) (\<lambda>rt.
              rbind (map_err (\<lambda>e. Generic (merkle_error_display e)) (snd (generate_proof (cv_sha ce) tree' index))) (\<lambda>p.
              Ok (p, rt)))))"

definition latest_snapshot :: "coverage_log \<Rightarrow> root_snapshot option" where
  "latest_snapshot l =
     (case cg_latest_root l of None \<Rightarrow> None | Some rt \<Rightarrow>
     (case cg_latest_signature l of None \<Rightarrow> None | Some signature \<Rightarrow>
     (case cg_verifying_key l of None \<Rightarrow> None | Some vk \<Rightarrow>
        Some \<lparr>rs_merkle_root = rt, rs_signature = signature, rs_verifying_key = vk,
              rs_signing_key_id = cg_signing_key_id l\<rparr>)))"

definition log_apply_signed_snapshot ::
  "coverage_log \<Rightarrow> bytes \<Rightarrow> bytes \<Rightarrow> bytes \<Rightarrow> string option \<Rightarrow> coverage_log" where
  "log_apply_signed_snapshot l merkle_root signature vk key_id =
     l\<lparr>cg_latest_root := Some merkle_root, cg_latest_signature := Some signature,
       cg_verifying_key := Some vk, cg_signing_key_id := key_id\<rparr>"

definition counts_for_epoch :: "coverage_log \<Rightarrow> u64 \<Rightarrow> coverage_counts" where
  "counts_for_epoch l epoch_id =
     \<lparr>total_items = of_nat (length (cg_entries l)),
      rewrapped_items = of_nat (length (filter (\<lambda>e. e = epoch_id) (map snd (cg_entries l))))\<rparr>"

definition get_all_file_ids :: "coverage_log \<Rightarrow> string list" where
  "get_all_file_ids l = map fst (cg_entries l)"

subsection \<open>Verification\<close>

fun verify_items ::
  "(bytes \<Rightarrow> bytes) \<Rightarrow> merkle_tree \<Rightarrow> bytes \<Rightarrow> nat \<Rightarrow> (string \<times> u64) list \<Rightarrow> (unit, coverage_error) result" where
  "verify_items sha tree rt index [] = Ok ()"
| "verify_items sha tree rt index ((file_id, epoch_id) # items) =
     (case generate_proof sha tree index of
        (tree', Err e) \<Rightarrow>
          Err (Generic (''failed to generate inclusion proof for '' @ file_id @ '': '' @ merkle_error_display e))
      | (tree', Ok p) \<Rightarrow>
          (case verify_inclusion_proof sha p rt (coverage_leaf (file_id, epoch_id)) of
             Err e \<Rightarrow> Err (Generic (''error validating inclusion proof for '' @ file_id @ '': '' @ merkle_error_display e))
           | Ok proof_valid \<Rightarrow>
               if \<not> proof_valid then Err (Generic (''inclusion proof invalid for file '' @ file_id))
               else verify_items sha tree' rt (Suc index) items))"

definition max_epoch_of :: "(string \<times> u64) list \<Rightarrow> u64 option" where
  "max_epoch_of items = (if items = [] then None else Some (foldl max (snd (hd items)) (map snd (tl items))))"

fun key_ids_match :: "string option \<Rightarrow> string option \<Rightarrow> (unit, coverage_error) result" where
  "key_ids_match (Some expected) (Some recorded) =
     (if expected = recorded then Ok ()
      else Err (Generic (''transparency coverage snapshot signing key mismatch: expected '' @ expected @
             '', got '' @ recorded)))"
| "key_ids_match (Some expected) None =
     Err (Generic (''transparency coverage snapshot missing signing key identifier (expected '' @ expected @ '')''))"
| "key_ids_match None (Some recorded) =
     Err (Generic (''transparency coverage snapshot unexpectedly contains signing key identifier '' @ recorded))"
| "key_ids_match None None = Ok ()"

definition check_snapshot_operation ::
  "cov_env \<Rightarrow> transparency_operation \<Rightarrow> bytes \<Rightarrow> u64 \<Rightarrow> u64 \<Rightarrow> bytes \<Rightarrow> string option \<Rightarrow> (unit, coverage_error) result" where
  "check_snapshot_operation ce op computed_root total_files latest_epoch vk key_id =
     (case op of
        CoverageSnapshot merkle_root epoch_id file_count entry_key_id entry_vk \<Rightarrow>
          rbind (guard (merkle_root = computed_root)
                   (Generic ''transparency coverage snapshot does not reference the expected root'')) (\<lambda>_.
          rbind (guard (file_count = total_files)
                   (Generic (''transparency coverage snapshot file count mismatch: expected '' @
                      dec_nat (unat total_files) @ '', got '' @ dec_nat (unat file_count)))) (\<lambda>_.
          rbind (guard (epoch_id = latest_epoch)
                   (Generic (''transparency coverage snapshot epoch mismatch: expected '' @
                      dec_nat (unat latest_epoch) @ '', got '' @ dec_nat (unat epoch_id)))) (\<lambda>_.
          rbind (guard (entry_vk = vk)
                   (Generic ''transparency coverage snapshot verifying key mismatch'')) (\<lambda>_.
          key_ids_match key_id entry_key_id))))
      | other \<Rightarrow>
          Err (Generic (''transparency entry operation mismatch: expected coverage snapshot, got '' @ dbg_operation ce other)))"

definition check_transparency ::
  "cov_env \<Rightarrow> (bytes \<Rightarrow> (log_inclusion_proof, coverage_error) result) \<Rightarrow> coverage_log \<Rightarrow> bytes \<Rightarrow>
   (string \<times> u64) list \<Rightarrow> bytes \<Rightarrow> (log_inclusion_proof, coverage_error) result" where
  "check_transparency ce fetch l computed_root items vk =
     rbind (map_err (\<lambda>e. Generic (''transparency verification failed: '' @ coverage_error_display e))
              (fetch computed_root)) (\<lambda>p.
     rbind (map_err (\<lambda>e. Generic (''transparency inclusion verification failed: '' @ transparency_error_display e))
              (inclusion_verify (cv_log ce) p)) (\<lambda>proof_valid.
     rbind (guard proof_valid (Generic ''transparency inclusion proof invalid'')) (\<lambda>_.
     rbind (guard (te_join_card_hash (ip_entry p) = computed_root)
              (Generic ''transparency join_card_hash does not match coverage root'')) (\<lambda>_.
     rbind (ok_or (Generic ''unable to determine latest epoch for coverage verification'')
              (case cg_latest_epoch l of Some e \<Rightarrow> Some e | None \<Rightarrow> max_epoch_of items)) (\<lambda>latest_epoch.
     rbind (check_snapshot_operation ce (te_operation (ip_entry p)) computed_root (of_nat (length items))
              latest_epoch vk (cg_signing_key_id l)) (\<lambda>_.
     Ok p))))))"

definition verify_coverage_internal ::
  "cov_env \<Rightarrow> (bytes \<Rightarrow> (log_inclusion_proof, coverage_error) result) option \<Rightarrow> coverage_log \<Rightarrow>
   (log_inclusion_proof option, coverage_error) result" where
  "verify_coverage_internal ce verifier l =
     rbind (guard (cg_entries l \<noteq> []) (Generic ''coverage log is empty; nothing to verify'')) (\<lambda>_.
     rbind (ok_or (Generic ''coverage root not recorded'') (cg_latest_root l)) (\<lambda>recorded_root.
     rbind (ok_or (Generic ''coverage root signature missing'') (cg_latest_signature l)) (\<lambda>signature_bytes.
     rbind (ok_or (Generic ''coverage verifying key missing'') (cg_verifying_key l)) (\<lambda>vk_bytes.
     case build_tree (cv_sha ce) l of (tree, items) \<Rightarrow>
     case tree_root (cv_sha ce) tree of (tree', r) \<Rightarrow>
     rbind (root_or ''failed to compute Merkle root: '' r) (\<lambda>computed_root.
     rbind (guard (computed_root = recorded_root)
              (Generic ''computed Merkle root does not match recorded root'')) (\<lambda>_.
     rbind (map_err (\<lambda>e. Generic (''invalid verifying key bytes: '' @ crypto_error_display e))
              (verifying_key_from_bytes (env_ed (cv_log ce)) vk_bytes)) (\<lambda>vk.
     rbind (map_err (\<lambda>e. Generic (''invalid coverage signature bytes: '' @ crypto_error_display e))
              (signature_from_bytes signature_bytes)) (\<lambda>signature.
     rbind (map_err (\<lambda>e. Generic (''coverage signature verification failed: '' @ crypto_error_display e))
              (vk_verify (env_ed (cv_log ce)) vk computed_root signature)) (\<lambda>_.
     rbind (verify_items (cv_sha ce) tree' computed_root 0 items) (\<lambda>_.
     case verifier of
       Some fetch \<Rightarrow> rbind (check_transparency ce fetch l computed_root items vk_bytes) (\<lambda>p. Ok (Some p))
     | None \<Rightarrow> Ok None))))))))))"

definition verify_coverage :: "cov_env \<Rightarrow> coverage_log \<Rightarrow> (unit, coverage_error) result" where
  "verify_coverage ce l = rbind (verify_coverage_internal ce None l) (\<lambda>_. Ok ())"

definition verify_coverage_with_transparency ::
  "cov_env \<Rightarrow> (bytes \<Rightarrow> (log_inclusion_proof, coverage_error) result) \<Rightarrow> coverage_log \<Rightarrow>
   (log_inclusion_proof, coverage_error) result" where
  "verify_coverage_with_transparency ce fetch l =
     rbind (verify_coverage_internal ce (Some fetch) l)
       (ok_or (Generic ''transparency verifier did not return inclusion proof''))"

subsection \<open>The manager\<close>

record coverage_manager =
  cm_signer :: coverage_signer
  cm_verifying_key :: bytes
  cm_signing_key_id :: "string option"
  cm_publisher :: "(publication \<Rightarrow> (unit, coverage_error) result) option"
  cm_verifier :: "(bytes \<Rightarrow> (log_inclusion_proof, coverage_error) result) option"

record manager_state =
  ms_log :: coverage_log
  ms_latest_transparency :: "transparency_metadata option"

definition with_log ::
  "coverage_log \<Rightarrow> coverage_signer \<Rightarrow> (publication \<Rightarrow> (unit, coverage_error) result) option \<Rightarrow>
   coverage_manager \<times> manager_state" where
  "with_log l signer publisher =
     (\<lparr>cm_signer = signer, cm_verifying_key = sg_verifying_key signer, cm_signing_key_id = sg_key_id signer,
       cm_publisher = publisher, cm_verifier = None\<rparr>,
      \<lparr>ms_log = l, ms_latest_transparency = None\<rparr>)"

definition manager_new :: "coverage_signer \<Rightarrow> coverage_manager \<times> manager_state" where
  "manager_new signer = with_log log_new signer None"

definition new_with_signing_key_and_id ::
  "ed25519 \<Rightarrow> bytes \<Rightarrow> string option \<Rightarrow> coverage_manager \<times> manager_state" where
  "new_with_signing_key_and_id ed sk key_id = with_log log_new (ed25519_signer ed sk key_id) None"

definition with_publisher ::
  "coverage_manager \<Rightarrow> (publication \<Rightarrow> (unit, coverage_error) result) \<Rightarrow> coverage_manager" where
  "with_publisher mgr publisher = mgr\<lparr>cm_publisher := Some publisher\<rparr>"

definition with_transparency_verifier ::
  "coverage_manager \<Rightarrow> (bytes \<Rightarrow> (log_inclusion_proof, coverage_error) result) \<Rightarrow> coverage_manager" where
  "with_transparency_verifier mgr verifier = mgr\<lparr>cm_verifier := Some verifier\<rparr>"

definition log_file_epoch ::
  "cov_env \<Rightarrow> coverage_manager \<Rightarrow> instant \<Rightarrow> string \<Rightarrow> u64 \<Rightarrow> (manager_state, file_epoch_entry, coverage_error) action" where
  "log_file_epoch ce mgr now file_id epoch_id s =
     (let l1 = log_insert (ms_log s) file_id epoch_id; s1 = s\<lparr>ms_log := l1\<rparr> in
      case cov_inclusion_proof ce l1 file_id of
        Err e \<Rightarrow> (s1, Err e)
      | Ok (p, rt) \<Rightarrow>
          (case sg_sign (cm_signer mgr) rt of
             Err e \<Rightarrow> (s1, Err e)
           | Ok signature \<Rightarrow>
               (let entry = \<lparr>fe_file_id = file_id, fe_epoch_id = epoch_id, fe_proof = p, fe_merkle_root = rt,
                             fe_signature = signature, fe_verifying_key = cm_verifying_key mgr,
                             fe_signing_key_id = cm_signing_key_id mgr\<rparr>;
                    l2 = add_entry l1 entry;
                    s2 = s1\<lparr>ms_log := l2, ms_latest_transparency := None\<rparr>
                in case (cm_publisher mgr, latest_snapshot l2) of
                     (Some publish, Some snapshot) \<Rightarrow>
                       (case publish \<lparr>pb_snapshot = snapshot, pb_epoch_id = epoch_id,
                                      pb_total_files = of_nat (length (cg_entries l2)), pb_updated_at = now\<rparr> of
                          Err e \<Rightarrow> (s2, Err e)
                        | Ok _ \<Rightarrow> (s2, Ok entry))
                   | _ \<Rightarrow> (s2, Ok entry))))"

fun insert_loop :: "(string \<times> u64) list \<Rightarrow> coverage_log \<Rightarrow> u64 \<Rightarrow> bool \<Rightarrow> coverage_log \<times> u64 \<times> bool" where
  "insert_loop [] l latest_epoch have_epoch = (l, latest_epoch, have_epoch)"
| "insert_loop ((file_id, epoch_id) # entries) l latest_epoch have_epoch =
     insert_loop entries (log_insert l file_id epoch_id)
       (if \<not> have_epoch then epoch_id else if latest_epoch < epoch_id then epoch_id else latest_epoch) True"

definition insert_entries :: "(string \<times> u64) list \<Rightarrow> manager_state \<Rightarrow> manager_state" where
  "insert_entries entries s =
     (case insert_loop entries (ms_log s) (case cg_latest_epoch (ms_log s) of Some e \<Rightarrow> e | None \<Rightarrow> 0)
             (cg_latest_epoch (ms_log s) \<noteq> None) of
        (l, latest_epoch, have_epoch) \<Rightarrow>
          s\<lparr>ms_log := (if have_epoch then l\<lparr>cg_latest_epoch := Some latest_epoch\<rparr> else l),
            ms_latest_transparency := None\<rparr>)"

definition apply_signed_snapshot ::
  "coverage_manager \<Rightarrow> bytes \<Rightarrow> (manager_state, root_snapshot, coverage_error) action" where
  "apply_signed_snapshot mgr merkle_root s =
     (case sg_sign (cm_signer mgr) merkle_root of
        Err e \<Rightarrow> (s, Err e)
      | Ok signature \<Rightarrow>
          (s\<lparr>ms_log := log_apply_signed_snapshot (ms_log s) merkle_root signature (cm_verifying_key mgr) (cm_signing_key_id mgr),
             ms_latest_transparency := None\<rparr>,
           Ok \<lparr>rs_merkle_root = merkle_root, rs_signature = signature, rs_verifying_key = cm_verifying_key mgr,
               rs_signing_key_id = cm_signing_key_id mgr\<rparr>))"

text \<open>\<open>busy\<close>: whether \<open>try_lock\<close> finds the lock held by another task.\<close>

definition get_merkle_root :: "cov_env \<Rightarrow> bool \<Rightarrow> manager_state \<Rightarrow> (bytes, coverage_error) result" where
  "get_merkle_root ce busy s =
     (if busy then Err (Generic ''coverage log is busy'') else log_merkle_root ce (ms_log s))"

definition latest_root_snapshot :: "bool \<Rightarrow> manager_state \<Rightarrow> root_snapshot option" where
  "latest_root_snapshot busy s = (if busy then None else latest_snapshot (ms_log s))"

definition get_migration_progress :: "manager_state \<Rightarrow> u64 \<Rightarrow> u64 \<Rightarrow> rat" where
  "get_migration_progress s from_epoch to_epoch =
     (let es = cg_entries (ms_log s) in
      if es = [] then 0
      else f64_ratio (length (filter (\<lambda>e. to_epoch \<le> e) (map snd es))) (length es))"

definition get_coverage_status :: "manager_state \<Rightarrow> rat" where
  "get_coverage_status s =
     (let es = cg_entries (ms_log s) in
      if es = [] then 0
      else (let max_epoch = foldl max (snd (hd es)) (map snd (tl es)) in
            f64_ratio (length (filter (\<lambda>e. e = max_epoch) (map snd es))) (length es)))"

definition get_coverage_log :: "manager_state \<Rightarrow> coverage_log" where
  "get_coverage_log s = ms_log s"

definition verify_integrity ::
  "cov_env \<Rightarrow> coverage_manager \<Rightarrow> (manager_state, unit, coverage_error) action" where
  "verify_integrity ce mgr s =
     (case cm_verifier mgr of
        Some fetch \<Rightarrow>
          (case verify_coverage_with_transparency ce fetch (ms_log s) of
             Err e \<Rightarrow> (s, Err e)
           | Ok p \<Rightarrow> (s\<lparr>ms_latest_transparency := Some (from_record p)\<rparr>, Ok ()))
      | None \<Rightarrow> (s, verify_coverage ce (ms_log s)))"

definition latest_transparency_metadata :: "bool \<Rightarrow> manager_state \<Rightarrow> transparency_metadata option" where
  "latest_transparency_metadata busy s = (if busy then None else ms_latest_transparency s)"

subsection \<open>Roots\<close>

text \<open>The specification of the signed value: the tree hash of the sorted items.\<close>

definition cov_items :: "coverage_log \<Rightarrow> (string \<times> u64) list" where
  "cov_items l = sort_key fst (cg_entries l)"

definition cov_root :: "(bytes \<Rightarrow> bytes) \<Rightarrow> coverage_log \<Rightarrow> bytes" where
  "cov_root sha l = mth (hash_internal sha) (map (hash_leaf sha) (map coverage_leaf (cov_items l)))"

lemma cov_items_Nil_iff [simp]: "cov_items l = [] \<longleftrightarrow> cg_entries l = []"
  by (metis cov_items_def set_empty set_sort)

lemma set_cov_items [simp]: "set (cov_items l) = set (cg_entries l)"
  by (simp add: cov_items_def)

lemma length_cov_items [simp]: "length (cov_items l) = length (cg_entries l)"
  by (simp add: cov_items_def)

lemma build_tree_eq: "build_tree sha l = (foldl (insert_leaf sha) tree_new (map coverage_leaf (cov_items l)), cov_items l)"
  by (simp add: build_tree_def cov_items_def Let_def foldl_map)

lemma build_tree_root:
  assumes "cg_entries l \<noteq> []"
  obtains t where "tree_root sha (fst (build_tree sha l)) = (t, Some (Ok (cov_root sha l)))"
    "tree_inv sha t" "leaves t = map (hash_leaf sha) (map coverage_leaf (cov_items l))"
proof -
  have ne: "map coverage_leaf (cov_items l) \<noteq> []"
    using assms by simp
  then have "mroot (hash_internal sha) (map (hash_leaf sha) (map coverage_leaf (cov_items l))) = cov_root sha l"
    unfolding cov_root_def by (intro mroot_eq_mth) simp
  with mstore.build_root [OF ne, of sha] that show thesis
    by (auto simp: build_tree_eq)
qed

lemma verify_items_Ok:
  assumes "tree_inv sha t" "leaves t = map (hash_leaf sha) (map coverage_leaf (pre @ items))"
    and "rt = mroot (hash_internal sha) (map (hash_leaf sha) (map coverage_leaf (pre @ items)))"
  shows "verify_items sha t rt (length pre) items = Ok ()"
  using assms
proof (induction items arbitrary: pre t)
  case Nil
  then show ?case by simp
next
  case (Cons item items)
  obtain f e where item: "item = (f, e)" by (cases item)
  let ?ds = "map coverage_leaf (pre @ item # items)"
  have i: "length pre < length ?ds" "?ds ! length pre = coverage_leaf (f, e)"
    by (simp_all add: nth_append item)
  obtain t' p where p: "generate_proof sha t (length pre) = (t', Ok p)" "tree_inv sha t'"
      "leaves t' = map (hash_leaf sha) ?ds" "verify_proof sha p rt (coverage_leaf (f, e)) = Ok True"
    using mstore.prove_item [OF Cons.prems(1,2) i(1)] Cons.prems(3) i(2) by auto
  have "verify_items sha t' rt (length (pre @ [item])) items = Ok ()"
    using p Cons.prems(3) by (intro Cons.IH) simp_all
  with p show ?case
    by (simp add: item verify_inclusion_proof_def)
qed

lemma verify_coverage_internal_eq:
  assumes "cg_entries l \<noteq> []"
  shows "verify_coverage_internal ce verifier l =
     rbind (ok_or (Generic ''coverage root not recorded'') (cg_latest_root l)) (\<lambda>recorded_root.
     rbind (ok_or (Generic ''coverage root signature missing'') (cg_latest_signature l)) (\<lambda>signature_bytes.
     rbind (ok_or (Generic ''coverage verifying key missing'') (cg_verifying_key l)) (\<lambda>vk_bytes.
     rbind (guard (cov_root (cv_sha ce) l = recorded_root)
              (Generic ''computed Merkle root does not match recorded root'')) (\<lambda>_.
     rbind (map_err (\<lambda>e. Generic (''invalid verifying key bytes: '' @ crypto_error_display e))
              (verifying_key_from_bytes (env_ed (cv_log ce)) vk_bytes)) (\<lambda>vk.
     rbind (map_err (\<lambda>e. Generic (''invalid coverage signature bytes: '' @ crypto_error_display e))
              (signature_from_bytes signature_bytes)) (\<lambda>signature.
     rbind (map_err (\<lambda>e. Generic (''coverage signature verification failed: '' @ crypto_error_display e))
              (vk_verify (env_ed (cv_log ce)) vk (cov_root (cv_sha ce) l) signature)) (\<lambda>_.
     case verifier of
       Some fetch \<Rightarrow> rbind (check_transparency ce fetch l (cov_root (cv_sha ce) l) (cov_items l) vk_bytes) (\<lambda>p. Ok (Some p))
     | None \<Rightarrow> Ok None)))))))"
proof -
  obtain t where t: "tree_root (cv_sha ce) (fst (build_tree (cv_sha ce) l)) = (t, Some (Ok (cov_root (cv_sha ce) l)))"
      "tree_inv (cv_sha ce) t" "leaves t = map (hash_leaf (cv_sha ce)) (map coverage_leaf (cov_items l))"
    by (rule build_tree_root [OF assms])
  have "cov_root (cv_sha ce) l =
      mroot (hash_internal (cv_sha ce)) (map (hash_leaf (cv_sha ce)) (map coverage_leaf (cov_items l)))"
    using assms unfolding cov_root_def by (intro mroot_eq_mth [symmetric]) simp
  then have "verify_items (cv_sha ce) t (cov_root (cv_sha ce) l) 0 (cov_items l) = Ok ()"
    using verify_items_Ok [of "cv_sha ce" t "[]" "cov_items l"] t by simp
  with t assms show ?thesis
    by (simp add: verify_coverage_internal_def build_tree_eq root_or_def)
qed

subsection \<open>Leaves and entries\<close>

lemma append_sep_inj:
  assumes "a @ c # b = a' @ c # b'" "c \<notin> set b" "c \<notin> set b'"
  shows "a = a' \<and> b = b'"
  using assms(1)
proof (induction a arbitrary: a')
  case Nil
  with assms(2) show ?case by (cases a') auto
next
  case (Cons x a)
  with assms(3) show ?case by (cases a') auto
qed

lemma coverage_leaf_inj: "coverage_leaf x = coverage_leaf y \<longleftrightarrow> x = y"
proof
  assume "coverage_leaf x = coverage_leaf y"
  then have "fst x @ CHR '':'' # dec_nat (unat (snd x)) = fst y @ CHR '':'' # dec_nat (unat (snd y))"
    unfolding coverage_leaf_def as_bytes_inj by simp
  then have "fst x = fst y \<and> dec_nat (unat (snd x)) = dec_nat (unat (snd y))"
    by (rule append_sep_inj) (rule colon_notin_dec_nat)+
  then show "x = y"
    by (auto simp: dec_nat_inj prod_eq_iff intro: unsigned_word_eqI)
qed simp

abbreviation keys_distinct :: "coverage_log \<Rightarrow> bool" where
  "keys_distinct l \<equiv> distinct (map fst (cg_entries l))"

lemma update_twice: "AList.update k v (AList.update k v al) = AList.update k v al"
  by (induction al) auto

lemma keys_distinct_items: "distinct (map fst (cov_items l)) \<longleftrightarrow> keys_distinct l"
  by (intro mset_eq_imp_distinct_iff) (simp add: cov_items_def)

lemma cov_items_map_of: "keys_distinct l \<Longrightarrow> map_of (cov_items l) = map_of (cg_entries l)"
  using keys_distinct_items [of l] by (subst map_of_inject_set) auto

lemma position_Some: "map_of items f = Some e \<Longrightarrow> \<exists>i. position f items = Some i \<and> i < length items \<and> items ! i = (f, e)"
  by (induction items) (auto split: if_splits)

lemma cov_inclusion_proof_Ok:
  assumes "keys_distinct l" "get_entry l f = Some e"
  obtains p where "cov_inclusion_proof ce l f = Ok (p, cov_root (cv_sha ce) l)"
    "verify_inclusion_proof (cv_sha ce) p (cov_root (cv_sha ce) l) (coverage_leaf (f, e)) = Ok True"
proof -
  let ?sha = "cv_sha ce"
  have ne: "cg_entries l \<noteq> []"
    using assms(2) by (auto simp: get_entry_def)
  obtain t where t: "tree_root ?sha (fst (build_tree ?sha l)) = (t, Some (Ok (cov_root ?sha l)))"
      "tree_inv ?sha t" "leaves t = map (hash_leaf ?sha) (map coverage_leaf (cov_items l))"
    by (rule build_tree_root [OF ne])
  obtain i where i: "position f (cov_items l) = Some i" "i < length (cov_items l)" "cov_items l ! i = (f, e)"
    using position_Some [of "cov_items l" f e] assms by (auto simp: cov_items_map_of get_entry_def)
  have "cov_root ?sha l = mroot (hash_internal ?sha) (map (hash_leaf ?sha) (map coverage_leaf (cov_items l)))"
    using ne unfolding cov_root_def by (intro mroot_eq_mth [symmetric]) simp
  then obtain t' p where "generate_proof ?sha t i = (t', Ok p)"
      "verify_proof ?sha p (cov_root ?sha l) (coverage_leaf (f, e)) = Ok True"
    using mstore.prove_item [OF t(2,3), of i] i by auto
  then show thesis
    using t(1) i by (intro that) (simp_all add: cov_inclusion_proof_def build_tree_eq root_or_def verify_inclusion_proof_def)
qed

lemma cov_root_cong: "cg_entries l = cg_entries l' \<Longrightarrow> cov_root sha l = cov_root sha l'"
  by (simp add: cov_root_def cov_items_def)

text \<open>The fields of the log after \<open>add_entry\<close> with a real signature and key.\<close>

lemma add_entry_signed:
  assumes "fe_signature e \<noteq> []" "fe_verifying_key e \<noteq> default_verifying_key"
  shows "cg_entries (add_entry l e) = AList.update (fe_file_id e) (fe_epoch_id e) (cg_entries l)"
    "cg_latest_root (add_entry l e) = Some (fe_merkle_root e)"
    "cg_latest_signature (add_entry l e) = Some (fe_signature e)"
    "cg_verifying_key (add_entry l e) = Some (fe_verifying_key e)"
  using assms by (auto simp: add_entry_def Let_def split: option.splits)

lemma verify_coverage_Ok_iff:
  "verify_coverage ce l = Ok () \<longleftrightarrow>
     cg_entries l \<noteq> [] \<and> cg_latest_root l = Some (cov_root (cv_sha ce) l) \<and>
     (\<exists>sig vk. cg_latest_signature l = Some sig \<and> length sig = 64 \<and>
        cg_verifying_key l = Some vk \<and> length vk = 32 \<and> dalek_decode_vk (env_ed (cv_log ce)) vk = Ok () \<and>
        vk_verify (env_ed (cv_log ce)) vk (cov_root (cv_sha ce) l) sig = Ok ())"
proof (cases "cg_entries l = []")
  case True
  then show ?thesis
    by (simp add: verify_coverage_def verify_coverage_internal_def)
next
  case False
  then show ?thesis
    unfolding verify_coverage_def verify_coverage_internal_eq [OF False] result_simps
    by (auto simp: result_simps)
qed

lemma key_ids_match_Ok: "key_ids_match a b = Ok u \<Longrightarrow> a = b"
  by (cases "(a, b)" rule: key_ids_match.cases) (auto split: if_splits)

lemma check_snapshot_operation_Ok:
  "check_snapshot_operation ce op rt n ep vk k = Ok u \<Longrightarrow> op = CoverageSnapshot rt ep n k vk"
  by (cases op) (auto simp: check_snapshot_operation_def result_simps dest: key_ids_match_Ok)

subsection \<open>The signing manager\<close>

definition honest_manager :: "cov_env \<Rightarrow> bytes \<Rightarrow> string option \<Rightarrow> coverage_manager" where
  "honest_manager ce sk key_id = fst (new_with_signing_key_and_id (env_ed (cv_log ce)) sk key_id)"

lemma honest_manager_simps [simp]:
  "cm_signer (honest_manager ce sk k) = ed25519_signer (env_ed (cv_log ce)) sk k"
  "cm_verifying_key (honest_manager ce sk k) = dalek_public (env_ed (cv_log ce)) sk"
  "cm_publisher (honest_manager ce sk k) = None"
  "cm_signing_key_id (honest_manager ce sk k) = k"
  by (simp_all add: honest_manager_def new_with_signing_key_and_id_def with_log_def ed25519_signer_def sk_verifying_key_def)

lemma ed25519_signer_Ok:
  assumes "ed25519_correct ed"
  obtains sig where "sg_sign (ed25519_signer ed sk k) msg = Ok sig" "length sig = 64"
    "vk_verify ed (dalek_public ed sk) msg sig = Ok ()"
  by (rule sk_sign_verifies [OF assms, of sk msg]) (auto simp: ed25519_signer_def sk_verifying_key_def intro: that)

lemma log_file_epoch_result:
  assumes "ed25519_correct (env_ed (cv_log ce))" "dalek_public (env_ed (cv_log ce)) sk \<noteq> replicate 32 0"
    and "keys_distinct (ms_log s)"
  obtains t e p sig where
    "log_file_epoch ce (honest_manager ce sk key_id) now f ep s = (t, Ok e)"
    "fe_merkle_root e = cov_root (cv_sha ce) (ms_log t)" "fe_proof e = p"
    "verify_inclusion_proof (cv_sha ce) p (fe_merkle_root e) (coverage_leaf (f, ep)) = Ok True"
    "cg_entries (ms_log t) = AList.update f ep (cg_entries (ms_log s))"
    "cg_latest_root (ms_log t) = Some (fe_merkle_root e)" "cg_latest_signature (ms_log t) = Some sig"
    "length sig = 64" "cg_verifying_key (ms_log t) = Some (dalek_public (env_ed (cv_log ce)) sk)"
    "vk_verify (env_ed (cv_log ce)) (dalek_public (env_ed (cv_log ce)) sk) (fe_merkle_root e) sig = Ok ()"
proof -
  let ?l = "log_insert (ms_log s) f ep" and ?ed = "env_ed (cv_log ce)" and ?mgr = "honest_manager ce sk key_id"
  have ent: "cg_entries ?l = AList.update f ep (cg_entries (ms_log s))"
    by (simp add: log_insert_def)
  have "keys_distinct ?l" "get_entry ?l f = Some ep"
    using assms(3) by (simp_all add: ent distinct_update get_entry_def update_conv')
  then obtain p where p: "cov_inclusion_proof ce ?l f = Ok (p, cov_root (cv_sha ce) ?l)"
      "verify_inclusion_proof (cv_sha ce) p (cov_root (cv_sha ce) ?l) (coverage_leaf (f, ep)) = Ok True"
    by (rule cov_inclusion_proof_Ok)
  obtain sig where sig: "sg_sign (ed25519_signer ?ed sk key_id) (cov_root (cv_sha ce) ?l) = Ok sig" "length sig = 64"
      "vk_verify ?ed (dalek_public ?ed sk) (cov_root (cv_sha ce) ?l) sig = Ok ()"
    by (rule ed25519_signer_Ok [OF assms(1)])
  define e where "e = \<lparr>fe_file_id = f, fe_epoch_id = ep, fe_proof = p, fe_merkle_root = cov_root (cv_sha ce) ?l,
      fe_signature = sig, fe_verifying_key = dalek_public ?ed sk, fe_signing_key_id = key_id\<rparr>"
  let ?t = "s\<lparr>ms_log := add_entry ?l e, ms_latest_transparency := None\<rparr>"
  have run: "log_file_epoch ce ?mgr now f ep s = (?t, Ok e)"
    using p sig(1) by (simp add: log_file_epoch_def Let_def e_def)
  have "fe_signature e \<noteq> []" "fe_verifying_key e \<noteq> default_verifying_key"
    using sig(2) assms(2) by (auto simp: e_def default_verifying_key_def)
  note add = add_entry_signed [OF this, of ?l]
  have entries: "cg_entries (add_entry ?l e) = AList.update f ep (cg_entries (ms_log s))"
    unfolding add(1) by (simp add: ent e_def update_twice)
  then have "cov_root (cv_sha ce) (add_entry ?l e) = cov_root (cv_sha ce) ?l"
    by (intro cov_root_cong) (simp add: ent)
  then show thesis
    using run p(2) entries add(2-4) sig(2,3) by (intro that [of ?t e p sig]) (simp_all add: e_def)
qed

text \<open>The operations of a manager as a state machine, and the invariant of its log.\<close>

inductive manager_step :: "cov_env \<Rightarrow> coverage_manager \<Rightarrow> manager_state \<Rightarrow> manager_state \<Rightarrow> bool"
  for ce mgr where
  logged: "log_file_epoch ce mgr now f ep s = (t, r) \<Longrightarrow> manager_step ce mgr s t"
| inserted: "manager_step ce mgr s (insert_entries es s)"
| snapshot: "apply_signed_snapshot mgr rt s = (t, r') \<Longrightarrow> manager_step ce mgr s t"
| checked: "verify_integrity ce mgr s = (t, r'') \<Longrightarrow> manager_step ce mgr s t"

definition signed_snapshot :: "cov_env \<Rightarrow> coverage_log \<Rightarrow> bool" where
  "signed_snapshot ce l \<longleftrightarrow>
     (\<forall>sn. latest_snapshot l = Some sn \<longrightarrow>
        vk_verify (env_ed (cv_log ce)) (rs_verifying_key sn) (rs_merkle_root sn) (rs_signature sn) = Ok ())"

definition manager_inv :: "cov_env \<Rightarrow> manager_state \<Rightarrow> bool" where
  "manager_inv ce s \<longleftrightarrow> keys_distinct (ms_log s) \<and> signed_snapshot ce (ms_log s)"

lemma latest_snapshot_eq_Some:
  "latest_snapshot l = Some sn \<longleftrightarrow>
     cg_latest_root l = Some (rs_merkle_root sn) \<and> cg_latest_signature l = Some (rs_signature sn) \<and>
     cg_verifying_key l = Some (rs_verifying_key sn) \<and> cg_signing_key_id l = rs_signing_key_id sn"
  by (cases sn) (auto simp: latest_snapshot_def split: option.splits)

lemma latest_snapshot_update [simp]:
  "latest_snapshot (l\<lparr>cg_entries := es\<rparr>) = latest_snapshot l"
  "latest_snapshot (l\<lparr>cg_latest_epoch := ep\<rparr>) = latest_snapshot l"
  by (simp_all add: latest_snapshot_def cong: option.case_cong)

lemma insert_loop_fields:
  "insert_loop es l n b = (l', n', b') \<Longrightarrow> keys_distinct l \<Longrightarrow>
   keys_distinct l' \<and> latest_snapshot l' = latest_snapshot l"
proof (induction es l n b rule: insert_loop.induct)
  case (2 f ep es l n b)
  have "keys_distinct (log_insert l f ep)" "latest_snapshot (log_insert l f ep) = latest_snapshot l"
    using "2.prems"(2) by (simp_all add: log_insert_def distinct_update)
  with 2 show ?case by simp
qed auto

lemma insert_entries_inv:
  assumes "manager_inv ce s"
  shows "manager_inv ce (insert_entries es s)"
proof -
  obtain l n b where run: "insert_loop es (ms_log s) (case cg_latest_epoch (ms_log s) of Some e \<Rightarrow> e | None \<Rightarrow> 0)
      (cg_latest_epoch (ms_log s) \<noteq> None) = (l, n, b)"
    by (rule prod_cases3)
  from insert_loop_fields [OF run] assms show ?thesis
    unfolding insert_entries_def run by (simp add: manager_inv_def signed_snapshot_def)
qed

interpretation manager: invariant_system "\<lambda>s. s = snd (manager_new signer)"
    "\<lambda>s t. ed25519_correct (env_ed (cv_log ce)) \<and> dalek_public (env_ed (cv_log ce)) sk \<noteq> replicate 32 0 \<and>
       manager_step ce (honest_manager ce sk k) s t"
    "manager_inv ce" for ce sk k signer
proof unfold_locales
  show "manager_inv ce s" if "s = snd (manager_new signer)" for s
    using that by (simp add: manager_inv_def manager_new_def with_log_def log_new_def signed_snapshot_def latest_snapshot_def)
next
  fix s t
  assume inv: "manager_inv ce s"
    and "ed25519_correct (env_ed (cv_log ce)) \<and> dalek_public (env_ed (cv_log ce)) sk \<noteq> replicate 32 0 \<and>
       manager_step ce (honest_manager ce sk k) s t"
  then have ed: "ed25519_correct (env_ed (cv_log ce))" "dalek_public (env_ed (cv_log ce)) sk \<noteq> replicate 32 0"
    and step: "manager_step ce (honest_manager ce sk k) s t" by auto
  from step show "manager_inv ce t"
  proof (cases rule: manager_step.cases)
    case (logged now f ep r)
    obtain u e p sig where "log_file_epoch ce (honest_manager ce sk k) now f ep s = (u, Ok e)"
        "cg_entries (ms_log u) = AList.update f ep (cg_entries (ms_log s))"
        "cg_latest_root (ms_log u) = Some (fe_merkle_root e)" "cg_latest_signature (ms_log u) = Some sig"
        "cg_verifying_key (ms_log u) = Some (dalek_public (env_ed (cv_log ce)) sk)"
        "vk_verify (env_ed (cv_log ce)) (dalek_public (env_ed (cv_log ce)) sk) (fe_merkle_root e) sig = Ok ()"
      using inv unfolding manager_inv_def
      by (elim conjE) (rule log_file_epoch_result [OF ed, where s = s and f = f and ep = ep and now = now and key_id = k], blast+)
    with logged inv show ?thesis
      by (auto simp: manager_inv_def signed_snapshot_def latest_snapshot_eq_Some distinct_update)
  next
    case (inserted es)
    with inv show ?thesis by (simp add: insert_entries_inv)
  next
    case (snapshot rt r')
    obtain sig where "sg_sign (ed25519_signer (env_ed (cv_log ce)) sk k) rt = Ok sig"
        "vk_verify (env_ed (cv_log ce)) (dalek_public (env_ed (cv_log ce)) sk) rt sig = Ok ()"
      by (rule ed25519_signer_Ok [OF ed(1)])
    with snapshot inv show ?thesis
      by (auto simp: manager_inv_def signed_snapshot_def apply_signed_snapshot_def log_apply_signed_snapshot_def
          latest_snapshot_eq_Some)
  next
    case (checked r'')
    then have "ms_log t = ms_log s"
      by (auto simp: verify_integrity_def split: option.splits result.splits)
    with inv show ?thesis by (simp add: manager_inv_def)
  qed
qed

subsection \<open>Properties\<close>

text \<open>
  A leaf of the coverage tree determines the file and the epoch: the string \<open>file:epoch\<close> is read
  back from its last colon, so two assignments never share a leaf even if file names contain colons.
\<close>

theorem coverage_leaf_injective: "inj coverage_leaf"
  by (rule injI) (simp add: coverage_leaf_inj)

text \<open>
  Recording a file succeeds and leaves a log that verifies: with an Ed25519 manager (the curve
  operations correct, the public key not the reserved all-zero value), \<open>log_file_epoch\<close> returns an
  entry whose inclusion proof is accepted for the file against the signed root, the log maps the file
  to the epoch and every other file as before, and \<open>verify_coverage\<close> accepts the new log.
\<close>

theorem log_file_epoch_verifies:
  assumes "ed25519_correct (env_ed (cv_log ce))" "dalek_public (env_ed (cv_log ce)) sk \<noteq> replicate 32 0"
    and "distinct (map fst (cg_entries (ms_log s)))"
  shows "\<exists>t e. log_file_epoch ce (honest_manager ce sk key_id) now f ep s = (t, Ok e) \<and>
    verify_coverage ce (ms_log t) = Ok () \<and>
    verify_inclusion_proof (cv_sha ce) (fe_proof e) (fe_merkle_root e) (coverage_leaf (f, ep)) = Ok True \<and>
    cg_latest_root (ms_log t) = Some (fe_merkle_root e) \<and>
    get_entry (ms_log t) = (get_entry (ms_log s))(f \<mapsto> ep)"
proof -
  obtain t e p sig where run: "log_file_epoch ce (honest_manager ce sk key_id) now f ep s = (t, Ok e)"
      "fe_merkle_root e = cov_root (cv_sha ce) (ms_log t)" "fe_proof e = p"
      "verify_inclusion_proof (cv_sha ce) p (fe_merkle_root e) (coverage_leaf (f, ep)) = Ok True"
      "cg_entries (ms_log t) = AList.update f ep (cg_entries (ms_log s))"
      "cg_latest_root (ms_log t) = Some (fe_merkle_root e)" "cg_latest_signature (ms_log t) = Some sig"
      "length sig = 64" "cg_verifying_key (ms_log t) = Some (dalek_public (env_ed (cv_log ce)) sk)"
      "vk_verify (env_ed (cv_log ce)) (dalek_public (env_ed (cv_log ce)) sk) (fe_merkle_root e) sig = Ok ()"
    by (rule log_file_epoch_result [OF assms])
  have "get_entry (ms_log t) = (get_entry (ms_log s))(f \<mapsto> ep)"
    by (rule ext) (simp add: get_entry_def run(5) update_conv')
  moreover have "cg_entries (ms_log t) \<noteq> []"
    by (simp add: run(5) update_nonempty)
  ultimately show ?thesis
    using run assms(1) by (auto simp: verify_coverage_Ok_iff ed25519_correct_def)
qed

text \<open>
  C9. The signed root is tamper evident: replace the entries of a log that verifies by other entries, at least one, that
  map some file differently (added, dropped or moved to another epoch), keeping root and signature.
  Then verification fails on the root comparison, unless SHA-256 collides among the messages hashed
  for the two trees.
\<close>

theorem coverage_tamper_evident:
  assumes "sha256_len (cv_sha ce)" "verify_coverage ce l = Ok ()"
    and "distinct (map fst (cg_entries l))" "distinct (map fst es)" "es \<noteq> []" "map_of es \<noteq> map_of (cg_entries l)"
    and inj: "inj_on (cv_sha ce)
      (set (tree_msgs (cv_sha ce) (map coverage_leaf (cov_items l))) \<union>
       set (tree_msgs (cv_sha ce) (map coverage_leaf (cov_items (l\<lparr>cg_entries := es\<rparr>)))))"
  shows "verify_coverage ce (l\<lparr>cg_entries := es\<rparr>) = Err (Generic ''computed Merkle root does not match recorded root'')"
proof -
  let ?sha = "cv_sha ce" and ?l' = "l\<lparr>cg_entries := es\<rparr>"
  let ?ds = "map coverage_leaf (cov_items l)" and ?es = "map coverage_leaf (cov_items ?l')"
  from assms(2) obtain sig vk where l: "cg_entries l \<noteq> []" "cg_latest_root l = Some (cov_root ?sha l)"
      "cg_latest_signature l = Some sig" "cg_verifying_key l = Some vk"
    by (auto simp: verify_coverage_Ok_iff)
  have "cov_root ?sha ?l' \<noteq> cov_root ?sha l"
  proof
    assume eq: "cov_root ?sha ?l' = cov_root ?sha l"
    have ne: "?ds \<noteq> []" "?es \<noteq> []"
      using l(1) assms(5) by simp_all
    have "mroot (hash_internal ?sha) (map (hash_leaf ?sha) ?ds) = mroot (hash_internal ?sha) (map (hash_leaf ?sha) ?es)"
      using eq ne by (simp add: cov_root_def mroot_eq_mth)
    then have "set ?ds = set ?es"
      using merkle_root_subset [OF assms(1) ne inj] merkle_root_subset [OF assms(1) ne(2,1)] inj
      by (simp add: Un_commute)
    then have "set (cg_entries l) = set es"
      using inj_image_eq_iff [OF injI [of coverage_leaf]] coverage_leaf_inj by simp
    then show False
      using assms(3,4,6) by (simp add: map_of_inject_set)
  qed
  then show ?thesis
    using l assms(5) by (simp add: verify_coverage_def verify_coverage_internal_eq)
qed

text \<open>
  C21. What a transparency-backed verification guarantees: an accepted log has a recorded root equal to
  the tree hash of its entries, validly signed by the recorded key; and the returned proof is an
  accepted inclusion proof of a coverage snapshot entry with exactly this root, the number of files,
  the latest epoch, the verifying key and the key identifier of the log.
\<close>

theorem verify_with_transparency_sound:
  assumes "verify_coverage_with_transparency ce fetch l = Ok p"
  shows "inclusion_verify (cv_log ce) p = Ok True \<and> fetch (cov_root (cv_sha ce) l) = Ok p \<and>
    te_join_card_hash (ip_entry p) = cov_root (cv_sha ce) l \<and>
    (\<exists>ep vk. te_operation (ip_entry p) =
        CoverageSnapshot (cov_root (cv_sha ce) l) ep (of_nat (length (cg_entries l))) (cg_signing_key_id l) vk \<and>
       cg_verifying_key l = Some vk \<and>
       (case cg_latest_epoch l of Some e \<Rightarrow> Some e | None \<Rightarrow> max_epoch_of (cov_items l)) = Some ep) \<and>
    verify_coverage ce l = Ok ()"
proof -
  have ne: "cg_entries l \<noteq> []"
    using assms by (auto simp: verify_coverage_with_transparency_def verify_coverage_internal_def)
  from assms obtain sig vk where l: "cg_latest_root l = Some (cov_root (cv_sha ce) l)" "cg_latest_signature l = Some sig"
      "length sig = 64" "cg_verifying_key l = Some vk" "length vk = 32" "dalek_decode_vk (env_ed (cv_log ce)) vk = Ok ()"
      "vk_verify (env_ed (cv_log ce)) vk (cov_root (cv_sha ce) l) sig = Ok ()"
    and chk: "check_transparency ce fetch l (cov_root (cv_sha ce) l) (cov_items l) vk = Ok p"
    unfolding verify_coverage_with_transparency_def verify_coverage_internal_eq [OF ne] result_simps
    by (auto simp: result_simps)
  from l ne have "verify_coverage ce l = Ok ()"
    by (simp add: verify_coverage_Ok_iff)
  moreover have "inclusion_verify (cv_log ce) p = Ok True" "fetch (cov_root (cv_sha ce) l) = Ok p"
      "te_join_card_hash (ip_entry p) = cov_root (cv_sha ce) l"
    using chk by (auto simp: check_transparency_def result_simps)
  moreover have "\<exists>ep. te_operation (ip_entry p) =
        CoverageSnapshot (cov_root (cv_sha ce) l) ep (of_nat (length (cg_entries l))) (cg_signing_key_id l) vk \<and>
       (case cg_latest_epoch l of Some e \<Rightarrow> Some e | None \<Rightarrow> max_epoch_of (cov_items l)) = Some ep"
    using chk
    by (auto simp: check_transparency_def result_simps dest!: check_snapshot_operation_Ok)
  ultimately show ?thesis
    using l(4) by blast
qed

text \<open>
  In every state a manager with an Ed25519 key can reach from a new one, by recording files,
  inserting entries in bulk, signing snapshots and verifying, the log has one epoch per file and the
  recorded snapshot, if any, carries a valid signature.
\<close>

theorem manager_snapshot_always_signed:
  assumes "ed25519_correct (env_ed (cv_log ce))" "dalek_public (env_ed (cv_log ce)) sk \<noteq> replicate 32 0"
    and "(manager_step ce (honest_manager ce sk k))\<^sup>*\<^sup>* (snd (manager_new signer)) s"
  shows "distinct (map fst (cg_entries (ms_log s))) \<and>
    (\<forall>sn. latest_snapshot (ms_log s) = Some sn \<longrightarrow>
       vk_verify (env_ed (cv_log ce)) (rs_verifying_key sn) (rs_merkle_root sn) (rs_signature sn) = Ok ())"
proof -
  have "manager_inv ce s"
    using manager.invar_reachable [OF refl, where ce = ce and sk = sk and k = k] assms by simp
  then show ?thesis
    by (simp add: manager_inv_def signed_snapshot_def)
qed

text \<open>
  The migration progress is a ratio in the unit interval, and with fewer than $2^{53}$ entries the
  computed double is one exactly when there are entries and each of them is at the target epoch or later.
\<close>

theorem migration_progress_complete_iff:
  assumes "length (cg_entries (ms_log s)) < 2 ^ 53"
  shows "0 \<le> get_migration_progress s a b \<and> get_migration_progress s a b \<le> 1 \<and>
   (get_migration_progress s a b = 1 \<longleftrightarrow> cg_entries (ms_log s) \<noteq> [] \<and> list_all (\<lambda>(f, e). b \<le> e) (cg_entries (ms_log s)))"
proof (cases "cg_entries (ms_log s) = []")
  case True
  then show ?thesis by (simp add: get_migration_progress_def)
next
  case False
  let ?es = "cg_entries (ms_log s)"
  let ?m = "length (filter (\<lambda>e. b \<le> e) (map snd ?es))"
  have le: "?m \<le> length ?es"
    by (metis length_filter_le length_map)
  have "?m = length ?es \<longleftrightarrow> list_all (\<lambda>(f, e). b \<le> e) ?es"
    using length_filter_all_iff [of "\<lambda>e. b \<le> e" "map snd ?es"] by (simp add: list_all_iff split_beta)
  with False f64_ratio_bounds [OF le] f64_ratio_one_iff [OF le _ assms] show ?thesis
    by (simp add: get_migration_progress_def Let_def)
qed

text \<open>
  If the signer fails, \<open>log_file_epoch\<close> returns its error, but the file stays recorded in the log
  while root and signature remain those of the log without it.
\<close>

theorem failed_signing_keeps_entry:
  assumes "sg_sign (cm_signer mgr) = (\<lambda>_. Err err)" "distinct (map fst (cg_entries (ms_log s)))"
  shows "\<exists>t. log_file_epoch ce mgr now f ep s = (t, Err err) \<and> get_entry (ms_log t) f = Some ep \<and>
    latest_snapshot (ms_log t) = latest_snapshot (ms_log s)"
proof -
  let ?l = "log_insert (ms_log s) f ep"
  have "keys_distinct ?l" "get_entry ?l f = Some ep"
    using assms(2) by (simp_all add: log_insert_def distinct_update get_entry_def update_conv')
  then obtain p where "cov_inclusion_proof ce ?l f = Ok (p, cov_root (cv_sha ce) ?l)"
    by (rule cov_inclusion_proof_Ok)
  with assms(1) \<open>get_entry ?l f = Some ep\<close> show ?thesis
    by (simp add: log_file_epoch_def Let_def) (simp add: log_insert_def)
qed

subsection \<open>Examples\<close>

definition sample_cov_env :: cov_env where
  "sample_cov_env = \<lparr>cv_log = sample_env, dbg_operation = (\<lambda>_. [])\<rparr>"

definition sample_manager_state :: manager_state where
  "sample_manager_state = \<lparr>ms_log = log_new\<lparr>cg_entries := [(''b'', 1), (''a'', 2)]\<rparr>, ms_latest_transparency = None\<rparr>"

lemma sample_cov_ed: "env_ed (cv_log sample_cov_env) = sample_ed25519"
  by (simp add: sample_cov_env_def sample_env_def)

lemma sample_cov_key: "dalek_public (env_ed (cv_log sample_cov_env)) [1] \<noteq> replicate 32 0"
  unfolding sample_cov_ed by code_simp

lemma sample_cov_correct: "ed25519_correct (env_ed (cv_log sample_cov_env))"
  unfolding sample_cov_ed by (rule sample_ed25519_correct)

theorem log_file_epoch_verifies_witness:
  "\<exists>t e. log_file_epoch sample_cov_env (honest_manager sample_cov_env [1] None) 0 ''c'' 3 sample_manager_state = (t, Ok e) \<and>
    verify_coverage sample_cov_env (ms_log t) = Ok () \<and>
    verify_inclusion_proof (cv_sha sample_cov_env) (fe_proof e) (fe_merkle_root e) (coverage_leaf (''c'', 3)) = Ok True \<and>
    cg_latest_root (ms_log t) = Some (fe_merkle_root e) \<and>
    get_entry (ms_log t) = (get_entry (ms_log sample_manager_state))(''c'' \<mapsto> 3)"
  by (rule log_file_epoch_verifies [OF sample_cov_correct sample_cov_key])
    (simp add: sample_manager_state_def log_new_def)

definition sample_signed_log :: coverage_log where
  "sample_signed_log =
     ms_log (fst (log_file_epoch sample_cov_env (honest_manager sample_cov_env [1] None) 0 ''c'' 3 sample_manager_state))"

theorem coverage_tamper_evident_witness:
  "verify_coverage sample_cov_env (sample_signed_log\<lparr>cg_entries := [(''a'', 2), (''b'', 1), (''c'', 4)]\<rparr>) =
     Err (Generic ''computed Merkle root does not match recorded root'')"
proof (rule coverage_tamper_evident)
  show "sha256_len (cv_sha sample_cov_env)"
    using sample_env_sha by (simp add: sample_cov_env_def)
  show "verify_coverage sample_cov_env sample_signed_log = Ok ()"
    by code_simp
  show "distinct (map fst (cg_entries sample_signed_log))"
    "distinct (map fst [(''a'', 2 :: u64), (''b'', 1), (''c'', 4)])"
    by code_simp+
  show "[(''a'', 2 :: u64), (''b'', 1), (''c'', 4)] \<noteq> []"
    by simp
  have "map_of (cg_entries sample_signed_log) ''c'' = Some 3"
    by code_simp
  then show "map_of [(''a'', 2), (''b'', 1), (''c'', 4)] \<noteq> map_of (cg_entries sample_signed_log)"
    by (auto dest!: fun_cong [of _ _ "''c''"])
  show "inj_on (cv_sha sample_cov_env)
      (set (tree_msgs (cv_sha sample_cov_env) (map coverage_leaf (cov_items sample_signed_log))) \<union>
       set (tree_msgs (cv_sha sample_cov_env) (map coverage_leaf
         (cov_items (sample_signed_log\<lparr>cg_entries := [(''a'', 2), (''b'', 1), (''c'', 4)]\<rparr>)))))"
    unfolding set_append [symmetric] by (rule inj_on_setI) code_simp
qed

text \<open>A transparency log with one entry, the snapshot of the signed sample log.\<close>

definition sample_snapshot_proof :: log_inclusion_proof where
  "sample_snapshot_proof =
     (let e = \<lparr>te_sequence_number = 1, te_timestamp = 0, te_join_card_hash = cov_root sample_sha sample_signed_log,
               te_operation = CoverageSnapshot (cov_root sample_sha sample_signed_log) 3 3 None (pad32 [1]),
               te_signature = [1]\<rparr>
      in \<lparr>ip_entry = e, ip_leaf_index = 0, ip_proof_path = [], ip_log_size = 1, ip_log_root = entry_hash sample_env e\<rparr>)"

theorem verify_with_transparency_sound_witness:
  "inclusion_verify (cv_log sample_cov_env) sample_snapshot_proof = Ok True \<and>
    Ok sample_snapshot_proof = (Ok sample_snapshot_proof :: (log_inclusion_proof, coverage_error) result) \<and>
    te_join_card_hash (ip_entry sample_snapshot_proof) = cov_root (cv_sha sample_cov_env) sample_signed_log \<and>
    (\<exists>ep vk. te_operation (ip_entry sample_snapshot_proof) =
        CoverageSnapshot (cov_root (cv_sha sample_cov_env) sample_signed_log) ep
          (of_nat (length (cg_entries sample_signed_log))) (cg_signing_key_id sample_signed_log) vk \<and>
       cg_verifying_key sample_signed_log = Some vk \<and>
       (case cg_latest_epoch sample_signed_log of Some e \<Rightarrow> Some e | None \<Rightarrow> max_epoch_of (cov_items sample_signed_log)) = Some ep) \<and>
    verify_coverage sample_cov_env sample_signed_log = Ok ()"
proof -
  have "verify_coverage_with_transparency sample_cov_env (\<lambda>_. Ok sample_snapshot_proof) sample_signed_log = Ok sample_snapshot_proof"
    by code_simp
  from verify_with_transparency_sound [OF this] show ?thesis .
qed

definition sample_first_run :: manager_state where
  "sample_first_run =
     fst (log_file_epoch sample_cov_env (honest_manager sample_cov_env [1] None) 0 ''c'' 3
       (snd (manager_new (ed25519_signer sample_ed25519 [1] None))))"

theorem manager_snapshot_always_signed_witness:
  "\<exists>sn. latest_snapshot (ms_log sample_first_run) = Some sn \<and>
     vk_verify (env_ed (cv_log sample_cov_env)) (rs_verifying_key sn) (rs_merkle_root sn) (rs_signature sn) = Ok ()"
proof -
  have "(manager_step sample_cov_env (honest_manager sample_cov_env [1] None))\<^sup>*\<^sup>*
      (snd (manager_new (ed25519_signer sample_ed25519 [1] None))) sample_first_run"
    unfolding sample_first_run_def by (rule r_into_rtranclp, rule manager_step.logged, rule prod.collapse [symmetric])
  moreover have "latest_snapshot (ms_log sample_first_run) \<noteq> None"
    by code_simp
  ultimately show ?thesis
    using manager_snapshot_always_signed [OF sample_cov_correct sample_cov_key] by blast
qed

theorem failed_signing_keeps_entry_witness:
  "\<exists>t. log_file_epoch sample_cov_env
        (fst (manager_new \<lparr>sg_sign = (\<lambda>_. Err (Generic ''offline'')), sg_verifying_key = [], sg_key_id = None\<rparr>))
        0 ''c'' 3 sample_manager_state = (t, Err (Generic ''offline'')) \<and> get_entry (ms_log t) ''c'' = Some 3 \<and>
     latest_snapshot (ms_log t) = latest_snapshot (ms_log sample_manager_state)"
  by (rule failed_signing_keeps_entry)
    (simp_all add: manager_new_def with_log_def sample_manager_state_def log_new_def)

theorem migration_progress_complete_iff_witness: "get_migration_progress sample_manager_state 0 1 = 1"
proof -
  have "length (cg_entries (ms_log sample_manager_state)) < 2 ^ 53"
    by (simp add: sample_manager_state_def)
  moreover have "cg_entries (ms_log sample_manager_state) \<noteq> [] \<and>
      list_all (\<lambda>(f, e). 1 \<le> e) (cg_entries (ms_log sample_manager_state))"
    by code_simp
  ultimately show ?thesis
    using migration_progress_complete_iff [of sample_manager_state 0 1] by blast
qed

end
