(* ===== verification/EpochState.thy ===== *)
theory EpochState
  imports Signatures Float64 "HOL-Library.AList" "HOL-Library.List_Lexorder"
begin

text \<open>
  The state of an epoch and its members (\<open>crates/client/src/epoch/state.rs\<close>, with the key
  provenance of \<open>crates/client/src/epoch_key_source.rs\<close>): the lifecycle operations with their guards,
  validation, member status changes, permissions, queries and the versioned container.

  A \<open>HashMap\<close> is an association list with distinct keys in some iteration order. \<open>Utc::now()\<close> is an
  explicit clock reading, one argument per call. A mutating method takes the old state to the new
  one and its result. Parameters, in \<open>epoch_env\<close>: SHA-256, the \<open>serde_json\<close> encodings that are hashed
  (\<open>None\<close> where the encoder fails), the \<open>Debug\<close> texts of an instant and of a string, and chrono's
  checked \<open>Duration::seconds\<close> and addition (\<open>None\<close> where they panic).
\<close>

named_theorems epoch_defs \<open>the operations of an epoch\<close>

subsection \<open>Data\<close>

datatype epoch_key_source =
    SrcWelcome | SrcGroupUpdate | SrcRecovery | SrcLocalInit | SrcLocalVault | SrcPlaceholder | SrcUnknown

fun is_verified :: "epoch_key_source \<Rightarrow> bool" where
  "is_verified SrcWelcome = True"
| "is_verified SrcGroupUpdate = True"
| "is_verified SrcRecovery = True"
| "is_verified _ = False"

definition is_locally_usable :: "epoch_key_source \<Rightarrow> bool" where
  "is_locally_usable s \<longleftrightarrow> is_verified s \<or> s = SrcLocalVault"

datatype member_status =
    MActive
  | MPendingMigration u64 instant
  | MRemoved instant string

record member_capabilities =
  can_read_cap :: bool
  can_write_cap :: bool
  can_invite_cap :: bool
  can_rekey_cap :: bool
  can_remove_cap :: bool
  can_admin_cap :: bool

definition default_capabilities :: member_capabilities where
  "default_capabilities =
     \<lparr>can_read_cap = True, can_write_cap = False, can_invite_cap = False, can_rekey_cap = False,
      can_remove_cap = False, can_admin_cap = False\<rparr>"

record member =
  mb_id :: bytes
  mb_public_key :: bytes
  mb_status :: member_status
  mb_capabilities :: member_capabilities
  mb_joined_at :: instant
  mb_updated_at :: instant

datatype epoch_status =
    Initializing instant
  | Active instant
  | Migrating u64 instant
  | PendingCutover u64 instant
  | Deprecated instant u64
  | Deleted instant

datatype lifecycle_phase = PhCreation | PhActive | PhMigration | PhDeletion

datatype member_capability = CapRead | CapWrite | CapInvite | CapRekey | CapRemove | CapAdmin

record epoch_metadata =
  em_description :: "string option"
  em_tags :: "(string \<times> string) list"
  em_version :: nat
  em_notes :: "string list"

definition default_metadata :: epoch_metadata where
  "default_metadata = \<lparr>em_description = None, em_tags = [], em_version = 1, em_notes = []\<rparr>"

record epoch_state =
  es_epoch_id :: u64
  es_key :: bytes
  es_key_source :: epoch_key_source
  es_members :: "(bytes \<times> member) list"
  es_status :: epoch_status
  es_created_at :: instant
  es_updated_at :: instant
  es_file_count :: u64
  es_metadata :: epoch_metadata

datatype epoch_error =
    MemberNotFound
  | EpochInvalidState string
  | AccessDenied string
  | EpochValidationFailed string
  | EpochStorage string
  | EpochSerialization string

fun epoch_error_display :: "epoch_error \<Rightarrow> string" where
  "epoch_error_display MemberNotFound = ''Member not found''"
| "epoch_error_display (EpochInvalidState m) = ''Invalid epoch state: '' @ m"
| "epoch_error_display (AccessDenied m) = ''Epoch access denied: '' @ m"
| "epoch_error_display (EpochValidationFailed m) = ''Epoch validation failed: '' @ m"
| "epoch_error_display (EpochStorage m) = ''Storage error: '' @ m"
| "epoch_error_display (EpochSerialization m) = ''Serialization error: '' @ m"

record epoch_env =
  ev_sha :: "bytes \<Rightarrow> bytes"
  ev_status_json :: "epoch_status \<Rightarrow> bytes option"
  ev_member_status_json :: "member_status \<Rightarrow> bytes option"
  ev_capabilities_json :: "member_capabilities \<Rightarrow> bytes option"
  ev_instant_debug :: "instant \<Rightarrow> string"
  ev_string_debug :: "string \<Rightarrow> string"
  ev_duration_seconds :: "int \<Rightarrow> int option"
  ev_instant_add :: "instant \<Rightarrow> int \<Rightarrow> instant option"

definition ZERO_KEY :: bytes where
  "ZERO_KEY = replicate 32 0"

text \<open>The \<open>{:?}\<close> texts of the statuses, as \<open>derive(Debug)\<close> prints struct variants.\<close>

fun epoch_status_debug :: "epoch_env \<Rightarrow> epoch_status \<Rightarrow> string" where
  "epoch_status_debug ev (Initializing t) = ''Initializing { started_at: '' @ ev_instant_debug ev t @ '' }''"
| "epoch_status_debug ev (Active t) = ''Active { activated_at: '' @ ev_instant_debug ev t @ '' }''"
| "epoch_status_debug ev (Migrating e t) =
     ''Migrating { target_epoch: '' @ dec_nat (unat e) @ '', started_at: '' @ ev_instant_debug ev t @ '' }''"
| "epoch_status_debug ev (PendingCutover e t) =
     ''PendingCutover { target_epoch: '' @ dec_nat (unat e) @ '', initiated_at: '' @ ev_instant_debug ev t @ '' }''"
| "epoch_status_debug ev (Deprecated t e) =
     ''Deprecated { deprecated_at: '' @ ev_instant_debug ev t @ '', successor_epoch: '' @ dec_nat (unat e) @ '' }''"
| "epoch_status_debug ev (Deleted t) = ''Deleted { deleted_at: '' @ ev_instant_debug ev t @ '' }''"

fun member_status_debug :: "epoch_env \<Rightarrow> member_status \<Rightarrow> string" where
  "member_status_debug ev MActive = ''Active''"
| "member_status_debug ev (MPendingMigration e t) =
     ''PendingMigration { target_epoch: '' @ dec_nat (unat e) @ '', started_at: '' @ ev_instant_debug ev t @ '' }''"
| "member_status_debug ev (MRemoved t reason) =
     ''Removed { removed_at: '' @ ev_instant_debug ev t @ '', reason: '' @ ev_string_debug ev reason @ '' }''"

subsection \<open>Lifecycle operations\<close>

definition epoch_new :: "instant \<Rightarrow> u64 \<Rightarrow> bytes \<Rightarrow> epoch_state" where
  "epoch_new now epoch_id key =
     \<lparr>es_epoch_id = epoch_id, es_key = key, es_key_source = SrcLocalInit, es_members = [],
      es_status = Initializing now, es_created_at = now, es_updated_at = now, es_file_count = 0,
      es_metadata = default_metadata\<rparr>"

definition add_member :: "instant \<Rightarrow> member \<Rightarrow> (epoch_state, unit, epoch_error) action" where
  "add_member now m e =
     (e\<lparr>es_members := AList.update (mb_id m) m (es_members e), es_updated_at := now\<rparr>, Ok ())"

definition remove_member ::
  "instant \<Rightarrow> instant \<Rightarrow> bytes \<Rightarrow> string \<Rightarrow> (epoch_state, unit, epoch_error) action" where
  "remove_member now1 now2 member_id reason e =
     (case map_of (es_members e) member_id of
        Some m \<Rightarrow>
          (e\<lparr>es_members := AList.update member_id (m\<lparr>mb_status := MRemoved now1 reason\<rparr>) (es_members e),
             es_updated_at := now2\<rparr>, Ok ())
      | None \<Rightarrow> (e, Err MemberNotFound))"

definition epoch_update_status :: "instant \<Rightarrow> epoch_status \<Rightarrow> epoch_state \<Rightarrow> epoch_state" where
  "epoch_update_status now status e = e\<lparr>es_status := status, es_updated_at := now\<rparr>"

fun is_active_status :: "epoch_status \<Rightarrow> bool" where
  "is_active_status (Active _) = True"
| "is_active_status _ = False"

definition epoch_is_active :: "epoch_state \<Rightarrow> bool" where
  "epoch_is_active e = is_active_status (es_status e)"

definition is_migrating :: "epoch_state \<Rightarrow> bool" where
  "is_migrating e = (case es_status e of Migrating _ _ \<Rightarrow> True | _ \<Rightarrow> False)"

definition active_member_count :: "epoch_state \<Rightarrow> nat" where
  "active_member_count e = length (filter (\<lambda>m. mb_status m = MActive) (map snd (es_members e)))"

definition activate :: "epoch_env \<Rightarrow> instant \<Rightarrow> instant \<Rightarrow> (epoch_state, unit, epoch_error) action" where
  "activate ev now1 now2 e =
     (case es_status e of
        Initializing _ \<Rightarrow>
          if es_members e = [] then (e, Err (EpochValidationFailed ''Cannot activate epoch with no members''))
          else (e\<lparr>es_status := Active now1, es_updated_at := now2\<rparr>, Ok ())
      | _ \<Rightarrow> (e, Err (EpochInvalidState (''Cannot activate epoch in state: '' @ epoch_status_debug ev (es_status e)))))"

definition start_migration ::
  "epoch_env \<Rightarrow> instant \<Rightarrow> instant \<Rightarrow> u64 \<Rightarrow> (epoch_state, unit, epoch_error) action" where
  "start_migration ev now1 now2 target_epoch e =
     (case es_status e of
        Active _ \<Rightarrow>
          if target_epoch \<le> es_epoch_id e
          then (e, Err (EpochValidationFailed ''Target epoch must be greater than current epoch''))
          else (e\<lparr>es_status := Migrating target_epoch now1, es_updated_at := now2\<rparr>, Ok ())
      | _ \<Rightarrow> (e, Err (EpochInvalidState
                (''Cannot start migration from state: '' @ epoch_status_debug ev (es_status e)))))"

definition initiate_cutover ::
  "epoch_env \<Rightarrow> instant \<Rightarrow> instant \<Rightarrow> u64 \<Rightarrow> (epoch_state, unit, epoch_error) action" where
  "initiate_cutover ev now1 now2 target_epoch e =
     (case es_status e of
        Migrating current_target _ \<Rightarrow>
          if target_epoch \<noteq> current_target
          then (e, Err (EpochValidationFailed ''Cutover target epoch does not match migration target''))
          else (e\<lparr>es_status := PendingCutover target_epoch now1, es_updated_at := now2\<rparr>, Ok ())
      | _ \<Rightarrow> (e, Err (EpochInvalidState
                (''Cannot initiate cutover from state: '' @ epoch_status_debug ev (es_status e)))))"

definition deprecate ::
  "epoch_env \<Rightarrow> instant \<Rightarrow> instant \<Rightarrow> u64 \<Rightarrow> (epoch_state, unit, epoch_error) action" where
  "deprecate ev now1 now2 successor_epoch e =
     (case es_status e of
        PendingCutover target_epoch _ \<Rightarrow>
          if successor_epoch \<noteq> target_epoch
          then (e, Err (EpochValidationFailed ''Successor epoch does not match cutover target''))
          else (e\<lparr>es_status := Deprecated now1 successor_epoch, es_updated_at := now2\<rparr>, Ok ())
      | _ \<Rightarrow> (e, Err (EpochInvalidState
                (''Cannot deprecate epoch from state: '' @ epoch_status_debug ev (es_status e)))))"

definition epoch_delete :: "epoch_env \<Rightarrow> instant \<Rightarrow> instant \<Rightarrow> (epoch_state, unit, epoch_error) action" where
  "epoch_delete ev now1 now2 e =
     (case es_status e of
        Deprecated _ _ \<Rightarrow> (e\<lparr>es_key := ZERO_KEY, es_status := Deleted now1, es_updated_at := now2\<rparr>, Ok ())
      | _ \<Rightarrow> (e, Err (EpochInvalidState
                (''Cannot delete epoch from state: '' @ epoch_status_debug ev (es_status e)))))"

subsection \<open>Members\<close>

definition member_new :: "instant \<Rightarrow> bytes \<Rightarrow> bytes \<Rightarrow> member_capabilities \<Rightarrow> member" where
  "member_new now member_id public_key capabilities =
     \<lparr>mb_id = member_id, mb_public_key = public_key, mb_status = MActive, mb_capabilities = capabilities,
      mb_joined_at = now, mb_updated_at = now\<rparr>"

definition member_is_active :: "member \<Rightarrow> bool" where
  "member_is_active m \<longleftrightarrow> mb_status m = MActive"

definition member_update_status :: "instant \<Rightarrow> member_status \<Rightarrow> member \<Rightarrow> member" where
  "member_update_status now status m = m\<lparr>mb_status := status, mb_updated_at := now\<rparr>"

definition member_validate :: "instant \<Rightarrow> member \<Rightarrow> (unit, epoch_error) result" where
  "member_validate now m =
     rbind (guard (mb_id m \<noteq> []) (EpochValidationFailed ''Member ID cannot be empty'')) (\<lambda>_.
     rbind (guard (mb_public_key m \<noteq> []) (EpochValidationFailed ''Public key cannot be empty'')) (\<lambda>_.
     rbind (guard (length (mb_public_key m) = 32)
             (EpochValidationFailed ''Public key must be 32 bytes for Ed25519'')) (\<lambda>_.
     rbind (guard (\<not> mb_updated_at m < mb_joined_at m)
             (EpochValidationFailed ''Updated timestamp cannot be before join timestamp'')) (\<lambda>_.
     case mb_status m of
       MPendingMigration target_epoch started_at \<Rightarrow>
         rbind (guard (target_epoch \<noteq> 0) (EpochValidationFailed ''Migration target epoch cannot be zero'')) (\<lambda>_.
         guard (\<not> now < started_at) (EpochValidationFailed ''Migration start time cannot be in the future''))
     | MRemoved removed_at reason \<Rightarrow>
         rbind (guard (reason \<noteq> []) (EpochValidationFailed ''Removal reason cannot be empty'')) (\<lambda>_.
         guard (\<not> now < removed_at) (EpochValidationFailed ''Removal time cannot be in the future''))
     | MActive \<Rightarrow> Ok ()))))"

fun has_capability :: "member \<Rightarrow> member_capability \<Rightarrow> bool" where
  "has_capability m CapRead = can_read_cap (mb_capabilities m)"
| "has_capability m CapWrite = can_write_cap (mb_capabilities m)"
| "has_capability m CapInvite = can_invite_cap (mb_capabilities m)"
| "has_capability m CapRekey = can_rekey_cap (mb_capabilities m)"
| "has_capability m CapRemove = can_remove_cap (mb_capabilities m)"
| "has_capability m CapAdmin = can_admin_cap (mb_capabilities m)"

definition member_start_migration ::
  "epoch_env \<Rightarrow> instant \<Rightarrow> instant \<Rightarrow> u64 \<Rightarrow> (member, unit, epoch_error) action" where
  "member_start_migration ev now1 now2 target_epoch m =
     (case mb_status m of
        MActive \<Rightarrow> (m\<lparr>mb_status := MPendingMigration target_epoch now1, mb_updated_at := now2\<rparr>, Ok ())
      | _ \<Rightarrow> (m, Err (EpochInvalidState
                (''Cannot start migration from status: '' @ member_status_debug ev (mb_status m)))))"

definition complete_migration :: "epoch_env \<Rightarrow> instant \<Rightarrow> (member, unit, epoch_error) action" where
  "complete_migration ev now m =
     (case mb_status m of
        MPendingMigration _ _ \<Rightarrow> (m\<lparr>mb_status := MActive, mb_updated_at := now\<rparr>, Ok ())
      | _ \<Rightarrow> (m, Err (EpochInvalidState
                (''Cannot complete migration from status: '' @ member_status_debug ev (mb_status m)))))"

definition member_remove :: "instant \<Rightarrow> instant \<Rightarrow> string \<Rightarrow> (member, unit, epoch_error) action" where
  "member_remove now1 now2 reason m =
     (if reason = [] then (m, Err (EpochValidationFailed ''Removal reason cannot be empty''))
      else (m\<lparr>mb_status := MRemoved now1 reason, mb_updated_at := now2\<rparr>, Ok ()))"

definition member_verifying_key :: "ed25519 \<Rightarrow> member \<Rightarrow> (bytes, epoch_error) result" where
  "member_verifying_key ed m =
     map_err (\<lambda>e. EpochValidationFailed (''Invalid public key: '' @ crypto_error_display e))
       (verifying_key_from_bytes ed (mb_public_key m))"

definition unwrap_or_default :: "bytes option \<Rightarrow> bytes" where
  "unwrap_or_default x = (case x of Some b \<Rightarrow> b | None \<Rightarrow> [])"

definition member_compute_hash :: "epoch_env \<Rightarrow> member \<Rightarrow> bytes" where
  "member_compute_hash ev m =
     ev_sha ev (mb_id m @ mb_public_key m @ unwrap_or_default (ev_member_status_json ev (mb_status m)) @
       unwrap_or_default (ev_capabilities_json ev (mb_capabilities m)))"

definition member_age_seconds :: "instant \<Rightarrow> member \<Rightarrow> int" where
  "member_age_seconds now m = num_seconds (now - mb_joined_at m)"

definition can_operate_on :: "member \<Rightarrow> member \<Rightarrow> member_capability \<Rightarrow> bool" where
  "can_operate_on m target operation =
     (if \<not> member_is_active m \<or> \<not> has_capability m operation then False
      else case operation of
             CapRemove \<Rightarrow> mb_id m \<noteq> mb_id target \<and> (has_capability m CapAdmin \<or> \<not> has_capability target CapAdmin)
           | CapAdmin \<Rightarrow> has_capability m CapAdmin
           | _ \<Rightarrow> True)"

subsection \<open>Validation and integrity\<close>

fun is_deleted_status :: "epoch_status \<Rightarrow> bool" where
  "is_deleted_status (Deleted _) = True"
| "is_deleted_status _ = False"

text \<open>\<open>now\<close> stands for the clock readings of the member validations.\<close>

definition epoch_validate :: "instant \<Rightarrow> epoch_state \<Rightarrow> (unit, epoch_error) result" where
  "epoch_validate now e =
     rbind (guard (es_epoch_id e \<noteq> 0) (EpochValidationFailed ''Epoch ID cannot be zero'')) (\<lambda>_.
     rbind (guard (is_deleted_status (es_status e) \<or> es_key e \<noteq> ZERO_KEY)
             (EpochValidationFailed ''Encryption key cannot be all zeros'')) (\<lambda>_.
     rbind (guard (\<not> es_updated_at e < es_created_at e)
             (EpochValidationFailed ''Updated timestamp cannot be before creation timestamp'')) (\<lambda>_.
     rbind (for_each (member_validate now) (map snd (es_members e))) (\<lambda>_.
     case es_status e of
       Migrating target_epoch _ \<Rightarrow>
         guard (\<not> target_epoch \<le> es_epoch_id e)
           (EpochValidationFailed ''Migration target epoch must be greater than current epoch'')
     | PendingCutover target_epoch _ \<Rightarrow>
         guard (\<not> target_epoch \<le> es_epoch_id e)
           (EpochValidationFailed ''Cutover target epoch must be greater than current epoch'')
     | Deprecated _ successor_epoch \<Rightarrow>
         guard (\<not> successor_epoch \<le> es_epoch_id e)
           (EpochValidationFailed ''Successor epoch must be greater than current epoch'')
     | _ \<Rightarrow> Ok ()))))"

definition epoch_hash_input :: "epoch_env \<Rightarrow> epoch_state \<Rightarrow> bytes" where
  "epoch_hash_input ev e =
     to_le_bytes (es_epoch_id e) @
     (if is_deleted_status (es_status e) then [] else es_key e) @
     concat (map (\<lambda>member_id.
       case map_of (es_members e) member_id of
         Some m \<Rightarrow> member_id @ mb_public_key m @ unwrap_or_default (ev_member_status_json ev (mb_status m))
       | None \<Rightarrow> []) (sort (map fst (es_members e)))) @
     unwrap_or_default (ev_status_json ev (es_status e))"

definition epoch_compute_hash :: "epoch_env \<Rightarrow> epoch_state \<Rightarrow> bytes" where
  "epoch_compute_hash ev e = ev_sha ev (epoch_hash_input ev e)"

subsection \<open>Access and queries\<close>

fun can_read :: "epoch_status \<Rightarrow> bool" where
  "can_read (Active _) = True"
| "can_read (Migrating _ _) = True"
| "can_read (PendingCutover _ _) = True"
| "can_read (Deprecated _ _) = True"
| "can_read (Initializing _) = False"
| "can_read (Deleted _) = False"

fun can_write :: "epoch_status \<Rightarrow> bool" where
  "can_write (Active _) = True"
| "can_write _ = False"

fun lifecycle_phase_of :: "epoch_status \<Rightarrow> lifecycle_phase" where
  "lifecycle_phase_of (Initializing _) = PhCreation"
| "lifecycle_phase_of (Active _) = PhActive"
| "lifecycle_phase_of (Migrating _ _) = PhMigration"
| "lifecycle_phase_of (PendingCutover _ _) = PhMigration"
| "lifecycle_phase_of (Deprecated _ _) = PhDeletion"
| "lifecycle_phase_of (Deleted _) = PhDeletion"

definition filter_members_by_status :: "epoch_state \<Rightarrow> member_status \<Rightarrow> member list" where
  "filter_members_by_status e status = filter (\<lambda>m. mb_status m = status) (map snd (es_members e))"

definition get_members_with_capability :: "epoch_state \<Rightarrow> member_capability \<Rightarrow> member list" where
  "get_members_with_capability e capability = filter (\<lambda>m. has_capability m capability) (map snd (es_members e))"

definition age_seconds :: "instant \<Rightarrow> epoch_state \<Rightarrow> int" where
  "age_seconds now e = num_seconds (now - es_created_at e)"

definition is_stale :: "instant \<Rightarrow> epoch_state \<Rightarrow> int \<Rightarrow> bool" where
  "is_stale now e threshold_seconds \<longleftrightarrow> threshold_seconds < age_seconds now e"

definition matches_lifecycle_phase :: "epoch_state \<Rightarrow> lifecycle_phase \<Rightarrow> bool" where
  "matches_lifecycle_phase e phase \<longleftrightarrow> lifecycle_phase_of (es_status e) = phase"

fun status_discriminant :: "epoch_status \<Rightarrow> nat" where
  "status_discriminant (Initializing _) = 0"
| "status_discriminant (Active _) = 1"
| "status_discriminant (Migrating _ _) = 2"
| "status_discriminant (PendingCutover _ _) = 3"
| "status_discriminant (Deprecated _ _) = 4"
| "status_discriminant (Deleted _) = 5"

definition matches_status :: "epoch_state \<Rightarrow> epoch_status \<Rightarrow> bool" where
  "matches_status e status \<longleftrightarrow> status_discriminant (es_status e) = status_discriminant status"

fun is_transition_status :: "epoch_status \<Rightarrow> bool" where
  "is_transition_status (Migrating _ _) = True"
| "is_transition_status (PendingCutover _ _) = True"
| "is_transition_status _ = False"

definition is_in_transition :: "epoch_state \<Rightarrow> bool" where
  "is_in_transition e = is_transition_status (es_status e)"

definition migration_progress :: "epoch_state \<Rightarrow> rat" where
  "migration_progress e =
     (if \<not> is_migrating e then (if epoch_is_active e then 0 else 1)
      else if length (es_members e) = 0 then 1
      else f64_ratio (length (filter (\<lambda>m. mb_status m = MActive) (map snd (es_members e)))) (length (es_members e)))"

fun is_pending_member :: "member_status \<Rightarrow> bool" where
  "is_pending_member (MPendingMigration _ _) = True"
| "is_pending_member _ = False"

fun is_removed_member :: "member_status \<Rightarrow> bool" where
  "is_removed_member (MRemoved _ _) = True"
| "is_removed_member _ = False"

definition get_pending_migration_members :: "epoch_state \<Rightarrow> member list" where
  "get_pending_migration_members e = filter (\<lambda>m. is_pending_member (mb_status m)) (map snd (es_members e))"

definition all_members_migrated :: "epoch_state \<Rightarrow> bool" where
  "all_members_migrated e =
     list_all (\<lambda>m. mb_status m = MActive \<or> is_removed_member (mb_status m)) (map snd (es_members e))"

definition get_admins :: "epoch_state \<Rightarrow> member list" where
  "get_admins e = filter member_is_active (get_members_with_capability e CapAdmin)"

definition can_member_join :: "epoch_state \<Rightarrow> bytes \<Rightarrow> bool" where
  "can_member_join e member_id =
     (case es_status e of Initializing _ \<Rightarrow> True | Active _ \<Rightarrow> True | _ \<Rightarrow> False)"

text \<open>The outer \<open>None\<close> is a panic of the chrono arithmetic.\<close>

definition estimate_migration_completion ::
  "epoch_env \<Rightarrow> instant \<Rightarrow> instant \<Rightarrow> epoch_state \<Rightarrow> instant option option" where
  "estimate_migration_completion ev now1 now2 e =
     (case es_status e of
        Migrating _ started_at \<Rightarrow>
          (let progress = migration_progress e in
           if 0 < progress \<and> progress < 1 then
             (let elapsed = f64 (of_int (num_seconds (now1 - started_at)));
                  estimated_total = f64_div elapsed progress;
                  remaining = clamp (- (2 ^ 63)) (2 ^ 63 - 1) (trunc_f64 (f64_sub estimated_total elapsed))
              in case ev_duration_seconds ev remaining of
                   None \<Rightarrow> None
                 | Some d \<Rightarrow> map_option Some (ev_instant_add ev now2 d))
           else Some None)
      | _ \<Rightarrow> Some None)"

record epoch_summary =
  sm_epoch_id :: u64
  sm_status :: epoch_status
  sm_lifecycle_phase :: lifecycle_phase
  sm_total_members :: nat
  sm_active_members :: nat
  sm_pending_migration_members :: nat
  sm_file_count :: u64
  sm_created_at :: instant
  sm_updated_at :: instant
  sm_age_seconds :: int
  sm_migration_progress :: "rat option"
  sm_estimated_completion :: "instant option"
  sm_can_read :: bool
  sm_can_write :: bool

definition epoch_summary_of ::
  "epoch_env \<Rightarrow> instant \<Rightarrow> instant \<Rightarrow> instant \<Rightarrow> epoch_state \<Rightarrow> epoch_summary option" where
  "epoch_summary_of ev now1 now2 now3 e =
     map_option (\<lambda>estimated_completion.
       \<lparr>sm_epoch_id = es_epoch_id e, sm_status = es_status e,
        sm_lifecycle_phase = lifecycle_phase_of (es_status e),
        sm_total_members = length (es_members e), sm_active_members = active_member_count e,
        sm_pending_migration_members = length (get_pending_migration_members e),
        sm_file_count = es_file_count e, sm_created_at = es_created_at e, sm_updated_at = es_updated_at e,
        sm_age_seconds = age_seconds now1 e,
        sm_migration_progress = (if is_migrating e then Some (migration_progress e) else None),
        sm_estimated_completion = estimated_completion,
        sm_can_read = can_read (es_status e), sm_can_write = can_write (es_status e)\<rparr>)
       (estimate_migration_completion ev now2 now3 e)"

record epoch_query =
  eq_phases :: "lifecycle_phase set option"
  eq_min_age_seconds :: "int option"
  eq_max_age_seconds :: "int option"
  eq_member_count_range :: "(nat \<times> nat) option"
  eq_required_capabilities :: "member_capability set option"
  eq_readable :: "bool option"
  eq_writable :: "bool option"

definition query_new :: epoch_query where
  "query_new =
     \<lparr>eq_phases = None, eq_min_age_seconds = None, eq_max_age_seconds = None, eq_member_count_range = None,
      eq_required_capabilities = None, eq_readable = None, eq_writable = None\<rparr>"

definition with_phases :: "epoch_query \<Rightarrow> lifecycle_phase set \<Rightarrow> epoch_query" where
  "with_phases q phases = q\<lparr>eq_phases := Some phases\<rparr>"

definition with_age_range :: "epoch_query \<Rightarrow> int option \<Rightarrow> int option \<Rightarrow> epoch_query" where
  "with_age_range q min_seconds max_seconds =
     q\<lparr>eq_min_age_seconds := min_seconds, eq_max_age_seconds := max_seconds\<rparr>"

definition with_member_count_range :: "epoch_query \<Rightarrow> nat \<Rightarrow> nat \<Rightarrow> epoch_query" where
  "with_member_count_range q lo hi = q\<lparr>eq_member_count_range := Some (lo, hi)\<rparr>"

definition with_access :: "epoch_query \<Rightarrow> bool option \<Rightarrow> bool option \<Rightarrow> epoch_query" where
  "with_access q readable writable = q\<lparr>eq_readable := readable, eq_writable := writable\<rparr>"

definition query_matches :: "instant \<Rightarrow> epoch_query \<Rightarrow> epoch_state \<Rightarrow> bool" where
  "query_matches now q e =
     (if (case eq_phases q of Some phases \<Rightarrow> lifecycle_phase_of (es_status e) \<notin> phases | None \<Rightarrow> False) then False
      else
        let age = age_seconds now e in
        if (case eq_min_age_seconds q of Some min_age \<Rightarrow> age < min_age | None \<Rightarrow> False) then False
        else if (case eq_max_age_seconds q of Some max_age \<Rightarrow> max_age < age | None \<Rightarrow> False) then False
        else if (case eq_member_count_range q of
                   Some (min_count, max_count) \<Rightarrow>
                     (let count = length (es_members e) in count < min_count \<or> max_count < count)
                 | None \<Rightarrow> False) then False
        else if (case eq_readable q of Some readable \<Rightarrow> can_read (es_status e) \<noteq> readable | None \<Rightarrow> False) then False
        else if (case eq_writable q of Some writable \<Rightarrow> can_write (es_status e) \<noteq> writable | None \<Rightarrow> False) then False
        else True)"

subsection \<open>The versioned container\<close>

record serialization_metadata =
  sd_min_supported_version :: nat
  sd_features :: "string set"
  sd_checksum :: bytes

record versioned_epoch_state =
  vs_version :: nat
  vs_epoch :: epoch_state
  vs_serialized_at :: instant
  vs_metadata :: serialization_metadata

abbreviation (input) CURRENT_VERSION :: nat where
  "CURRENT_VERSION \<equiv> 1"

abbreviation (input) MIN_SUPPORTED_VERSION :: nat where
  "MIN_SUPPORTED_VERSION \<equiv> 1"

definition status_features :: "epoch_status \<Rightarrow> string set" where
  "status_features status =
     (case status of
        Migrating _ _ \<Rightarrow> {''migration''}
      | PendingCutover _ _ \<Rightarrow> {''cutover''}
      | Deprecated _ _ \<Rightarrow> {''deprecation''}
      | Deleted _ \<Rightarrow> {''deletion''}
      | _ \<Rightarrow> {})"

definition member_features :: "member \<Rightarrow> string set" where
  "member_features m =
     (case mb_status m of
        MPendingMigration _ _ \<Rightarrow> {''member_migration''}
      | MRemoved _ _ \<Rightarrow> {''member_removal''}
      | _ \<Rightarrow> {}) \<union>
     (if can_admin_cap (mb_capabilities m) then {''admin_capabilities''} else {})"

definition detect_features :: "epoch_state \<Rightarrow> string set" where
  "detect_features e =
     foldl (\<lambda>features m. features \<union> member_features m) (status_features (es_status e)) (map snd (es_members e)) \<union>
     (if em_tags (es_metadata e) \<noteq> [] then {''metadata_tags''} else {}) \<union>
     (if em_notes (es_metadata e) \<noteq> [] then {''metadata_notes''} else {})"

definition versioned_new :: "epoch_env \<Rightarrow> instant \<Rightarrow> epoch_state \<Rightarrow> (versioned_epoch_state, epoch_error) result" where
  "versioned_new ev now e =
     Ok \<lparr>vs_version = CURRENT_VERSION, vs_epoch = e, vs_serialized_at = now,
         vs_metadata = \<lparr>sd_min_supported_version = MIN_SUPPORTED_VERSION, sd_features = detect_features e,
                        sd_checksum = epoch_compute_hash ev e\<rparr>\<rparr>"

definition versioned_validate :: "epoch_env \<Rightarrow> instant \<Rightarrow> versioned_epoch_state \<Rightarrow> (unit, epoch_error) result" where
  "versioned_validate ev now v =
     rbind (guard (\<not> vs_version v < MIN_SUPPORTED_VERSION)
             (EpochSerialization (''Unsupported version: '' @ dec_nat (vs_version v)))) (\<lambda>_.
     rbind (guard (epoch_compute_hash ev (vs_epoch v) = sd_checksum (vs_metadata v))
             (EpochSerialization ''Checksum mismatch - data may be corrupted'')) (\<lambda>_.
     rbind (epoch_validate now (vs_epoch v)) (\<lambda>_. Ok ())))"

text \<open>
  The CBOR (\<open>ciborium\<close>) and JSON (\<open>serde_json\<close>) codecs are third-party. The members of an epoch are a map whose
  keys are byte vectors, which JSON does not have: the JSON writer returns an error for an epoch with members.
\<close>

record epoch_codec =
  ciborium_into_writer :: "versioned_epoch_state \<Rightarrow> (bytes, string) result"
  ciborium_from_reader :: "bytes \<Rightarrow> (versioned_epoch_state, string) result"
  serde_json_to_string_pretty :: "versioned_epoch_state \<Rightarrow> (string, string) result"
  serde_json_from_str :: "string \<Rightarrow> (versioned_epoch_state, string) result"

definition to_cbor :: "epoch_codec \<Rightarrow> versioned_epoch_state \<Rightarrow> (bytes, epoch_error) result" where
  "to_cbor cd v =
     map_err (\<lambda>e. EpochSerialization (''CBOR serialization failed: '' @ e)) (ciborium_into_writer cd v)"

definition from_cbor :: "epoch_codec \<Rightarrow> epoch_env \<Rightarrow> instant \<Rightarrow> bytes \<Rightarrow> (versioned_epoch_state, epoch_error) result" where
  "from_cbor cd ev now data =
     rbind (map_err (\<lambda>e. EpochSerialization (''CBOR deserialization failed: '' @ e)) (ciborium_from_reader cd data)) (\<lambda>v.
     rbind (versioned_validate ev now v) (\<lambda>_. Ok v))"

definition to_json :: "epoch_codec \<Rightarrow> versioned_epoch_state \<Rightarrow> (string, epoch_error) result" where
  "to_json cd v =
     map_err (\<lambda>e. EpochSerialization (''JSON serialization failed: '' @ e)) (serde_json_to_string_pretty cd v)"

definition from_json :: "epoch_codec \<Rightarrow> epoch_env \<Rightarrow> instant \<Rightarrow> string \<Rightarrow> (versioned_epoch_state, epoch_error) result" where
  "from_json cd ev now json =
     rbind (map_err (\<lambda>e. EpochSerialization (''JSON deserialization failed: '' @ e)) (serde_json_from_str cd json)) (\<lambda>v.
     rbind (versioned_validate ev now v) (\<lambda>_. Ok v))"

definition migrate_if_needed :: "epoch_env \<Rightarrow> instant \<Rightarrow> versioned_epoch_state \<Rightarrow> (versioned_epoch_state, epoch_error) result" where
  "migrate_if_needed ev now v =
     Ok (if vs_version v < CURRENT_VERSION
         then v\<lparr>vs_version := CURRENT_VERSION, vs_serialized_at := now,
                vs_metadata := \<lparr>sd_min_supported_version = MIN_SUPPORTED_VERSION,
                                sd_features = detect_features (vs_epoch v),
                                sd_checksum = epoch_compute_hash ev (vs_epoch v)\<rparr>\<rparr>
         else v)"

definition into_epoch :: "versioned_epoch_state \<Rightarrow> epoch_state" where
  "into_epoch v = vs_epoch v"

definition default_serialization_metadata :: serialization_metadata where
  "default_serialization_metadata =
     \<lparr>sd_min_supported_version = MIN_SUPPORTED_VERSION, sd_features = {}, sd_checksum = replicate 32 0\<rparr>"

declare epoch_new_def [epoch_defs] add_member_def [epoch_defs] remove_member_def [epoch_defs]
  epoch_update_status_def [epoch_defs] activate_def [epoch_defs] start_migration_def [epoch_defs]
  initiate_cutover_def [epoch_defs] deprecate_def [epoch_defs] epoch_delete_def [epoch_defs]

subsection \<open>Runs of operations\<close>

text \<open>
  A call of the public interface with its clock readings, and its effect. \<open>guarded\<close> excludes
  \<open>update_status\<close>, which overwrites the status with whatever it is given.
\<close>

datatype epoch_op =
    OpAddMember instant member
  | OpRemoveMember instant instant bytes string
  | OpActivate instant instant
  | OpStartMigration instant instant u64
  | OpInitiateCutover instant instant u64
  | OpDeprecate instant instant u64
  | OpDelete instant instant
  | OpUpdateStatus instant epoch_status

fun exec_op :: "epoch_env \<Rightarrow> epoch_op \<Rightarrow> (epoch_state, unit, epoch_error) action" where
  "exec_op ev (OpAddMember t m) = add_member t m"
| "exec_op ev (OpRemoveMember t u i r) = remove_member t u i r"
| "exec_op ev (OpActivate t u) = activate ev t u"
| "exec_op ev (OpStartMigration t u n) = start_migration ev t u n"
| "exec_op ev (OpInitiateCutover t u n) = initiate_cutover ev t u n"
| "exec_op ev (OpDeprecate t u n) = deprecate ev t u n"
| "exec_op ev (OpDelete t u) = epoch_delete ev t u"
| "exec_op ev (OpUpdateStatus t st) = (\<lambda>e. (epoch_update_status t st e, Ok ()))"

fun guarded :: "epoch_op \<Rightarrow> bool" where
  "guarded (OpUpdateStatus _ _) = False"
| "guarded _ = True"

definition run_ops :: "epoch_env \<Rightarrow> epoch_op list \<Rightarrow> epoch_state \<Rightarrow> epoch_state" where
  "run_ops ev ops e = foldl (\<lambda>e op. fst (exec_op ev op e)) e ops"

inductive epoch_step :: "epoch_env \<Rightarrow> epoch_state \<Rightarrow> epoch_state \<Rightarrow> bool" for ev where
  "guarded op \<Longrightarrow> exec_op ev op e = (e', r) \<Longrightarrow> epoch_step ev e e'"

inductive_cases epoch_step_elim: "epoch_step ev e e'"

text \<open>\<open>lifecycle_op\<close>: the operations that move an epoch through its lifecycle.\<close>

fun lifecycle_op :: "epoch_op \<Rightarrow> bool" where
  "lifecycle_op (OpAddMember _ _) = False"
| "lifecycle_op (OpRemoveMember _ _ _ _) = False"
| "lifecycle_op (OpUpdateStatus _ _) = False"
| "lifecycle_op _ = True"

subsection \<open>The invariant\<close>

fun target_ok :: "u64 \<Rightarrow> epoch_status \<Rightarrow> bool" where
  "target_ok i (Migrating n _) = (i < n)"
| "target_ok i (PendingCutover n _) = (i < n)"
| "target_ok i (Deprecated _ n) = (i < n)"
| "target_ok i _ = True"

fun is_initializing :: "epoch_status \<Rightarrow> bool" where
  "is_initializing (Initializing _) = True"
| "is_initializing _ = False"

definition members_keyed :: "(bytes \<times> member) list \<Rightarrow> bool" where
  "members_keyed ms \<longleftrightarrow> distinct (map fst ms) \<and> list_all (\<lambda>(i, m). mb_id m = i) ms"

definition epoch_inv :: "u64 \<Rightarrow> bytes \<Rightarrow> instant \<Rightarrow> epoch_state \<Rightarrow> bool" where
  "epoch_inv i key created e \<longleftrightarrow>
     es_epoch_id e = i \<and> es_created_at e = created \<and>
     es_key e = (if is_deleted_status (es_status e) then ZERO_KEY else key) \<and>
     target_ok i (es_status e) \<and>
     (is_initializing (es_status e) \<or> es_members e \<noteq> []) \<and>
     members_keyed (es_members e)"

lemma set_update_alist: "distinct (map fst xs) \<Longrightarrow> set (AList.update k v xs) = insert (k, v) {p \<in> set xs. fst p \<noteq> k}"
  by (induction xs) (auto simp: rev_image_eqI image_iff)

lemma members_keyed_update: "members_keyed ms \<Longrightarrow> mb_id m = i \<Longrightarrow> members_keyed (AList.update i m ms)"
  by (auto simp: members_keyed_def distinct_update set_update_alist list_all_iff)

lemma members_keyed_map_of: "members_keyed ms \<Longrightarrow> map_of ms i = Some m \<Longrightarrow> mb_id m = i"
  by (auto simp: members_keyed_def list_all_iff dest: map_of_SomeD)

lemma members_keyed_set_status:
  assumes "members_keyed ms" "map_of ms i = Some m"
  shows "members_keyed (AList.update i (m\<lparr>mb_status := st\<rparr>) ms)"
  by (rule members_keyed_update [OF assms(1)]) (simp add: members_keyed_map_of [OF assms])

lemma update_not_Nil [simp]: "AList.update i m ms \<noteq> []"
  by (cases ms) auto

text \<open>What a lifecycle operation changes: on success the next status, on failure nothing.\<close>

lemma lifecycle_op_result:
  assumes "lifecycle_op op" "exec_op ev op e = (e', r)"
  shows "(\<exists>x. r = Err x) \<and> e' = e \<or>
    r = Ok () \<and> status_discriminant (es_status e') = Suc (status_discriminant (es_status e)) \<and>
    es_members e' = es_members e \<and> es_epoch_id e' = es_epoch_id e \<and> es_created_at e' = es_created_at e"
  using assms by (cases op) (auto simp: epoch_defs split: epoch_status.splits if_splits)

lemma failed_op_unchanged: "exec_op ev op e = (e', Err x) \<Longrightarrow> e' = e"
  using lifecycle_op_result [of op ev e e' "Err x"]
  by (cases "lifecycle_op op"; cases op) (auto simp: epoch_defs split: option.splits if_splits)

lemma epoch_inv_new: "epoch_inv i key now (epoch_new now i key)"
  by (simp add: epoch_inv_def epoch_new_def members_keyed_def)

lemma epoch_inv_lifecycle:
  assumes "epoch_inv i key created e" "lifecycle_op op" "exec_op ev op e = (e', r)"
  shows "epoch_inv i key created e'"
  using assms by (cases op) (auto simp: epoch_inv_def epoch_defs split: epoch_status.splits if_splits)

lemma epoch_inv_members:
  assumes "epoch_inv i key created e" "guarded op" "\<not> lifecycle_op op" "exec_op ev op e = (e', r)"
  shows "epoch_inv i key created e'"
  using assms
  by (cases op) (auto simp: epoch_inv_def epoch_defs split: option.splits
      intro: members_keyed_update members_keyed_set_status)

lemma epoch_inv_step: "epoch_inv i key created e \<Longrightarrow> epoch_step ev e e' \<Longrightarrow> epoch_inv i key created e'"
  by (elim epoch_step_elim) (metis epoch_inv_lifecycle epoch_inv_members)

interpretation epoch: invariant_system "\<lambda>e. e = epoch_new now i key" "epoch_step ev" "epoch_inv i key now"
  for now i key ev
  by unfold_locales (auto simp: epoch_inv_new intro: epoch_inv_step)

lemma run_ops_Nil [simp]: "run_ops ev [] e = e"
  and run_ops_Cons [simp]: "run_ops ev (op # ops) e = run_ops ev ops (fst (exec_op ev op e))"
  and run_ops_append [simp]: "run_ops ev (ops @ ops') e = run_ops ev ops' (run_ops ev ops e)"
  by (simp_all add: run_ops_def)

lemma run_ops_steps: "list_all guarded ops \<Longrightarrow> (epoch_step ev)\<^sup>*\<^sup>* e (run_ops ev ops e)"
proof (induction ops arbitrary: e)
  case (Cons op ops)
  then have "epoch_step ev e (fst (exec_op ev op e))"
    by (auto intro: epoch_step.intros [of op, OF _ surjective_pairing])
  with Cons show ?case by (auto intro: converse_rtranclp_into_rtranclp)
qed simp

lemma run_ops_inv: "epoch_inv i key now e \<Longrightarrow> list_all guarded ops \<Longrightarrow> epoch_inv i key now (run_ops ev ops e)"
  by (rule epoch.invar_steps [OF run_ops_steps])

subsection \<open>Deletion can always be reached\<close>

text \<open>One more operation that advances an epoch whose identifier is not the largest one.\<close>

fun next_op :: "epoch_state \<Rightarrow> epoch_op" where
  "next_op e =
     (case es_status e of
        Initializing t \<Rightarrow> OpActivate t t
      | Active t \<Rightarrow> OpStartMigration t t (es_epoch_id e + 1)
      | Migrating n t \<Rightarrow> OpInitiateCutover t t n
      | PendingCutover n t \<Rightarrow> OpDeprecate t t n
      | Deprecated t n \<Rightarrow> OpDelete t t
      | Deleted t \<Rightarrow> OpDelete t t)"

declare next_op.simps [simp del]

lemma word_less_plus_1: "i \<noteq> - 1 \<Longrightarrow> i < (i + 1 :: u64)"
  using inc_less_eq_triv_imp [of i] not_le by blast

lemma next_op_advances:
  assumes "epoch_inv i key now e" "i \<noteq> - 1" "es_members e \<noteq> []" "\<not> is_deleted_status (es_status e)"
  shows "guarded (next_op e) \<and> snd (exec_op ev (next_op e) e) = Ok () \<and>
    status_discriminant (es_status (fst (exec_op ev (next_op e) e))) = Suc (status_discriminant (es_status e)) \<and>
    es_members (fst (exec_op ev (next_op e) e)) = es_members e"
  using assms word_less_plus_1 [of i]
  by (auto simp: next_op.simps epoch_defs epoch_inv_def split: epoch_status.splits)

lemma deleted_discriminant: "is_deleted_status st \<longleftrightarrow> status_discriminant st = 5"
  by (cases st) auto

lemma discriminant_le: "status_discriminant st \<le> 5"
  by (cases st) auto

lemma deletion_reachable:
  assumes "epoch_inv i key now e" "i \<noteq> - 1" "es_members e \<noteq> []"
  shows "\<exists>ops. list_all guarded ops \<and> length ops \<le> 5 - status_discriminant (es_status e) \<and>
    is_deleted_status (es_status (run_ops ev ops e))"
  using assms
proof (induction "5 - status_discriminant (es_status e)" arbitrary: e)
  case 0
  then have "is_deleted_status (es_status e)"
    using discriminant_le [of "es_status e"] by (simp add: deleted_discriminant)
  then show ?case by (intro exI [of _ "[]"]) simp
next
  case (Suc n)
  then have nd: "\<not> is_deleted_status (es_status e)" by (simp add: deleted_discriminant)
  let ?e = "fst (exec_op ev (next_op e) e)"
  note adv = next_op_advances [OF Suc.prems nd, of ev]
  have "epoch_inv i key now ?e"
    using run_ops_inv [OF Suc.prems(1), of "[next_op e]" ev] adv by simp
  moreover have "n = 5 - status_discriminant (es_status ?e)" "es_members ?e \<noteq> []"
    using adv Suc(2) Suc.prems by simp_all
  ultimately obtain ops where
    "list_all guarded ops" "length ops \<le> 5 - status_discriminant (es_status ?e)"
    "is_deleted_status (es_status (run_ops ev ops ?e))"
    using Suc(1) [of ?e] Suc.prems(2) by blast
  with adv Suc(2) show ?case by (intro exI [of _ "next_op e # ops"]) auto
qed

subsection \<open>Validation\<close>

lemma epoch_validate_Ok_iff:
  "epoch_validate now e = Ok u \<longleftrightarrow>
     es_epoch_id e \<noteq> 0 \<and> (is_deleted_status (es_status e) \<or> es_key e \<noteq> ZERO_KEY) \<and>
     es_created_at e \<le> es_updated_at e \<and> (\<forall>m \<in> snd ` set (es_members e). member_validate now m = Ok ()) \<and>
     target_ok (es_epoch_id e) (es_status e)"
  by (cases "es_status e") (auto simp: epoch_validate_def result_simps not_less not_le)

lemma for_each_Err: "for_each f xs = Err x \<Longrightarrow> \<exists>y \<in> set xs. f y = Err x"
  by (induction xs) (auto simp: result_simps)

lemma guard_Err_iff: "guard c x = Err y \<longleftrightarrow> \<not> c \<and> x = y"
  by (simp add: guard_def)

lemma member_validate_error: "member_validate now m = Err x \<Longrightarrow> \<exists>msg. x = EpochValidationFailed msg"
  by (cases "mb_status m") (auto simp: member_validate_def result_simps guard_Err_iff)

lemma epoch_validate_error: "epoch_validate now e = Err x \<Longrightarrow> \<exists>msg. x = EpochValidationFailed msg"
  by (cases "es_status e")
    (auto simp: epoch_validate_def result_simps guard_Err_iff dest!: for_each_Err member_validate_error)

lemma member_validate_Ok_iff:
  "member_validate now m = Ok u \<longleftrightarrow>
     mb_id m \<noteq> [] \<and> length (mb_public_key m) = 32 \<and> mb_joined_at m \<le> mb_updated_at m \<and>
     (case mb_status m of MActive \<Rightarrow> True | MPendingMigration n t \<Rightarrow> n \<noteq> 0 \<and> t \<le> now
      | MRemoved t reason \<Rightarrow> reason \<noteq> [] \<and> t \<le> now)"
  by (cases "mb_status m") (auto simp: member_validate_def result_simps not_less)

lemma set_update_subset: "set (AList.update k v xs) \<subseteq> insert (k, v) (set xs)"
  by (induction xs) auto

text \<open>
  Calls that keep an epoch valid: clock readings not before the creation of the epoch and not after
  the validation, valid new members, and a removal reason.
\<close>

fun op_ok :: "instant \<Rightarrow> instant \<Rightarrow> epoch_op \<Rightarrow> bool" where
  "op_ok created now (OpAddMember t m) \<longleftrightarrow> created \<le> t \<and> member_validate now m = Ok ()"
| "op_ok created now (OpRemoveMember t u _ reason) \<longleftrightarrow> created \<le> u \<and> t \<le> now \<and> reason \<noteq> []"
| "op_ok created now (OpActivate _ u) \<longleftrightarrow> created \<le> u"
| "op_ok created now (OpStartMigration _ u _) \<longleftrightarrow> created \<le> u"
| "op_ok created now (OpInitiateCutover _ u _) \<longleftrightarrow> created \<le> u"
| "op_ok created now (OpDeprecate _ u _) \<longleftrightarrow> created \<le> u"
| "op_ok created now (OpDelete _ u) \<longleftrightarrow> created \<le> u"
| "op_ok created now (OpUpdateStatus _ _) \<longleftrightarrow> False"

lemma op_keeps_valid_lifecycle:
  assumes "epoch_validate now e = Ok ()" "op_ok (es_created_at e) now op" "lifecycle_op op"
  shows "epoch_validate now (fst (exec_op ev op e)) = Ok ()"
  using assms
  by (cases op) (auto simp: epoch_validate_Ok_iff epoch_defs not_le split: epoch_status.splits)

lemma validate_update_member:
  assumes "epoch_validate now e = Ok ()" "member_validate now m = Ok ()" "es_created_at e \<le> t"
  shows "epoch_validate now (e\<lparr>es_members := AList.update i m (es_members e), es_updated_at := t\<rparr>) = Ok ()"
  using assms set_update_subset [of i m "es_members e"]
  by (auto simp: epoch_validate_Ok_iff)

lemma removed_member_valid:
  assumes "epoch_validate now e = Ok ()" "map_of (es_members e) i = Some m" "t \<le> now" "reason \<noteq> []"
  shows "member_validate now (m\<lparr>mb_status := MRemoved t reason\<rparr>) = Ok ()"
proof -
  have "m \<in> snd ` set (es_members e)"
    using map_of_SomeD [OF assms(2)] by force
  then have "member_validate now m = Ok ()"
    using assms(1) by (auto simp: epoch_validate_Ok_iff)
  with assms(3,4) show ?thesis
    by (auto simp: member_validate_Ok_iff)
qed

lemma op_keeps_valid:
  assumes "epoch_validate now e = Ok ()" "op_ok (es_created_at e) now op"
  shows "epoch_validate now (fst (exec_op ev op e)) = Ok ()"
proof (cases "lifecycle_op op")
  case True
  with assms show ?thesis by (blast intro: op_keeps_valid_lifecycle)
next
  case False
  then consider (add) t m where "op = OpAddMember t m" | (remove) t u i reason where "op = OpRemoveMember t u i reason"
    using assms(2) by (cases op) auto
  then show ?thesis
  proof cases
    case add
    with assms show ?thesis by (simp add: add_member_def validate_update_member)
  next
    case remove
    with assms removed_member_valid [OF assms(1), of i _ t reason] show ?thesis
      by (simp add: remove_member_def validate_update_member split: option.split)
  qed
qed

lemma exec_op_created: "es_created_at (fst (exec_op ev op e)) = es_created_at e"
  by (cases op) (auto simp: epoch_defs split: epoch_status.splits option.splits)

lemma run_ops_valid:
  "epoch_validate now e = Ok () \<Longrightarrow> list_all (op_ok (es_created_at e) now) ops \<Longrightarrow> epoch_validate now (run_ops ev ops e) = Ok ()"
  by (induction ops arbitrary: e) (auto simp: op_keeps_valid exec_op_created)

subsection \<open>Checksums\<close>

lemma hash_input_prefix:
  assumes "epoch_hash_input ev e = epoch_hash_input ev e'" "length (es_key e) = 32" "length (es_key e') = 32"
    "\<not> is_deleted_status (es_status e)" "\<not> is_deleted_status (es_status e')"
  shows "es_epoch_id e = es_epoch_id e' \<and> es_key e = es_key e'"
proof -
  have "take 40 (epoch_hash_input ev x) = to_le_bytes (es_epoch_id x) @ es_key x"
    if "length (es_key x) = 32" "\<not> is_deleted_status (es_status x)" for x
    using that by (simp add: epoch_hash_input_def)
  with assms have "to_le_bytes (es_epoch_id e) @ es_key e = to_le_bytes (es_epoch_id e') @ es_key e'"
    by metis
  then show ?thesis by (simp add: to_le_bytes_inj)
qed

text \<open>The input of the checksum sees of a member only its identifier, key and status.\<close>

lemma hash_input_cong:
  assumes "map fst ms = map fst (es_members e)"
    "\<And>i. map_option (\<lambda>m. (mb_public_key m, mb_status m)) (map_of ms i) =
      map_option (\<lambda>m. (mb_public_key m, mb_status m)) (map_of (es_members e) i)"
  shows "epoch_hash_input ev (e\<lparr>es_members := ms\<rparr>) = epoch_hash_input ev e"
proof -
  have "(case map_of ms i of Some m \<Rightarrow> i @ mb_public_key m @ unwrap_or_default (ev_member_status_json ev (mb_status m)) | None \<Rightarrow> []) =
    (case map_of (es_members e) i of Some m \<Rightarrow> i @ mb_public_key m @ unwrap_or_default (ev_member_status_json ev (mb_status m)) | None \<Rightarrow> [])"
    for i using assms(2) [of i] by (auto split: option.splits)
  with assms(1) show ?thesis by (simp add: epoch_hash_input_def)
qed

lemma map_fst_update: "i \<in> fst ` set ms \<Longrightarrow> map fst (AList.update i m ms) = map fst ms"
  by (induction ms) auto

lemma hash_input_capabilities:
  assumes "map_of (es_members e) i = Some m"
  shows "epoch_hash_input ev (e\<lparr>es_members := AList.update i (m\<lparr>mb_capabilities := c\<rparr>) (es_members e)\<rparr>) = epoch_hash_input ev e"
proof (rule hash_input_cong)
  have "i \<in> fst ` set (es_members e)" using map_of_SomeD [OF assms] by force
  then show "map fst (AList.update i (m\<lparr>mb_capabilities := c\<rparr>) (es_members e)) = map fst (es_members e)"
    by (rule map_fst_update)
qed (use assms in \<open>auto simp: update_conv'\<close>)

lemma versioned_validate_Ok_iff:
  "versioned_validate ev now v = Ok u \<longleftrightarrow>
     MIN_SUPPORTED_VERSION \<le> vs_version v \<and> epoch_compute_hash ev (vs_epoch v) = sd_checksum (vs_metadata v) \<and>
     epoch_validate now (vs_epoch v) = Ok ()"
  by (auto simp: versioned_validate_def result_simps)

subsection \<open>Properties\<close>

text \<open>
  C13. In every state that a new epoch reaches through the guarded operations, the identifier and the
  creation time are those of the start, the encryption key is the original one until deletion and all
  zeros after it, a migration, cutover or successor target is a later epoch, an epoch that has left
  initialisation has members, and members are stored once under their own identifier.
\<close>

theorem epoch_reachable_invariant:
  assumes "(epoch_step ev)\<^sup>*\<^sup>* (epoch_new now i key) e"
  shows "es_epoch_id e = i \<and> es_created_at e = now \<and>
    es_key e = (if is_deleted_status (es_status e) then ZERO_KEY else key) \<and>
    target_ok i (es_status e) \<and> (is_initializing (es_status e) \<or> es_members e \<noteq> []) \<and>
    members_keyed (es_members e)"
  using epoch.invar_reachable [OF refl assms] by (simp add: epoch_inv_def)

text \<open>
  C20. The lifecycle operations only move forward: any operation that fails leaves the epoch unchanged, a
  lifecycle operation that succeeds moves the epoch exactly one status ahead, and after any run of
  operations other than \<open>update_status\<close>, which sets whatever status it is given, the status is not an earlier
  one and not more steps ahead than operations were run.
\<close>

theorem epoch_lifecycle_forward:
  assumes "list_all guarded ops"
  shows "status_discriminant (es_status e) \<le> status_discriminant (es_status (run_ops ev ops e)) \<and>
    status_discriminant (es_status (run_ops ev ops e)) \<le> status_discriminant (es_status e) + length ops \<and>
    (\<forall>op e' r. lifecycle_op op \<longrightarrow> exec_op ev op e = (e', r) \<longrightarrow>
       (if is_ok r then status_discriminant (es_status e') = Suc (status_discriminant (es_status e)) else e' = e)) \<and>
    (\<forall>op e' x. exec_op ev op e = (e', Err x) \<longrightarrow> e' = e)"
proof -
  have one: "status_discriminant (es_status e) \<le> status_discriminant (es_status (fst (exec_op ev op e))) \<and>
      status_discriminant (es_status (fst (exec_op ev op e))) \<le> Suc (status_discriminant (es_status e))"
    if "guarded op" for op e
  proof (cases "lifecycle_op op")
    case True
    from lifecycle_op_result [OF this, of ev e] show ?thesis by (metis eq_imp_le le_SucI prod.collapse)
  next
    case False
    with that show ?thesis by (cases op) (auto simp: epoch_defs split: option.split)
  qed
  have "status_discriminant (es_status e) \<le> status_discriminant (es_status (run_ops ev ops e)) \<and>
    status_discriminant (es_status (run_ops ev ops e)) \<le> status_discriminant (es_status e) + length ops"
    using assms
  proof (induction ops arbitrary: e)
    case (Cons op ops)
    then have "guarded op" "list_all guarded ops" by simp_all
    from one [OF this(1), of e] Cons.IH [OF this(2), of "fst (exec_op ev op e)"]
    show ?case by (simp only: run_ops_Cons list.size) linarith
  qed simp
  moreover have "if is_ok r then status_discriminant (es_status e') = Suc (status_discriminant (es_status e)) else e' = e"
    if "lifecycle_op op" "exec_op ev op e = (e', r)" for op e' r
    using lifecycle_op_result [OF that] by auto
  moreover have "e' = e" if "exec_op ev op e = (e', Err x)" for op e' x
    by (rule failed_op_unchanged [OF that])
  ultimately show ?thesis by blast
qed

text \<open>
  C28. Deletion stays reachable: from every state that a new epoch reaches and in which it has a
  member, some run of at most five guarded operations ends in the deleted status with the key zeroed
  (for an identifier below the maximum, since a migration needs a later epoch).
\<close>

theorem epoch_deletion_reachable:
  assumes "(epoch_step ev)\<^sup>*\<^sup>* (epoch_new now i key) e" "es_members e \<noteq> []" "i \<noteq> - 1"
  shows "\<exists>ops. list_all guarded ops \<and> length ops \<le> 5 \<and>
    is_deleted_status (es_status (run_ops ev ops e)) \<and> es_key (run_ops ev ops e) = ZERO_KEY"
proof -
  have inv: "epoch_inv i key now e" by (rule epoch.invar_reachable [OF refl assms(1)])
  from deletion_reachable [OF inv assms(3,2), of ev] obtain ops where ops:
    "list_all guarded ops" "length ops \<le> 5" "is_deleted_status (es_status (run_ops ev ops e))"
    by fastforce
  moreover have "es_key (run_ops ev ops e) = ZERO_KEY"
    using run_ops_inv [OF inv ops(1), of ev] ops(3) by (simp add: epoch_inv_def)
  ultimately show ?thesis by blast
qed

text \<open>
  Validity is kept: a valid epoch is still valid after any run of the guarded operations with
  clock readings between its creation and the validation, valid new members and non-empty removal
  reasons, whether or not the operations succeed.
\<close>

theorem epoch_validate_preserved:
  assumes "epoch_validate now e = Ok ()" "list_all (op_ok (es_created_at e) now) ops"
  shows "epoch_validate now (run_ops ev ops e) = Ok ()"
  using assms by (rule run_ops_valid)

text \<open>
  \<open>EpochState::remove_member\<close> accepts an empty reason, unlike \<open>Member::remove\<close>, and the epoch is
  then rejected by its own validation, and so is its stored container when it is read back.
\<close>

theorem empty_removal_reason_rejected:
  assumes "epoch_validate now e = Ok ()" "map_of (es_members e) i = Some m" "es_created_at e \<le> u"
  shows "\<exists>e'. remove_member t u i [] e = (e', Ok ()) \<and>
    (\<exists>msg. epoch_validate now' e' = Err (EpochValidationFailed msg)) \<and>
    (\<forall>data v cd. ciborium_from_reader cd data = Ok v \<longrightarrow> vs_epoch v = e' \<longrightarrow> \<not> is_ok (from_cbor cd ev now' data))"
proof -
  let ?m = "m\<lparr>mb_status := MRemoved t []\<rparr>"
  let ?e = "e\<lparr>es_members := AList.update i ?m (es_members e), es_updated_at := u\<rparr>"
  have "?m \<in> snd ` set (es_members ?e)"
    using map_of_SomeD [of "es_members ?e" i ?m] by (force simp: update_conv')
  moreover have "\<not> is_ok (member_validate now' ?m)"
    by (auto simp: is_ok_iff member_validate_Ok_iff)
  ultimately have bad: "\<not> is_ok (epoch_validate now' ?e)"
    unfolding is_ok_iff epoch_validate_Ok_iff by (metis is_ok.simps(1))
  have err: "\<exists>msg. x = EpochValidationFailed msg" if "epoch_validate now' ?e = Err x" for x
    using that epoch_validate_error by blast
  from bad obtain x where x: "epoch_validate now' ?e = Err x" by (cases "epoch_validate now' ?e") auto
  have "\<not> is_ok (from_cbor cd ev now' data)"
    if "ciborium_from_reader cd data = Ok v" "vs_epoch v = ?e" for cd data v
    using that bad by (auto simp: from_cbor_def is_ok_iff result_simps versioned_validate_Ok_iff)
  with x err [OF x] show ?thesis
    using assms(2) by (auto simp: remove_member_def)
qed

text \<open>
  C29. What the checksum of the container protects: replacing the identifier or the encryption key of
  an epoch that is not deleted changes the checksum (absent a digest collision on the two inputs), but
  replacing the capabilities of a member does not, so a container whose member was made an
  administrator is still accepted.
\<close>

theorem checksum_protects_key_not_capabilities:
  assumes "versioned_validate ev now v = Ok ()" "\<not> is_deleted_status (es_status (vs_epoch v))"
    "length (es_key (vs_epoch v)) = 32" "map_of (es_members (vs_epoch v)) i = Some m"
  shows "(\<forall>e'. length (es_key e') = 32 \<longrightarrow> \<not> is_deleted_status (es_status e') \<longrightarrow>
        inj_on (ev_sha ev) {epoch_hash_input ev e', epoch_hash_input ev (vs_epoch v)} \<longrightarrow>
        versioned_validate ev now (v\<lparr>vs_epoch := e'\<rparr>) = Ok () \<longrightarrow>
        es_epoch_id e' = es_epoch_id (vs_epoch v) \<and> es_key e' = es_key (vs_epoch v)) \<and>
    versioned_validate ev now
      (v\<lparr>vs_epoch := (vs_epoch v)\<lparr>es_members :=
          AList.update i (m\<lparr>mb_capabilities := c\<rparr>) (es_members (vs_epoch v))\<rparr>\<rparr>) = Ok ()"
proof -
  let ?e = "vs_epoch v" let ?m = "m\<lparr>mb_capabilities := c\<rparr>"
  have ok: "epoch_validate now ?e = Ok ()" and sum: "sd_checksum (vs_metadata v) = epoch_compute_hash ev ?e"
    and ver: "MIN_SUPPORTED_VERSION \<le> vs_version v"
    using assms(1) by (auto simp: versioned_validate_Ok_iff)
  have "m \<in> snd ` set (es_members ?e)" using map_of_SomeD [OF assms(4)] by force
  with ok have "member_validate now ?m = Ok ()"
    by (auto simp: epoch_validate_Ok_iff member_validate_Ok_iff)
  then have "epoch_validate now (?e\<lparr>es_members := AList.update i ?m (es_members ?e)\<rparr>) = Ok ()"
    using ok set_update_subset [of i ?m "es_members ?e"] by (auto simp: epoch_validate_Ok_iff)
  then have "versioned_validate ev now (v\<lparr>vs_epoch := ?e\<lparr>es_members := AList.update i ?m (es_members ?e)\<rparr>\<rparr>) = Ok ()"
    using ver sum by (simp add: versioned_validate_Ok_iff epoch_compute_hash_def hash_input_capabilities [OF assms(4)])
  moreover have "es_epoch_id e' = es_epoch_id ?e \<and> es_key e' = es_key ?e"
    if "length (es_key e') = 32" "\<not> is_deleted_status (es_status e')"
      "inj_on (ev_sha ev) {epoch_hash_input ev e', epoch_hash_input ev ?e}"
      "versioned_validate ev now (v\<lparr>vs_epoch := e'\<rparr>) = Ok ()" for e'
  proof -
    have "ev_sha ev (epoch_hash_input ev e') = ev_sha ev (epoch_hash_input ev ?e)"
      using that(4) sum by (simp add: versioned_validate_Ok_iff epoch_compute_hash_def)
    then have "epoch_hash_input ev e' = epoch_hash_input ev ?e"
      by (rule inj_onD [OF that(3)]) simp_all
    then show ?thesis using that(1,2) assms(2,3) by (intro hash_input_prefix)
  qed
  ultimately show ?thesis by blast
qed

text \<open>
  The reported migration progress of a migrating epoch counts the members that are active: it
  lies in the unit interval and is one exactly when every member is active. It therefore disagrees
  with \<open>all_members_migrated\<close> once a member was removed, and it is already one right after
  \<open>start_migration\<close>, before any member has begun to migrate.
\<close>

theorem epoch_progress_one_iff:
  assumes "is_migrating e" "length (es_members e) < 2 ^ 53"
  shows "0 \<le> migration_progress e \<and> migration_progress e \<le> 1 \<and>
    (migration_progress e = 1 \<longleftrightarrow> list_all member_is_active (map snd (es_members e))) \<and>
    (migration_progress e = 1 \<longleftrightarrow> all_members_migrated e \<and>
      list_all (\<lambda>m. \<not> is_removed_member (mb_status m)) (map snd (es_members e)))"
proof -
  let ?ms = "map snd (es_members e)"
  let ?n = "length (filter (\<lambda>m. mb_status m = MActive) ?ms)"
  have le: "?n \<le> length (es_members e)" by (metis length_filter_le length_map)
  have all: "?n = length (es_members e) \<longleftrightarrow> list_all member_is_active ?ms"
    using length_filter_all_iff [of "\<lambda>m. mb_status m = MActive" ?ms]
    by (simp add: list_all_iff member_is_active_def)
  have eq: "list_all member_is_active ?ms \<longleftrightarrow>
      all_members_migrated e \<and> list_all (\<lambda>m. \<not> is_removed_member (mb_status m)) ?ms"
    by (auto simp: list_all_iff all_members_migrated_def member_is_active_def)
  show ?thesis
  proof (cases "es_members e = []")
    case True
    with assms show ?thesis by (simp add: migration_progress_def all_members_migrated_def)
  next
    case False
    with f64_ratio_bounds [OF le] f64_ratio_one_iff [OF le _ assms(2)] all eq assms show ?thesis
      by (simp add: migration_progress_def)
  qed
qed

subsection \<open>Examples\<close>

definition sample_epoch_env :: epoch_env where
  "sample_epoch_env =
     \<lparr>ev_sha = sample_sha, ev_status_json = (\<lambda>st. Some [of_nat (status_discriminant st)]),
      ev_member_status_json = (\<lambda>st. Some [if st = MActive then 1 else 0]), ev_capabilities_json = (\<lambda>_. None),
      ev_instant_debug = (\<lambda>_. ''t''), ev_string_debug = (\<lambda>s. s),
      ev_duration_seconds = (\<lambda>s. Some (s * 1000000000)), ev_instant_add = (\<lambda>t d. Some (t + d))\<rparr>"

definition sample_member :: "byte \<Rightarrow> member" where
  "sample_member b = member_new 10 [b] (replicate 32 b) default_capabilities"

definition sample_key :: bytes where
  "sample_key = replicate 32 7"

definition sample_epoch_ops :: "epoch_op list" where
  "sample_epoch_ops =
     [OpAddMember 11 (sample_member 1), OpAddMember 12 (sample_member 2), OpActivate 13 13,
      OpRemoveMember 14 14 [2] ''left'', OpStartMigration 15 15 6]"

definition sample_epoch :: epoch_state where
  "sample_epoch = run_ops sample_epoch_env sample_epoch_ops (epoch_new 10 5 sample_key)"

definition sample_versioned :: versioned_epoch_state where
  "sample_versioned =
     \<lparr>vs_version = 1, vs_epoch = sample_epoch, vs_serialized_at = 20,
      vs_metadata = \<lparr>sd_min_supported_version = 1, sd_features = detect_features sample_epoch,
                     sd_checksum = epoch_compute_hash sample_epoch_env sample_epoch\<rparr>\<rparr>"

lemma sample_epoch_reachable: "(epoch_step sample_epoch_env)\<^sup>*\<^sup>* (epoch_new 10 5 sample_key) sample_epoch"
  unfolding sample_epoch_def by (rule run_ops_steps) (simp add: sample_epoch_ops_def)

lemma sample_epoch_valid: "epoch_validate 20 sample_epoch = Ok ()"
  by code_simp

lemma sample_epoch_member: "map_of (es_members sample_epoch) [1] = Some (sample_member 1)"
  by code_simp

theorem epoch_reachable_invariant_witness:
  "target_ok 5 (es_status sample_epoch) \<and> es_members sample_epoch \<noteq> [] \<and> is_migrating sample_epoch"
proof -
  have "is_migrating sample_epoch" "\<not> is_initializing (es_status sample_epoch)" by code_simp+
  with epoch_reachable_invariant [OF sample_epoch_reachable] show ?thesis by simp
qed

theorem epoch_lifecycle_forward_witness:
  "status_discriminant (es_status sample_epoch) \<le> 5 \<and> is_migrating sample_epoch"
proof -
  have "list_all guarded sample_epoch_ops" "is_migrating sample_epoch" "length sample_epoch_ops = 5"
    by (simp add: sample_epoch_ops_def, code_simp, simp add: sample_epoch_ops_def)
  with epoch_lifecycle_forward [of sample_epoch_ops "epoch_new 10 5 sample_key" sample_epoch_env] show ?thesis
    by (simp add: sample_epoch_def [symmetric]) (simp add: epoch_new_def)
qed

theorem epoch_deletion_reachable_witness:
  "\<exists>ops. is_deleted_status (es_status (run_ops sample_epoch_env ops sample_epoch)) \<and>
    es_key (run_ops sample_epoch_env ops sample_epoch) = ZERO_KEY"
proof -
  have "es_members sample_epoch \<noteq> []" by code_simp
  moreover have "(5 :: u64) \<noteq> - 1" by simp
  ultimately show ?thesis
    using epoch_deletion_reachable [OF sample_epoch_reachable] by blast
qed

theorem epoch_validate_preserved_witness: "epoch_validate 20 (run_ops sample_epoch_env sample_epoch_ops (epoch_new 10 5 sample_key)) = Ok ()"
proof (rule epoch_validate_preserved)
  show "epoch_validate 20 (epoch_new 10 5 sample_key) = Ok ()" by code_simp
  show "list_all (op_ok (es_created_at (epoch_new 10 5 sample_key)) 20) sample_epoch_ops" by code_simp
qed

theorem empty_removal_reason_rejected_witness:
  "\<exists>e msg. remove_member 16 17 [1] [] sample_epoch = (e, Ok ()) \<and> epoch_validate 20 e = Err (EpochValidationFailed msg)"
proof -
  have "es_created_at sample_epoch \<le> 17" by code_simp
  from empty_removal_reason_rejected [OF sample_epoch_valid sample_epoch_member this] show ?thesis by blast
qed

theorem checksum_protects_key_not_capabilities_witness:
  "versioned_validate sample_epoch_env 20
     (sample_versioned\<lparr>vs_epoch := sample_epoch\<lparr>es_members :=
        AList.update [1] ((sample_member 1)\<lparr>mb_capabilities := default_capabilities\<lparr>can_admin_cap := True\<rparr>\<rparr>)
          (es_members sample_epoch)\<rparr>\<rparr>) = Ok ()"
proof -
  have eq: "vs_epoch sample_versioned = sample_epoch" by (simp add: sample_versioned_def)
  have ok: "versioned_validate sample_epoch_env 20 sample_versioned = Ok ()"
    using sample_epoch_valid by (simp add: versioned_validate_Ok_iff sample_versioned_def)
  have "\<not> is_deleted_status (es_status sample_epoch)" "length (es_key sample_epoch) = 32" by code_simp+
  from checksum_protects_key_not_capabilities [OF ok, unfolded eq, OF this sample_epoch_member, THEN conjunct2]
  show ?thesis .
qed

theorem epoch_progress_one_iff_witness:
  "migration_progress sample_epoch \<noteq> 1 \<and> all_members_migrated sample_epoch"
proof -
  have len: "length (es_members sample_epoch) = 2" by code_simp
  have "is_migrating sample_epoch"
    "\<not> list_all member_is_active (map snd (es_members sample_epoch))" "all_members_migrated sample_epoch"
    by code_simp+
  with epoch_progress_one_iff [of sample_epoch, unfolded len] show ?thesis by simp
qed

end
