(* ===== verification/CutoverMessages.thy ===== *)
theory CutoverMessages
  imports Signatures "HOL-Library.AList"
begin

text \<open>
  The messages of the cutover protocol (\<open>crates/messages/src/cutover.rs\<close>) and the errors of the
  message crate (\<open>crates/messages/src/error.rs\<close>): construction and validation of cutover messages, and
  the acknowledgement bookkeeping of the older \<open>Cutover\<close> message.
\<close>

datatype message_error =
    MsgSerialization string
  | MsgDeserialization string
  | MsgInvalidFormat string
  | MsgCrypto crypto_error
  | MsgCryptoError string
  | MsgSerializationError string
  | MsgSignatureError string
  | MsgTimestampError string
  | MsgExpiredCard string

fun message_error_display :: "message_error \<Rightarrow> string" where
  "message_error_display (MsgSerialization m) = ''Serialization failed: '' @ m"
| "message_error_display (MsgDeserialization m) = ''Deserialization failed: '' @ m"
| "message_error_display (MsgInvalidFormat m) = ''Invalid message format: '' @ m"
| "message_error_display (MsgCrypto e) = ''Crypto error: '' @ crypto_error_display e"
| "message_error_display (MsgCryptoError m) = ''Crypto error: '' @ m"
| "message_error_display (MsgSerializationError m) = ''Serialization error: '' @ m"
| "message_error_display (MsgSignatureError m) = ''Signature error: '' @ m"
| "message_error_display (MsgTimestampError m) = ''Timestamp error: '' @ m"
| "message_error_display (MsgExpiredCard m) = ''Expired: '' @ m"

text \<open>The secrets of an epoch that the messages and the epoch storage exchange (\<open>welcome.rs\<close>).\<close>

record epoch_secrets =
  sx_epoch_key :: bytes
  sx_signing_key :: bytes
  sx_previous_keys :: "(u64 \<times> bytes) list"

datatype cutover_phase = Prepare | Proposal | Vote | Commit | Abort

datatype cutover_vote = Approve | Reject

datatype consensus_state = Voting | Achieved | Failed | TimedOut

record cutover_message =
  ct_phase :: cutover_phase
  ct_from_epoch_id :: bytes
  ct_to_epoch_id :: bytes
  ct_coverage_root :: bytes
  ct_sender_key :: bytes
  ct_timestamp :: instant
  ct_vote :: "cutover_vote option"
  ct_signature :: bytes
  ct_transparency_sequence :: "u64 option"
  ct_transparency_log_size :: "u64 option"
  ct_transparency_leaf_index :: "u64 option"
  ct_transparency_entry_timestamp :: "u64 option"

definition cutover_message_validate :: "cutover_message \<Rightarrow> (unit, message_error) result" where
  "cutover_message_validate m =
     rbind (guard (\<not> (length (ct_from_epoch_id m) \<noteq> 32 \<and> ct_from_epoch_id m \<noteq> []))
             (MsgInvalidFormat ''from_epoch_id must be 32 bytes or empty'')) (\<lambda>_.
     rbind (guard (length (ct_to_epoch_id m) = 32) (MsgInvalidFormat ''to_epoch_id must be 32 bytes'')) (\<lambda>_.
     rbind (guard (\<not> (length (ct_coverage_root m) \<noteq> 32 \<and> ct_coverage_root m \<noteq> []))
             (MsgInvalidFormat ''coverage_root must be 32 bytes or empty'')) (\<lambda>_.
     rbind (guard (length (ct_sender_key m) = 32) (MsgInvalidFormat ''sender_key must be 32 bytes'')) (\<lambda>_.
     rbind (guard (\<not> (ct_phase m = Vote \<and> ct_vote m = None))
             (MsgInvalidFormat ''vote phase requires vote field'')) (\<lambda>_.
     Ok ())))))"

definition cutover_message_new ::
  "cutover_phase \<Rightarrow> bytes \<Rightarrow> bytes \<Rightarrow> bytes \<Rightarrow> bytes \<Rightarrow> instant \<Rightarrow> (cutover_message, message_error) result" where
  "cutover_message_new phase from_id to_id root sender_key timestamp =
     (let m = \<lparr>ct_phase = phase, ct_from_epoch_id = from_id, ct_to_epoch_id = to_id, ct_coverage_root = root,
               ct_sender_key = sender_key, ct_timestamp = timestamp, ct_vote = None,
               ct_signature = replicate 64 0, ct_transparency_sequence = None, ct_transparency_log_size = None,
               ct_transparency_leaf_index = None, ct_transparency_entry_timestamp = None\<rparr>
      in rbind (cutover_message_validate m) (\<lambda>_. Ok m))"

definition new_vote ::
  "bytes \<Rightarrow> bytes \<Rightarrow> bytes \<Rightarrow> bytes \<Rightarrow> cutover_vote \<Rightarrow> instant \<Rightarrow> (cutover_message, message_error) result" where
  "new_vote from_id to_id root sender_key vote timestamp =
     (let m = \<lparr>ct_phase = Vote, ct_from_epoch_id = from_id, ct_to_epoch_id = to_id, ct_coverage_root = root,
               ct_sender_key = sender_key, ct_timestamp = timestamp, ct_vote = Some vote,
               ct_signature = replicate 64 0, ct_transparency_sequence = None, ct_transparency_log_size = None,
               ct_transparency_leaf_index = None, ct_transparency_entry_timestamp = None\<rparr>
      in rbind (cutover_message_validate m) (\<lambda>_. Ok m))"

subsection \<open>The older cutover message\<close>

record leader_election =
  le_coordinator_id :: string
  le_term :: u64
  le_votes :: "(string \<times> bool) list"
  le_signature :: bytes

record cutover =
  co_from_epoch_id :: bytes
  co_to_epoch_id :: bytes
  co_phase :: cutover_phase
  co_coordinator_id :: string
  co_term :: u64
  co_affected_files :: "bytes list"
  co_timeout :: u64
  co_acks :: "(string \<times> bool) list"
  co_signature :: bytes
  co_timestamp :: u64

record cutover_rollback =
  cr_from_epoch_id :: bytes
  cr_to_epoch_id :: bytes
  cr_coordinator_id :: string
  cr_rollback_files :: "bytes list"
  cr_reason :: string
  cr_recovery_state :: "(string \<times> bytes) list"
  cr_signature :: bytes
  cr_timestamp :: u64

definition cutover_validate :: "cutover \<Rightarrow> (unit, message_error) result" where
  "cutover_validate c =
     rbind (guard (co_coordinator_id c \<noteq> []) (MsgInvalidFormat ''coordinator_id cannot be empty'')) (\<lambda>_.
     rbind (guard (\<not> co_timeout c \<le> co_timestamp c) (MsgInvalidFormat ''timeout must be in the future'')) (\<lambda>_.
     rbind (guard (length (co_signature c) = 64)
             (MsgInvalidFormat ''coordinator_signature must be 64 bytes'')) (\<lambda>_.
     Ok ())))"

text \<open>\<open>secs\<close>: the system clock in seconds since the Unix epoch, \<open>None\<close> if it is set before it.\<close>

definition cutover_new ::
  "u64 option \<Rightarrow> bytes \<Rightarrow> bytes \<Rightarrow> cutover_phase \<Rightarrow> string \<Rightarrow> u64 \<Rightarrow> bytes list \<Rightarrow> u64 \<Rightarrow> bytes \<Rightarrow>
   (cutover, message_error) result" where
  "cutover_new secs from_id to_id phase coordinator_id term affected_files timeout signature =
     rbind (ok_or (MsgTimestampError ''System clock error'') secs) (\<lambda>timestamp.
     let c = \<lparr>co_from_epoch_id = from_id, co_to_epoch_id = to_id, co_phase = phase,
              co_coordinator_id = coordinator_id, co_term = term, co_affected_files = affected_files,
              co_timeout = timeout, co_acks = [], co_signature = signature, co_timestamp = timestamp\<rparr>
     in rbind (cutover_validate c) (\<lambda>_. Ok c))"

definition is_timed_out :: "cutover \<Rightarrow> u64 \<Rightarrow> bool" where
  "is_timed_out c current_time \<longleftrightarrow> co_timeout c < current_time"

definition add_ack :: "string \<Rightarrow> bool \<Rightarrow> cutover \<Rightarrow> cutover" where
  "add_ack participant_id ack c = c\<lparr>co_acks := AList.update participant_id ack (co_acks c)\<rparr>"

definition all_acked :: "cutover \<Rightarrow> string list \<Rightarrow> bool" where
  "all_acked c required_participants =
     list_all (\<lambda>p. (case map_of (co_acks c) p of Some a \<Rightarrow> a | None \<Rightarrow> False) = True) required_participants"

subsection \<open>Lemmas\<close>

lemma cutover_message_validate_Ok_iff:
  "cutover_message_validate m = Ok u \<longleftrightarrow>
     (length (ct_from_epoch_id m) = 32 \<or> ct_from_epoch_id m = []) \<and> length (ct_to_epoch_id m) = 32 \<and>
     (length (ct_coverage_root m) = 32 \<or> ct_coverage_root m = []) \<and> length (ct_sender_key m) = 32 \<and>
     (ct_phase m = Vote \<longrightarrow> ct_vote m \<noteq> None)"
  by (auto simp: cutover_message_validate_def result_simps)

text \<open>Acknowledgements accumulate: the last answer of each participant counts.\<close>

lemma all_acked_add_ack:
  "all_acked (add_ack p True c) ps \<longleftrightarrow> all_acked c (filter ((\<noteq>) p) ps)"
  by (induction ps) (auto simp: all_acked_def add_ack_def update_conv')

end
