(* ===== verification/CutoverCoordinator.thy ===== *)
theory CutoverCoordinator
  imports CoverageLog EpochState CutoverMessages
begin

text \<open>
  The atomic cutover coordinator (\<open>crates/client/src/epoch/cutover/coordinator.rs\<close>): it validates
  that a migration is complete, proposes the cutover to the peers, counts votes, commits the target
  epoch and rolls back.

  The state \<open>coordinator\<close> has the fields behind the locks of the struct, the coverage manager's
  state, and the outside world. The world (clock, network, storage) is abstract: a state of type
  \<open>'w\<close> with the operations of the parameter record \<open>outside\<close>, which stand for the \<open>Storage\<close> and \<open>Network\<close>
  traits and the system clock. \<open>cutover_env\<close> holds the other parameters: keys, configuration, the
  JSON and hexadecimal encoders, the text of a percentage, and the iteration order of the map of
  active cutovers.

  A call runs to completion as one step, except where the code sleeps: \<open>monitor_consensus\<close> polls,
  and between two polls any messages and peer changes may be handled (\<open>events\<close>). A call that waits
  for a lock it can never get has the result \<open>Deadlocked\<close>: the mutex over the active cutovers is not
  reentrant (\<open>cc_active_locked\<close>), and the read guard on the peer set that \<open>start_consensus\<close> keeps
  until it returns (\<open>cc_peer_guard\<close>) makes writers queue (\<open>cc_peer_writers\<close>) and, the lock being
  fair, later readers queue behind them. Audit and tracing output is not modelled.
\<close>

named_theorems coord_defs \<open>the actions of the coordinator\<close>

subsection \<open>Data\<close>

datatype cutover_error =
    NotReady string
  | CoverageFailure string
  | ConsensusFailed string
  | CutTimeout string
  | RollbackFailed string
  | SafetyCheckFailed string
  | CutNetwork string
  | CutStorage string
  | SignatureFailure
  | CutCryptoError crypto_error
  | CutInvalidState string
  | InvalidPhase
  | NoCutoverInProgress
  | MissingTargetEpoch
  | SecureDeletionFailed string
  | CutStorageError string
  | CutPanicked
  | Deadlocked

fun cutover_error_display :: "cutover_error \<Rightarrow> string" where
  "cutover_error_display (NotReady m) = ''Migration not ready for cutover: '' @ m"
| "cutover_error_display (CoverageFailure m) = ''Coverage verification failed: '' @ m"
| "cutover_error_display (ConsensusFailed m) = ''Consensus failed: '' @ m"
| "cutover_error_display (CutTimeout m) = ''Timeout during cutover: '' @ m"
| "cutover_error_display (RollbackFailed m) = ''Rollback failed: '' @ m"
| "cutover_error_display (SafetyCheckFailed m) = ''Safety check failed: '' @ m"
| "cutover_error_display (CutNetwork m) = ''Network error: '' @ m"
| "cutover_error_display (CutStorage m) = ''Storage error: '' @ m"
| "cutover_error_display SignatureFailure = ''Signature verification failed''"
| "cutover_error_display (CutCryptoError e) = ''Cryptographic error: '' @ crypto_error_display e"
| "cutover_error_display (CutInvalidState m) = ''Invalid cutover state: '' @ m"
| "cutover_error_display InvalidPhase = ''Invalid cutover phase''"
| "cutover_error_display NoCutoverInProgress = ''No cutover in progress for this epoch''"
| "cutover_error_display MissingTargetEpoch = ''Missing target epoch for cutover''"
| "cutover_error_display (SecureDeletionFailed m) = ''Secure deletion failed: '' @ m"
| "cutover_error_display (CutStorageError m) = ''Storage error: '' @ m"
| "cutover_error_display CutPanicked = []"
| "cutover_error_display Deadlocked = []"

datatype cutover_status = Preparing | InConsensus | Committed | Aborted | OpRollingBack | OpRolledBack

record consensus_tracker =
  tk_commit_count :: nat
  tk_required_count :: nat
  tk_participants :: "bytes set"

record cutover_operation =
  op_target_epoch :: "epoch_state option"
  op_previous_epoch :: "epoch_state option"
  op_status :: cutover_status
  op_started_at :: instant
  op_completed_at :: "instant option"
  op_consensus :: "consensus_tracker option"

record cutover_config =
  cf_min_coverage_threshold :: rat
  cf_consensus_timeout :: int
  cf_min_consensus_nodes :: nat
  cf_consensus_ratio :: rat
  cf_auto_rollback :: bool
  cf_max_rollback_attempts :: nat

definition default_cutover_config :: cutover_config where
  "default_cutover_config =
     \<lparr>cf_min_coverage_threshold = 1, cf_consensus_timeout = 30, cf_min_consensus_nodes = 1,
      cf_consensus_ratio = f64 (67 / 100), cf_auto_rollback = True, cf_max_rollback_attempts = 3\<rparr>"

datatype cutover_state =
  Idle | Validation | AwaitingConsensus | Transitioning | Completed | RollingBack | RolledBack

record vote_record =
  vr_voter_id :: bytes
  vr_vote :: cutover_vote
  vr_coverage_root :: bytes
  vr_timestamp :: instant
  vr_signature :: bytes

record signable_cutover =
  sc_phase :: cutover_phase
  sc_from_epoch_id :: bytes
  sc_to_epoch_id :: bytes
  sc_coverage_root :: bytes
  sc_sender_key :: bytes
  sc_timestamp :: instant
  sc_vote :: "cutover_vote option"

datatype message_type =
  MtJoinCard | MtWelcome | MtGroupUpdate | MtFileMetadata | MtCoverageUpdate | MtCutover |
  MtTransparencyRequest | MtHeartbeat | MtAcknowledgment

datatype message_priority = PrLow | PrNormal | PrHigh | PrCritical

record network_message =
  nm_message_type :: message_type
  nm_encrypted_payload :: bytes
  nm_sender_public_key :: bytes
  nm_signature :: bytes
  nm_timestamp :: instant
  nm_sequence_number :: u64
  nm_priority :: message_priority

record signable_network =
  sn_message_type :: message_type
  sn_encrypted_payload :: bytes
  sn_sender_public_key :: bytes
  sn_timestamp :: instant
  sn_sequence_number :: u64
  sn_priority :: message_priority

datatype peer_status = PsConnected | PsConnecting | PsDisconnected | PsFailed | PsUnreachable

record peer_info =
  pi_public_key :: bytes
  pi_status :: peer_status

record network_status =
  ns_is_connected :: bool
  ns_error_rate :: rat

record 'w outside =
  ow_now :: "'w \<Rightarrow> 'w \<times> instant"
  ow_list_peers :: "'w \<Rightarrow> 'w \<times> (peer_info list, string) result"
  ow_send_message :: "bytes \<Rightarrow> network_message \<Rightarrow> 'w \<Rightarrow> 'w \<times> (unit, string) result"
  ow_load_epoch_state :: "u64 \<Rightarrow> 'w \<Rightarrow> 'w \<times> (epoch_state, string) result"
  ow_has_epoch_state_data :: "u64 \<Rightarrow> 'w \<Rightarrow> 'w \<times> (bool, string) result"
  ow_store_epoch_state :: "epoch_state \<Rightarrow> 'w \<Rightarrow> 'w \<times> (unit, string) result"
  ow_store_epoch_keys :: "u64 \<Rightarrow> epoch_secrets \<Rightarrow> 'w \<Rightarrow> 'w \<times> (unit, string) result"
  ow_get_network_status :: "'w \<Rightarrow> 'w \<times> (network_status, string) result"

record cutover_env =
  cx_cov :: cov_env
  cx_manager :: coverage_manager
  cx_signing_key :: bytes
  cx_config :: cutover_config
  cx_cutover_json :: "signable_cutover \<Rightarrow> (bytes, string) result"
  cx_network_json :: "signable_network \<Rightarrow> (bytes, string) result"
  cx_message_json :: "cutover_message \<Rightarrow> (bytes, string) result"
  cx_hex_encode :: "bytes \<Rightarrow> string"
  cx_percent :: "rat \<Rightarrow> string"
  cx_from_utf8_lossy :: "bytes \<Rightarrow> string"
  cx_iter :: "string list \<Rightarrow> string list"

record 'w coordinator =
  cc_world :: 'w
  cc_coverage :: manager_state
  cc_state :: cutover_state
  cc_consensus :: "consensus_tracker option"
  cc_peers :: "bytes list"
  cc_sequence :: u64
  cc_rollback_attempts :: nat
  cc_active :: "(string \<times> cutover_operation) list"
  cc_epoch :: epoch_state
  cc_active_locked :: bool
  cc_peer_guard :: bool
  cc_peer_writers :: "(bool \<times> bytes) list"

type_synonym ('w, 'a) cutover_action = "('w coordinator, 'a, cutover_error) action"

definition world_op ::
  "(string \<Rightarrow> cutover_error) \<Rightarrow> ('w \<Rightarrow> 'w \<times> ('a, string) result) \<Rightarrow> ('w, 'a) cutover_action" where
  "world_op err f s = (case f (cc_world s) of (w, r) \<Rightarrow> (s\<lparr>cc_world := w\<rparr>, map_err err r))"

definition read_clock :: "'w outside \<Rightarrow> ('w, instant) cutover_action" where
  "read_clock ow s = (case ow_now ow (cc_world s) of (w, t) \<Rightarrow> (s\<lparr>cc_world := w\<rparr>, Ok t))"

definition supd :: "('s \<Rightarrow> 's) \<Rightarrow> ('s, unit, 'e) action" where
  "supd f s = (f s, Ok ())"

text \<open>Acquiring the mutex over the active cutovers, and a read guard on the peer set.\<close>

definition lock_active :: "('w, unit) cutover_action" where
  "lock_active s = (s, if cc_active_locked s then Err Deadlocked else Ok ())"

definition read_peers :: "('w, bytes list) cutover_action" where
  "read_peers s = (s, if cc_peer_writers s \<noteq> [] then Err Deadlocked else Ok (cc_peers s))"

subsection \<open>Epoch identifiers on the wire\<close>

definition encode_epoch_id :: "u64 \<Rightarrow> bytes" where
  "encode_epoch_id epoch_id = to_le_bytes epoch_id @ replicate 24 0"

definition parse_epoch_id :: "bytes \<Rightarrow> (u64, cutover_error) result" where
  "parse_epoch_id b =
     (if length b = 8 then Ok (from_le_bytes b)
      else if 32 \<le> length b then Ok (from_le_bytes (take 8 b))
      else Err (CutInvalidState (''Invalid epoch identifier length: '' @ dec_nat (length b))))"

definition epoch_key :: "u64 \<Rightarrow> string" where
  "epoch_key epoch_id = dec_nat (unat epoch_id)"

text \<open>\<open>str::parse::<u64>\<close>: an optional plus sign and decimal digits, in range.\<close>

definition parse_u64 :: "string \<Rightarrow> u64 option" where
  "parse_u64 s =
     (let d = (case s of c # cs \<Rightarrow> if c = CHR ''+'' then cs else s | [] \<Rightarrow> []);
          n = foldl (\<lambda>a c. 10 * a + int (undigit c)) 0 d
      in if d \<noteq> [] \<and> list_all (\<lambda>c. CHR ''0'' \<le> c \<and> c \<le> CHR ''9'') d \<and> n < 2 ^ 64
         then Some (of_int n) else None)"

subsection \<open>Signing and verification\<close>

definition cutover_signable_bytes :: "cutover_env \<Rightarrow> cutover_message \<Rightarrow> (bytes, cutover_error) result" where
  "cutover_signable_bytes cx m =
     map_err CutInvalidState (cx_cutover_json cx
       \<lparr>sc_phase = ct_phase m, sc_from_epoch_id = ct_from_epoch_id m, sc_to_epoch_id = ct_to_epoch_id m,
        sc_coverage_root = ct_coverage_root m, sc_sender_key = ct_sender_key m,
        sc_timestamp = ct_timestamp m, sc_vote = ct_vote m\<rparr>)"

definition network_signable_bytes :: "cutover_env \<Rightarrow> network_message \<Rightarrow> (bytes, cutover_error) result" where
  "network_signable_bytes cx m =
     map_err CutInvalidState (cx_network_json cx
       \<lparr>sn_message_type = nm_message_type m, sn_encrypted_payload = nm_encrypted_payload m,
        sn_sender_public_key = nm_sender_public_key m, sn_timestamp = nm_timestamp m,
        sn_sequence_number = nm_sequence_number m, sn_priority = nm_priority m\<rparr>)"

abbreviation cx_ed :: "cutover_env \<Rightarrow> ed25519" where
  "cx_ed cx \<equiv> env_ed (cv_log (cx_cov cx))"

abbreviation own_key :: "cutover_env \<Rightarrow> bytes" where
  "own_key cx \<equiv> sk_verifying_key (cx_ed cx) (cx_signing_key cx)"

text \<open>\<open>Ed25519KeyPair::sign\<close> panics if signing reports an error.\<close>

definition keypair_sign :: "cutover_env \<Rightarrow> bytes \<Rightarrow> (bytes, cutover_error) result" where
  "keypair_sign cx b = map_err (\<lambda>_. CutPanicked) (sk_sign (cx_ed cx) (cx_signing_key cx) b)"

definition sign_cutover_message :: "cutover_env \<Rightarrow> cutover_message \<Rightarrow> (cutover_message, cutover_error) result" where
  "sign_cutover_message cx m =
     rbind (cutover_signable_bytes cx m) (\<lambda>b.
     rbind (keypair_sign cx b) (\<lambda>signature. Ok (m\<lparr>ct_signature := signature\<rparr>)))"

definition sign_network_message :: "cutover_env \<Rightarrow> network_message \<Rightarrow> (network_message, cutover_error) result" where
  "sign_network_message cx m =
     rbind (network_signable_bytes cx m) (\<lambda>b.
     rbind (keypair_sign cx b) (\<lambda>signature. Ok (m\<lparr>nm_signature := signature\<rparr>)))"

definition verify_cutover_signature ::
  "cutover_env \<Rightarrow> cutover_message \<Rightarrow> bytes \<Rightarrow> (unit, cutover_error) result" where
  "verify_cutover_signature cx m sender =
     rbind (map_err (\<lambda>_. SignatureFailure) (signature_from_bytes (ct_signature m))) (\<lambda>signature.
     rbind (map_err (\<lambda>_. SignatureFailure)
             (verifying_key_from_bytes (cx_ed cx) (ct_sender_key m))) (\<lambda>embedded_key.
     rbind (guard (embedded_key = sender) SignatureFailure) (\<lambda>_.
     rbind (cutover_signable_bytes cx m) (\<lambda>b.
     map_err (\<lambda>_. SignatureFailure) (vk_verify (cx_ed cx) sender b signature)))))"

definition current_coverage_root :: "cutover_env \<Rightarrow> ('w, bytes) cutover_action" where
  "current_coverage_root cx s =
     (case log_get_merkle_root (cx_hex_encode cx) (cx_cov cx) (get_coverage_log (cc_coverage s)) of
        Err Panicked \<Rightarrow> (s, Err CutPanicked)
      | r \<Rightarrow>
          (let hex = (case r of Ok h \<Rightarrow> h | Err _ \<Rightarrow> [])
           in (s, Ok (if length hex = 64
                      then (case hex_decode (cv_log (cx_cov cx)) hex of Ok b \<Rightarrow> b | Err _ \<Rightarrow> [])
                      else as_bytes hex))))"

subsection \<open>Consensus bookkeeping\<close>

text \<open>\<open>(x.ceil()) as usize\<close> saturates at the bounds of the type.\<close>

definition required_commits :: "cutover_env \<Rightarrow> nat \<Rightarrow> nat" where
  "required_commits cx peer_count =
     (let ratio = nat (clamp 0 (2 ^ 64 - 1) \<lceil>f64_mul (f64_of_nat peer_count) (cf_consensus_ratio (cx_config cx))\<rceil>)
      in max (max ratio (cf_min_consensus_nodes (cx_config cx))) 1)"

definition set_consensus :: "string \<Rightarrow> consensus_tracker \<Rightarrow> (string \<times> cutover_operation) list \<Rightarrow> (string \<times> cutover_operation) list" where
  "set_consensus key tracker ops =
     (case map_of ops key of
        Some operation \<Rightarrow> AList.update key (operation\<lparr>op_consensus := Some tracker\<rparr>) ops
      | None \<Rightarrow> ops)"

definition ensure_cutover_context :: "'w outside \<Rightarrow> cutover_env \<Rightarrow> u64 \<Rightarrow> ('w, unit) cutover_action" where
  "ensure_cutover_context ow cx target_epoch_id =
     (let key = epoch_key target_epoch_id in
      sbind lock_active (\<lambda>_.
      sbind (sgets (\<lambda>s. key \<notin> fst ` set (cc_active s))) (\<lambda>needs_operation.
      sbind (if needs_operation then
               sbind (world_op CutStorage (ow_load_epoch_state ow target_epoch_id)) (\<lambda>target_epoch.
               sbind (sgets cc_epoch) (\<lambda>current_snapshot.
               sbind lock_active (\<lambda>_.
               sbind (read_clock ow) (\<lambda>now.
               supd (\<lambda>s. s\<lparr>cc_active :=
                 (if key \<in> fst ` set (cc_active s) then cc_active s
                  else AList.update key \<lparr>op_target_epoch = Some target_epoch, op_previous_epoch = Some current_snapshot,
                         op_status = InConsensus, op_started_at = now, op_completed_at = None,
                         op_consensus = None\<rparr> (cc_active s))\<rparr>)))))
             else sres (Ok ())) (\<lambda>_.
      sbind read_peers (\<lambda>peers.
      let required = required_commits cx (length peers) in
      sbind (supd (\<lambda>s. s\<lparr>cc_consensus := Some
               (case cc_consensus s of
                  None \<Rightarrow> \<lparr>tk_commit_count = 0, tk_required_count = required, tk_participants = {}\<rparr>
                | Some tracker \<Rightarrow> tracker\<lparr>tk_required_count := max (tk_required_count tracker) required\<rparr>)\<rparr>)) (\<lambda>_.
      sbind lock_active (\<lambda>_.
      supd (\<lambda>s. case cc_consensus s of
                  Some tracker \<Rightarrow> s\<lparr>cc_active := set_consensus key tracker (cc_active s)\<rparr>
                | None \<Rightarrow> s))))))))"

definition coordinator_new :: "'w \<Rightarrow> manager_state \<Rightarrow> epoch_state \<Rightarrow> 'w coordinator" where
  "coordinator_new w coverage initial_epoch =
     \<lparr>cc_world = w, cc_coverage = coverage, cc_state = Idle, cc_consensus = None, cc_peers = [],
      cc_sequence = 0, cc_rollback_attempts = 0, cc_active = [], cc_epoch = initial_epoch,
      cc_active_locked = False, cc_peer_guard = False, cc_peer_writers = []\<rparr>"

subsection \<open>Validation before a cutover\<close>

definition validate_epoch_consistency :: "epoch_state \<Rightarrow> epoch_state \<Rightarrow> (unit, cutover_error) result" where
  "validate_epoch_consistency current_epoch target_epoch =
     rbind (guard (\<not> es_epoch_id target_epoch \<le> es_epoch_id current_epoch)
             (SafetyCheckFailed ''Target epoch must have higher ID than current'')) (\<lambda>_.
     rbind (guard (es_key current_epoch \<noteq> es_key target_epoch)
             (SafetyCheckFailed ''Epochs must have different encryption keys'')) (\<lambda>_.
     Ok ()))"

definition validate_network_connectivity :: "'w outside \<Rightarrow> cutover_env \<Rightarrow> ('w, unit) cutover_action" where
  "validate_network_connectivity ow cx =
     sbind read_peers (\<lambda>peers.
     sbind (sres (guard (\<not> length peers < cf_min_consensus_nodes (cx_config cx))
             (SafetyCheckFailed (''Insufficient peers for consensus: '' @ dec_nat (length peers) @ '' < '' @
                dec_nat (cf_min_consensus_nodes (cx_config cx)))))) (\<lambda>_.
     sbind (world_op CutNetwork (ow_list_peers ow)) (\<lambda>infos.
     let connected = map pi_public_key (filter (\<lambda>p. pi_status p = PsConnected) infos);
         missing = filter (\<lambda>key. key \<notin> set connected) peers
     in sres (guard (missing = [])
          (CutNetwork (''Missing connectivity to '' @ dec_nat (length missing) @ '' consensus peers''))))))"

definition verify_coverage_integrity :: "cutover_env \<Rightarrow> (string \<Rightarrow> cutover_error) \<Rightarrow> ('w, unit) cutover_action" where
  "verify_coverage_integrity cx err s =
     (case verify_integrity (cx_cov cx) (cx_manager cx) (cc_coverage s) of
        (c, r) \<Rightarrow> (s\<lparr>cc_coverage := c\<rparr>, map_err (\<lambda>e. err (coverage_error_display e)) r))"

definition validate_storage_integrity ::
  "'w outside \<Rightarrow> cutover_env \<Rightarrow> epoch_state \<Rightarrow> epoch_state \<Rightarrow> ('w, unit) cutover_action" where
  "validate_storage_integrity ow cx current_epoch target_epoch =
     sbind (world_op CutStorage (ow_has_epoch_state_data ow (es_epoch_id current_epoch))) (\<lambda>current.
     sbind (sres (guard current (CutStorage
             (''Current epoch '' @ dec_nat (unat (es_epoch_id current_epoch)) @ '' not found in storage'')))) (\<lambda>_.
     sbind (world_op CutStorage (ow_has_epoch_state_data ow (es_epoch_id target_epoch))) (\<lambda>target.
     sbind (sres (guard target (CutStorage
             (''Target epoch '' @ dec_nat (unat (es_epoch_id target_epoch)) @ '' not staged in storage'')))) (\<lambda>_.
     verify_coverage_integrity cx CoverageFailure))))"

definition validate_cutover_readiness ::
  "'w outside \<Rightarrow> cutover_env \<Rightarrow> epoch_state \<Rightarrow> epoch_state \<Rightarrow> ('w, unit) cutover_action" where
  "validate_cutover_readiness ow cx current_epoch target_epoch =
     sbind (sgets (\<lambda>s. get_migration_progress (cc_coverage s) (es_epoch_id current_epoch) (es_epoch_id target_epoch))) (\<lambda>coverage.
     sbind (sres (guard (\<not> coverage < cf_min_coverage_threshold (cx_config cx))
             (NotReady (''Coverage '' @ cx_percent cx (f64_mul coverage 100) @ ''% below threshold '' @
                cx_percent cx (f64_mul (cf_min_coverage_threshold (cx_config cx)) 100) @ ''%'')))) (\<lambda>_.
     sbind (sgets (\<lambda>s. get_coverage_status (cc_coverage s))) (\<lambda>_.
     sbind (sres (validate_epoch_consistency current_epoch target_epoch)) (\<lambda>_.
     sbind (validate_network_connectivity ow cx) (\<lambda>_.
     validate_storage_integrity ow cx current_epoch target_epoch)))))"

subsection \<open>Proposals, votes and broadcasts\<close>

definition create_cutover_proposal ::
  "'w outside \<Rightarrow> cutover_env \<Rightarrow> epoch_state \<Rightarrow> epoch_state \<Rightarrow> ('w, cutover_message) cutover_action" where
  "create_cutover_proposal ow cx current_epoch target_epoch =
     sbind (current_coverage_root cx) (\<lambda>root.
     sbind (read_clock ow) (\<lambda>now.
     sbind (sres (map_err (\<lambda>e. CutInvalidState (message_error_display e))
             (cutover_message_new Proposal (encode_epoch_id (es_epoch_id current_epoch))
                (encode_epoch_id (es_epoch_id target_epoch)) root (own_key cx) now))) (\<lambda>m.
     sbind (sgets (\<lambda>s. latest_transparency_metadata False (cc_coverage s))) (\<lambda>metadata.
     sres (sign_cutover_message cx
       (case metadata of
          Some md \<Rightarrow> m\<lparr>ct_transparency_sequence := Some (tm_sequence_number md),
                       ct_transparency_log_size := Some (tm_log_size md),
                       ct_transparency_leaf_index := Some (tm_leaf_index md),
                       ct_transparency_entry_timestamp := Some (tm_entry_timestamp md)\<rparr>
        | None \<Rightarrow> m))))))"

primrec send_to_peers :: "'w outside \<Rightarrow> network_message \<Rightarrow> bytes list \<Rightarrow> ('w, unit) cutover_action" where
  "send_to_peers ow m [] = sres (Ok ())"
| "send_to_peers ow m (peer # peers) =
     sbind (world_op CutNetwork (ow_send_message ow peer m)) (\<lambda>_. send_to_peers ow m peers)"

definition broadcast_cutover_message :: "'w outside \<Rightarrow> cutover_env \<Rightarrow> cutover_message \<Rightarrow> ('w, unit) cutover_action" where
  "broadcast_cutover_message ow cx message =
     sbind (sres (if length (ct_signature message) \<noteq> 64 then sign_cutover_message cx message else Ok message)) (\<lambda>m.
     sbind (sres (map_err CutNetwork (cx_message_json cx m))) (\<lambda>serialized.
     sbind (\<lambda>s. (s\<lparr>cc_sequence := cc_sequence s + 1\<rparr>, Ok (cc_sequence s + 1))) (\<lambda>sequence.
     sbind (read_clock ow) (\<lambda>now.
     sbind (sres (sign_network_message cx
             \<lparr>nm_message_type = MtCutover, nm_encrypted_payload = serialized, nm_sender_public_key = own_key cx,
              nm_signature = replicate 64 0, nm_timestamp = now, nm_sequence_number = sequence,
              nm_priority = PrHigh\<rparr>)) (\<lambda>network_message.
     sbind read_peers (\<lambda>peers.
     send_to_peers ow network_message peers))))))"

definition evaluate_cutover_proposal :: "cutover_env \<Rightarrow> cutover_message \<Rightarrow> ('w, cutover_vote) cutover_action" where
  "evaluate_cutover_proposal cx message =
     sbind (current_coverage_root cx) (\<lambda>our_merkle_root.
     sres (Ok (if our_merkle_root \<noteq> ct_coverage_root message then Reject else Approve)))"

definition cast_cutover_vote ::
  "'w outside \<Rightarrow> cutover_env \<Rightarrow> cutover_vote \<Rightarrow> cutover_message \<Rightarrow> ('w, unit) cutover_action" where
  "cast_cutover_vote ow cx vote proposal =
     sbind (read_clock ow) (\<lambda>now.
     sbind (sres (map_err (\<lambda>e. CutInvalidState (message_error_display e))
             (new_vote (ct_from_epoch_id proposal) (ct_to_epoch_id proposal) (ct_coverage_root proposal)
                (own_key cx) vote now))) (\<lambda>m.
     sbind (sres (sign_cutover_message cx m)) (\<lambda>vote_message.
     broadcast_cutover_message ow cx vote_message)))"

subsection \<open>Committing\<close>

text \<open>
  \<open>secure_delete\<close> overwrites the array it is called on. The array here is a copy of the key of the
  given epoch, which goes out of scope.
\<close>

definition secure_delete_old_epoch_keys :: "epoch_state \<Rightarrow> ('w, unit) cutover_action" where
  "secure_delete_old_epoch_keys old_epoch s =
     (let encryption_key = es_key old_epoch; encryption_key = replicate (length encryption_key) (0 :: byte)
      in (s, Ok ()))"

definition set_operation :: "string \<Rightarrow> cutover_operation \<Rightarrow> 'w coordinator \<Rightarrow> 'w coordinator" where
  "set_operation key operation s = s\<lparr>cc_active := AList.update key operation (cc_active s)\<rparr>"

definition finalize_cutover_commit ::
  "'w outside \<Rightarrow> cutover_env \<Rightarrow> string \<Rightarrow> cutover_operation \<Rightarrow> ('w, unit) cutover_action" where
  "finalize_cutover_commit ow cx key operation =
     sbind (sgets cc_epoch) (\<lambda>old_epoch_data.
     sbind (sres (ok_or MissingTargetEpoch (op_target_epoch operation))) (\<lambda>new_epoch.
     sbind (supd (\<lambda>s. s\<lparr>cc_epoch := new_epoch\<rparr>)) (\<lambda>_.
     scatch (world_op CutStorageError (ow_store_epoch_state ow new_epoch))
       (\<lambda>_.
         sbind (scatch (secure_delete_old_epoch_keys old_epoch_data) (\<lambda>_. sres (Ok ())) (\<lambda>_. sres (Ok ()))) (\<lambda>_.
         sbind (read_clock ow) (\<lambda>now.
         sbind (supd (set_operation key (operation\<lparr>op_status := Committed, op_completed_at := Some now\<rparr>))) (\<lambda>_.
         verify_coverage_integrity cx
           (\<lambda>e. CoverageFailure (''Coverage integrity check failed after cutover: '' @ e))))))
       (\<lambda>e. sbind (supd (\<lambda>s. s\<lparr>cc_epoch := old_epoch_data\<rparr>)) (\<lambda>_. sres (Err e))))))"

definition first_active :: "cutover_env \<Rightarrow> (string \<times> cutover_operation) list \<Rightarrow> (string \<times> cutover_operation) option" where
  "first_active cx ops =
     (case cx_iter cx (map fst ops) of
        [] \<Rightarrow> None
      | key # _ \<Rightarrow> map_option (Pair key) (map_of ops key))"

definition execute_atomic_cutover :: "'w outside \<Rightarrow> cutover_env \<Rightarrow> ('w, unit) cutover_action" where
  "execute_atomic_cutover ow cx =
     sbind (supd (\<lambda>s. s\<lparr>cc_state := Transitioning\<rparr>)) (\<lambda>_.
     sbind lock_active (\<lambda>_.
     sbind (\<lambda>s. (s, ok_or (CutInvalidState ''No active cutover operation found'') (first_active cx (cc_active s)))) (\<lambda>(key, op).
     sbind (sres (ok_or MissingTargetEpoch (op_target_epoch op))) (\<lambda>target_epoch_state.
     sbind (sgets (\<lambda>s. es_epoch_id (cc_epoch s))) (\<lambda>current_epoch_id.
     sbind (current_coverage_root cx) (\<lambda>root.
     sbind (read_clock ow) (\<lambda>now.
     sbind (sres (map_err (\<lambda>e. CutInvalidState (message_error_display e))
             (cutover_message_new Commit (encode_epoch_id current_epoch_id)
                (encode_epoch_id (es_epoch_id target_epoch_state)) root (own_key cx) now))) (\<lambda>m.
     sbind (sres (sign_cutover_message cx m)) (\<lambda>commit_message.
     sbind (broadcast_cutover_message ow cx commit_message) (\<lambda>_.
     sbind (supd (\<lambda>s. s\<lparr>cc_consensus :=
              map_option (\<lambda>tk. tk\<lparr>tk_commit_count := tk_required_count tk\<rparr>) (cc_consensus s)\<rparr>)) (\<lambda>_.
     sbind lock_active (\<lambda>_.
     sbind (sgets (\<lambda>s. map_of (cc_active s) key)) (\<lambda>operation.
     sbind (case operation of
              Some state \<Rightarrow> finalize_cutover_commit ow cx key state
            | None \<Rightarrow> sres (Ok ())) (\<lambda>_.
     sbind (supd (\<lambda>s. s\<lparr>cc_active := AList.delete key (cc_active s)\<rparr>)) (\<lambda>_.
     sbind (supd (\<lambda>s. s\<lparr>cc_consensus := None\<rparr>)) (\<lambda>_.
     supd (\<lambda>s. s\<lparr>cc_state := Completed\<rparr>)))))))))))))))))"

subsection \<open>Rollback\<close>

definition rollback_operation ::
  "'w outside \<Rightarrow> cutover_env \<Rightarrow> bytes \<Rightarrow> string \<times> cutover_operation \<Rightarrow> ('w, unit) cutover_action" where
  "rollback_operation ow cx rt entry =
     (case entry of
        (epoch_id_str, operation) \<Rightarrow>
          let target_epoch_id = (case parse_u64 epoch_id_str of Some i \<Rightarrow> i | None \<Rightarrow> 0) in
          sbind (case op_previous_epoch operation of
                   Some previous_epoch \<Rightarrow>
                     sbind (supd (\<lambda>s. s\<lparr>cc_epoch := previous_epoch\<rparr>)) (\<lambda>_.
                     scatch (world_op CutStorage (ow_store_epoch_state ow previous_epoch))
                       (\<lambda>_. sres (Ok ())) (\<lambda>_. sres (Ok ())))
                 | None \<Rightarrow> sres (Ok ())) (\<lambda>_.
          sbind (case op_target_epoch operation of
                   Some target_epoch \<Rightarrow>
                     scatch (secure_delete_old_epoch_keys target_epoch) (\<lambda>_. sres (Ok ())) (\<lambda>_. sres (Ok ()))
                 | None \<Rightarrow> sres (Ok ())) (\<lambda>_.
          sbind (read_clock ow) (\<lambda>now.
          sbind (sres (map_err (\<lambda>e. CutInvalidState (message_error_display e))
                  (cutover_message_new Abort
                     (encode_epoch_id (case op_previous_epoch operation of Some e \<Rightarrow> es_epoch_id e | None \<Rightarrow> target_epoch_id))
                     (encode_epoch_id target_epoch_id) rt (own_key cx) now))) (\<lambda>m.
          sbind (sres (sign_cutover_message cx m)) (\<lambda>abort_message.
          scatch (broadcast_cutover_message ow cx abort_message) (\<lambda>_. sres (Ok ()))
            (\<lambda>e. if e = Deadlocked \<or> e = CutPanicked then sres (Err e) else sres (Ok ()))))))))"

primrec rollback_operations ::
  "'w outside \<Rightarrow> cutover_env \<Rightarrow> bytes \<Rightarrow> (string \<times> cutover_operation) list \<Rightarrow> ('w, unit) cutover_action" where
  "rollback_operations ow cx rt [] = sres (Ok ())"
| "rollback_operations ow cx rt (entry # entries) =
     sbind (rollback_operation ow cx rt entry) (\<lambda>_. rollback_operations ow cx rt entries)"

definition initiate_rollback :: "'w outside \<Rightarrow> cutover_env \<Rightarrow> ('w, unit) cutover_action" where
  "initiate_rollback ow cx =
     sbind (supd (\<lambda>s. s\<lparr>cc_rollback_attempts := cc_rollback_attempts s + 1\<rparr>)) (\<lambda>_.
     sbind (sgets cc_rollback_attempts) (\<lambda>attempts.
     sbind (sres (guard (\<not> cf_max_rollback_attempts (cx_config cx) < attempts)
             (RollbackFailed ''Maximum rollback attempts exceeded''))) (\<lambda>_.
     sbind (supd (\<lambda>s. s\<lparr>cc_state := RollingBack\<rparr>)) (\<lambda>_.
     sbind (scatch (current_coverage_root cx) (\<lambda>root. sres (Ok root))
              (\<lambda>e. if e = CutPanicked then sres (Err e) else sres (Ok []))) (\<lambda>root.
     sbind lock_active (\<lambda>_.
     sbind (\<lambda>s. (s\<lparr>cc_active := []\<rparr>,
               Ok (map (\<lambda>key. (key, the (map_of (cc_active s) key))) (cx_iter cx (map fst (cc_active s)))))) (\<lambda>failed_states.
     sbind (rollback_operations ow cx root failed_states) (\<lambda>_.
     sbind (supd (\<lambda>s. s\<lparr>cc_consensus := None\<rparr>)) (\<lambda>_.
     sbind (supd (\<lambda>s. s\<lparr>cc_rollback_attempts := 0\<rparr>)) (\<lambda>_.
     supd (\<lambda>s. s\<lparr>cc_state := RolledBack\<rparr>)))))))))))"

subsection \<open>Handling messages\<close>

definition authorize_peer :: "bytes \<Rightarrow> ('w, unit) cutover_action" where
  "authorize_peer sender = sbind read_peers (\<lambda>peers. sres (guard (sender \<in> set peers) SignatureFailure))"

definition verify_sender_authorization :: "'w outside \<Rightarrow> cutover_env \<Rightarrow> bytes \<Rightarrow> ('w, unit) cutover_action" where
  "verify_sender_authorization ow cx sender =
     (if sender = own_key cx then sres (Ok ())
      else
        sbind (authorize_peer sender) (\<lambda>_.
        sbind (world_op CutNetwork (ow_list_peers ow)) (\<lambda>infos.
        sres (guard (list_ex (\<lambda>p. pi_public_key p = sender \<and> pi_status p = PsConnected) infos)
          (CutNetwork ''Authorized sender is not currently connected'')))))"

definition handle_cutover_prepare ::
  "'w outside \<Rightarrow> cutover_env \<Rightarrow> cutover_message \<Rightarrow> bytes \<Rightarrow> ('w, unit) cutover_action" where
  "handle_cutover_prepare ow cx message sender =
     sbind (authorize_peer sender) (\<lambda>_.
     sbind (sres (verify_cutover_signature cx message sender)) (\<lambda>_.
     sbind (sres (parse_epoch_id (ct_to_epoch_id message))) (\<lambda>target_epoch_id.
     sbind (ensure_cutover_context ow cx target_epoch_id) (\<lambda>_.
     sbind lock_active (\<lambda>_.
     supd (\<lambda>s. case map_of (cc_active s) (epoch_key target_epoch_id) of
                 Some operation \<Rightarrow> set_operation (epoch_key target_epoch_id) (operation\<lparr>op_status := Preparing\<rparr>) s
               | None \<Rightarrow> s))))))"

definition handle_cutover_proposal ::
  "'w outside \<Rightarrow> cutover_env \<Rightarrow> cutover_message \<Rightarrow> bytes \<Rightarrow> ('w, unit) cutover_action" where
  "handle_cutover_proposal ow cx message sender =
     sbind (authorize_peer sender) (\<lambda>_.
     sbind (sres (verify_cutover_signature cx message sender)) (\<lambda>_.
     sbind (sres (parse_epoch_id (ct_to_epoch_id message))) (\<lambda>target_epoch_id.
     sbind (ensure_cutover_context ow cx target_epoch_id) (\<lambda>_.
     sbind (evaluate_cutover_proposal cx message) (\<lambda>vote.
     cast_cutover_vote ow cx vote message)))))"

definition count_vote :: "bytes \<Rightarrow> cutover_vote \<Rightarrow> consensus_tracker \<Rightarrow> consensus_tracker" where
  "count_vote sender vote tracker =
     (if sender \<in> tk_participants tracker then tracker
      else tracker\<lparr>tk_participants := insert sender (tk_participants tracker),
                   tk_commit_count := (if vote = Approve then tk_commit_count tracker + 1 else tk_commit_count tracker)\<rparr>)"

definition handle_cutover_vote ::
  "cutover_env \<Rightarrow> cutover_message \<Rightarrow> bytes \<Rightarrow> ('w, unit) cutover_action" where
  "handle_cutover_vote cx message sender =
     sbind (sres (verify_cutover_signature cx message sender)) (\<lambda>_.
     sbind (sgets cc_consensus) (\<lambda>consensus.
     case consensus of
       Some tracker \<Rightarrow>
         sbind (sres (ok_or (CutInvalidState ''Missing vote field'') (ct_vote message))) (\<lambda>vote.
         supd (\<lambda>s. s\<lparr>cc_consensus := Some (count_vote sender vote tracker)\<rparr>))
     | None \<Rightarrow> sres (Ok ())))"

definition handle_cutover_commit ::
  "'w outside \<Rightarrow> cutover_env \<Rightarrow> cutover_message \<Rightarrow> bytes \<Rightarrow> ('w, unit) cutover_action" where
  "handle_cutover_commit ow cx message sender =
     sbind (sres (parse_epoch_id (ct_to_epoch_id message))) (\<lambda>target_epoch_id.
     let key = epoch_key target_epoch_id in
     sbind (sres (guard (ct_phase message = Commit) InvalidPhase)) (\<lambda>_.
     sbind (verify_sender_authorization ow cx sender) (\<lambda>_.
     sbind (sres (verify_cutover_signature cx message sender)) (\<lambda>_.
     sbind (ensure_cutover_context ow cx target_epoch_id) (\<lambda>_.
     sbind (current_coverage_root cx) (\<lambda>expected_root.
     sbind (sres (guard (expected_root = ct_coverage_root message)
             (CoverageFailure ''Commit message coverage root mismatch''))) (\<lambda>_.
     sbind lock_active (\<lambda>_.
     sbind (\<lambda>s. (s, ok_or NoCutoverInProgress (map_of (cc_active s) key))) (\<lambda>state.
     case op_consensus state of
       Some consensus \<Rightarrow>
         let consensus = count_vote sender Approve consensus;
             state = state\<lparr>op_consensus := Some consensus\<rparr>
         in sbind (supd (set_operation key state)) (\<lambda>_.
            if tk_required_count consensus \<le> tk_commit_count consensus then
              sbind (finalize_cutover_commit ow cx key state) (\<lambda>_.
              supd (\<lambda>s. s\<lparr>cc_active := AList.delete key (cc_active s)\<rparr>))
            else sres (Ok ()))
     | None \<Rightarrow> sres (Ok ()))))))))))"

text \<open>
  The abort handler keeps the guard on the active cutovers while it runs the rollback; it is dropped
  when the handler returns, and never if the handler waits for it itself.
\<close>

definition release_active :: "('w, 'a) cutover_action \<Rightarrow> ('w, 'a) cutover_action" where
  "release_active m s =
     (case m s of (t, r) \<Rightarrow> (if r = Err Deadlocked then t else t\<lparr>cc_active_locked := False\<rparr>, r))"

definition handle_cutover_abort ::
  "'w outside \<Rightarrow> cutover_env \<Rightarrow> cutover_message \<Rightarrow> bytes \<Rightarrow> ('w, unit) cutover_action" where
  "handle_cutover_abort ow cx message sender =
     (let epoch_id = cx_from_utf8_lossy cx (ct_to_epoch_id message) in
      sbind (sres (guard (ct_phase message = Abort) InvalidPhase)) (\<lambda>_.
      sbind (verify_sender_authorization ow cx sender) (\<lambda>_.
      sbind lock_active (\<lambda>_.
      release_active
        (sbind (supd (\<lambda>s. s\<lparr>cc_active_locked := True\<rparr>)) (\<lambda>_.
         sbind (sgets (\<lambda>s. map_of (cc_active s) epoch_id)) (\<lambda>operation.
         sbind (case operation of
                  Some state \<Rightarrow>
                    sbind (read_clock ow) (\<lambda>now.
                    supd (set_operation epoch_id (state\<lparr>op_status := Aborted, op_completed_at := Some now\<rparr>)))
                | None \<Rightarrow> sres (Ok ())) (\<lambda>_.
         initiate_rollback ow cx))))))))"

definition process_cutover_message ::
  "'w outside \<Rightarrow> cutover_env \<Rightarrow> cutover_message \<Rightarrow> bytes \<Rightarrow> ('w, unit) cutover_action" where
  "process_cutover_message ow cx message sender =
     (case ct_phase message of
        Prepare \<Rightarrow> handle_cutover_prepare ow cx message sender
      | Proposal \<Rightarrow> handle_cutover_proposal ow cx message sender
      | Vote \<Rightarrow> handle_cutover_vote cx message sender
      | Commit \<Rightarrow> handle_cutover_commit ow cx message sender
      | Abort \<Rightarrow> handle_cutover_abort ow cx message sender)"

definition get_state :: "'w coordinator \<Rightarrow> cutover_state" where
  "get_state s = cc_state s"

text \<open>The effect of a writer on the peer set: \<open>add_peer\<close> and \<open>remove_peer\<close> once they get the lock.\<close>

definition write_peers :: "bool \<times> bytes \<Rightarrow> bytes list \<Rightarrow> bytes list" where
  "write_peers w peers =
     (case w of
        (True, key) \<Rightarrow> if key \<in> set peers then peers else peers @ [key]
      | (False, key) \<Rightarrow> filter (\<lambda>k. k \<noteq> key) peers)"

definition change_peers :: "bool \<times> bytes \<Rightarrow> 'w coordinator \<Rightarrow> 'w coordinator" where
  "change_peers w s =
     (if cc_peer_guard s then s\<lparr>cc_peer_writers := cc_peer_writers s @ [w]\<rparr>
      else s\<lparr>cc_peers := write_peers w (cc_peers s)\<rparr>)"

definition add_peer :: "bytes \<Rightarrow> 'w coordinator \<Rightarrow> 'w coordinator" where
  "add_peer peer_key = change_peers (True, peer_key)"

definition remove_peer :: "bytes \<Rightarrow> 'w coordinator \<Rightarrow> 'w coordinator" where
  "remove_peer peer_key = change_peers (False, peer_key)"

definition release_peer_guard :: "'w coordinator \<Rightarrow> 'w coordinator" where
  "release_peer_guard s =
     s\<lparr>cc_peer_guard := False, cc_peers := foldl (\<lambda>ps w. write_peers w ps) (cc_peers s) (cc_peer_writers s),
       cc_peer_writers := []\<rparr>"

subsection \<open>Initiating a cutover\<close>

text \<open>What other tasks do while \<open>monitor_consensus\<close> sleeps.\<close>

datatype cutover_event = EvMessage cutover_message bytes | EvAddPeer bytes | EvRemovePeer bytes

fun handle_event :: "'w outside \<Rightarrow> cutover_env \<Rightarrow> cutover_event \<Rightarrow> 'w coordinator \<Rightarrow> 'w coordinator" where
  "handle_event ow cx (EvMessage m sender) s = fst (process_cutover_message ow cx m sender s)"
| "handle_event ow cx (EvAddPeer k) s = add_peer k s"
| "handle_event ow cx (EvRemovePeer k) s = remove_peer k s"

definition handle_events :: "'w outside \<Rightarrow> cutover_env \<Rightarrow> cutover_event list \<Rightarrow> 'w coordinator \<Rightarrow> 'w coordinator" where
  "handle_events ow cx evs s = fold (handle_event ow cx) evs s"

text \<open>
  One element of the schedule per sleep: the events handled during it. When the schedule ends before
  the loop does, the call has not returned (\<open>None\<close>).
\<close>

fun monitor_consensus ::
  "'w outside \<Rightarrow> cutover_env \<Rightarrow> cutover_event list list \<Rightarrow> 'w coordinator \<Rightarrow> 'w coordinator \<times> (unit, cutover_error) result option" where
  "monitor_consensus ow cx [] s = (s, None)"
| "monitor_consensus ow cx (evs # schedule) s =
     (let s = handle_events ow cx evs s in
      case cc_consensus s of
        None \<Rightarrow> (s, Some (Err (CutInvalidState ''No consensus tracker'')))
      | Some tracker \<Rightarrow>
          if tk_required_count tracker \<le> tk_commit_count tracker
          then (case execute_atomic_cutover ow cx s of (t, r) \<Rightarrow> (t, Some r))
          else monitor_consensus ow cx schedule s)"

definition propose_cutover :: "'w outside \<Rightarrow> cutover_env \<Rightarrow> epoch_state \<Rightarrow> epoch_state \<Rightarrow> ('w, unit) cutover_action" where
  "propose_cutover ow cx current_epoch target_epoch =
     sbind read_peers (\<lambda>peers.
     sbind (supd (\<lambda>s. s\<lparr>cc_peer_guard := True\<rparr>)) (\<lambda>_.
     let tracker = \<lparr>tk_commit_count = 0, tk_required_count = required_commits cx (length peers), tk_participants = {}\<rparr> in
     sbind (supd (\<lambda>s. s\<lparr>cc_consensus := Some tracker\<rparr>)) (\<lambda>_.
     sbind lock_active (\<lambda>_.
     sbind (read_clock ow) (\<lambda>now.
     sbind (supd (set_operation (epoch_key (es_epoch_id target_epoch))
              \<lparr>op_target_epoch = Some target_epoch, op_previous_epoch = Some current_epoch, op_status = InConsensus,
               op_started_at = now, op_completed_at = None, op_consensus = Some tracker\<rparr>)) (\<lambda>_.
     sbind (create_cutover_proposal ow cx current_epoch target_epoch) (\<lambda>proposal.
     broadcast_cutover_message ow cx proposal)))))))"

text \<open>A call blocked for ever keeps its peer guard.\<close>

definition start_consensus ::
  "'w outside \<Rightarrow> cutover_env \<Rightarrow> cutover_event list list \<Rightarrow> epoch_state \<Rightarrow> epoch_state \<Rightarrow>
   'w coordinator \<Rightarrow> 'w coordinator \<times> (unit, cutover_error) result option" where
  "start_consensus ow cx schedule current_epoch target_epoch s =
     (case propose_cutover ow cx current_epoch target_epoch s of
        (t, Err e) \<Rightarrow> (if e = Deadlocked then t else release_peer_guard t, Some (Err e))
      | (t, Ok _) \<Rightarrow>
          (case monitor_consensus ow cx schedule t of
             (u, None) \<Rightarrow> (u, None)
           | (u, Some r) \<Rightarrow> (if r = Err Deadlocked then u else release_peer_guard u, Some r)))"

definition begin_validation :: "('w, unit) cutover_action" where
  "begin_validation s =
     (if cc_state s = Idle then (s\<lparr>cc_state := Validation\<rparr>, Ok ())
      else (s, Err (CutInvalidState ''Cutover already in progress'')))"

definition coord_initiate_cutover ::
  "'w outside \<Rightarrow> cutover_env \<Rightarrow> cutover_event list list \<Rightarrow> epoch_state \<Rightarrow> epoch_state \<Rightarrow>
   'w coordinator \<Rightarrow> 'w coordinator \<times> (unit, cutover_error) result option" where
  "coord_initiate_cutover ow cx schedule current_epoch target_epoch s =
     (case sbind begin_validation (\<lambda>_.
           sbind (validate_cutover_readiness ow cx current_epoch target_epoch) (\<lambda>_.
           supd (\<lambda>s. s\<lparr>cc_state := AwaitingConsensus\<rparr>))) s of
        (t, Err e) \<Rightarrow> (t, Some (Err e))
      | (t, Ok _) \<Rightarrow> start_consensus ow cx schedule current_epoch target_epoch t)"

subsection \<open>What every step keeps\<close>

definition keeps :: "('s \<Rightarrow> bool) \<Rightarrow> ('s, 'a, 'e) action \<Rightarrow> bool" where
  "keeps J m \<longleftrightarrow> (\<forall>s t r. m s = (t, r) \<longrightarrow> J s \<longrightarrow> J t)"

named_theorems keeps_intros \<open>actions that keep a predicate\<close>

lemma keepsI: "(\<And>s t r. m s = (t, r) \<Longrightarrow> J s \<Longrightarrow> J t) \<Longrightarrow> keeps J m"
  by (auto simp: keeps_def)

lemma keepsD: "keeps J m \<Longrightarrow> m s = (t, r) \<Longrightarrow> J s \<Longrightarrow> J t"
  by (auto simp: keeps_def)

lemma keeps_fst: "keeps J m \<Longrightarrow> J s \<Longrightarrow> J (fst (m s))"
  by (cases "m s") (auto dest: keepsD)

lemma keeps_preserves: "keeps J m \<longleftrightarrow> preserves (\<lambda>s t. J s \<longrightarrow> J t) m"
  by (auto simp: keeps_def preserves_def)

lemma keeps_sres [keeps_intros]: "keeps J (sres r)"
  by (simp add: keeps_def sres_def)

lemma keeps_sgets [keeps_intros]: "keeps J (sgets f)"
  by (simp add: keeps_def sgets_def)

lemma keeps_sbind [keeps_intros]: "keeps J m \<Longrightarrow> (\<And>a. keeps J (f a)) \<Longrightarrow> keeps J (sbind m f)"
  unfolding keeps_preserves by (rule preserves_sbind) (auto intro: reflpI transpI)

lemma keeps_scatch [keeps_intros]:
  "keeps J m \<Longrightarrow> (\<And>a. keeps J (f a)) \<Longrightarrow> (\<And>e. keeps J (g e)) \<Longrightarrow> keeps J (scatch m f g)"
  unfolding keeps_preserves by (rule preserves_scatch) (auto intro: transpI)

lemma keeps_supd: "(\<And>s. J s \<Longrightarrow> J (f s)) \<Longrightarrow> keeps J (supd f)"
  by (simp add: keeps_def supd_def)

lemma keeps_read [keeps_intros]: "keeps J (\<lambda>s. (s, f s))"
  by (simp add: keeps_def)

lemma keeps_lock_active [keeps_intros]: "keeps J lock_active"
  by (simp add: keeps_def lock_active_def)

lemma keeps_read_peers [keeps_intros]: "keeps J read_peers"
  by (simp add: keeps_def read_peers_def)

lemma keeps_current_coverage_root [keeps_intros]: "keeps J (current_coverage_root cx)"
  by (simp add: keeps_def current_coverage_root_def Let_def split: result.splits coverage_error.splits)

lemma keeps_case_option [keeps_intros]:
  "keeps J m \<Longrightarrow> (\<And>x. keeps J (f x)) \<Longrightarrow> keeps J (case z of None \<Rightarrow> m | Some x \<Rightarrow> f x)"
  by (cases z) auto

lemma keeps_if [keeps_intros]: "keeps J m \<Longrightarrow> keeps J n \<Longrightarrow> keeps J (if b then m else n)"
  by simp

text \<open>A step that reads the peers and at once changes the state with what it read.\<close>

lemma keeps_read_peers_supd:
  assumes "\<And>s. J s \<Longrightarrow> cc_peer_writers s = [] \<Longrightarrow> J (f (cc_peers s) s)" "\<And>p. keeps J (g p)"
  shows "keeps J (sbind read_peers (\<lambda>p. sbind (supd (f p)) (\<lambda>_. g p)))"
  using assms by (intro keepsI) (auto simp: sbind_def read_peers_def supd_def dest: keepsD split: if_splits)

text \<open>A predicate that does not depend on the world and the coverage manager.\<close>

locale coord_frame =
  fixes J :: "'w coordinator \<Rightarrow> bool"
  assumes J_world: "J s \<Longrightarrow> J (s\<lparr>cc_world := w\<rparr>)"
    and J_coverage: "J s \<Longrightarrow> J (s\<lparr>cc_coverage := c\<rparr>)"
begin

lemma keeps_world_op: "keeps J (world_op err f)"
  by (rule keepsI) (auto simp: world_op_def J_world split: prod.splits)

lemma keeps_read_clock: "keeps J (read_clock ow)"
  by (rule keepsI) (auto simp: read_clock_def J_world split: prod.splits)

lemma keeps_verify_coverage: "keeps J (verify_coverage_integrity cx err)"
  by (rule keepsI) (auto simp: verify_coverage_integrity_def J_coverage split: prod.splits)

lemma keeps_readiness: "keeps J (validate_cutover_readiness ow cx cur tgt)"
  unfolding validate_cutover_readiness_def validate_network_connectivity_def validate_storage_integrity_def Let_def
  by (intro keeps_intros keeps_world_op keeps_verify_coverage)

end

text \<open>
  A predicate on coordinators that the message handlers cannot break: it does not depend, moreover, on
  the active cutovers, the epoch and the counters, and it survives the ways in
  which handlers change the state tag, the consensus tracker and the peer set. \<open>allowed\<close> says which
  messages are delivered.
\<close>

locale coord_invariant = coord_frame J for J :: "'w coordinator \<Rightarrow> bool" +
  fixes cx :: cutover_env
    and allowed :: "cutover_message \<Rightarrow> bytes \<Rightarrow> bool"
  assumes J_active: "J s \<Longrightarrow> J (s\<lparr>cc_active := a\<rparr>)"
    and J_epoch: "J s \<Longrightarrow> J (s\<lparr>cc_epoch := e\<rparr>)"
    and J_sequence: "J s \<Longrightarrow> J (s\<lparr>cc_sequence := n\<rparr>)"
    and J_attempts: "J s \<Longrightarrow> J (s\<lparr>cc_rollback_attempts := j\<rparr>)"
    and J_locked: "J s \<Longrightarrow> J (s\<lparr>cc_active_locked := b\<rparr>)"
    and J_state: "J s \<Longrightarrow> st \<noteq> Idle \<Longrightarrow> J (s\<lparr>cc_state := st\<rparr>)"
    and J_clear: "J s \<Longrightarrow> J (s\<lparr>cc_consensus := None\<rparr>)"
    and J_raise: "J s \<Longrightarrow> cc_peer_writers s = [] \<Longrightarrow>
      J (s\<lparr>cc_consensus := Some
        (case cc_consensus s of
           None \<Rightarrow> \<lparr>tk_commit_count = 0, tk_required_count = required_commits cx (length (cc_peers s)), tk_participants = {}\<rparr>
         | Some tk \<Rightarrow> tk\<lparr>tk_required_count := max (tk_required_count tk) (required_commits cx (length (cc_peers s)))\<rparr>)\<rparr>)"
    and J_vote: "J s \<Longrightarrow> cc_consensus s = Some tk \<Longrightarrow> allowed m k \<Longrightarrow> ct_phase m = Vote \<Longrightarrow> ct_vote m = Some v \<Longrightarrow>
      verify_cutover_signature cx m k = Ok () \<Longrightarrow> J (s\<lparr>cc_consensus := Some (count_vote k v tk)\<rparr>)"
    and J_peers: "J s \<Longrightarrow> \<not> cc_peer_guard s \<Longrightarrow> J (s\<lparr>cc_peers := p\<rparr>)"
    and J_writers: "J s \<Longrightarrow> cc_peer_guard s \<Longrightarrow> J (s\<lparr>cc_peer_writers := ws\<rparr>)"
begin

lemma keeps_set_operation: "keeps J (supd (set_operation key x))"
  by (rule keeps_supd) (simp add: set_operation_def J_active)

lemma keeps_secure_delete: "keeps J (secure_delete_old_epoch_keys e)"
  by (simp add: keeps_def secure_delete_old_epoch_keys_def)

lemma keeps_supds:
  "keeps J (supd (\<lambda>s. s\<lparr>cc_epoch := e\<rparr>))"
  "keeps J (supd (\<lambda>s. s\<lparr>cc_active := g s\<rparr>))"
  "keeps J (supd (\<lambda>s. s\<lparr>cc_consensus := None\<rparr>))"
  "keeps J (supd (\<lambda>s. s\<lparr>cc_rollback_attempts := h s\<rparr>))"
  "keeps J (supd (\<lambda>s. s\<lparr>cc_active_locked := b\<rparr>))"
  by (rule keeps_supd, simp add: J_epoch J_active J_clear J_attempts J_locked)+

lemmas keeps_base = keeps_world_op keeps_read_clock keeps_verify_coverage keeps_set_operation keeps_secure_delete keeps_supds

lemma keeps_send: "keeps J (send_to_peers ow m ps)"
  by (induction ps) (auto intro!: keeps_intros keeps_base)

lemma keeps_broadcast: "keeps J (broadcast_cutover_message ow cx m)"
  unfolding broadcast_cutover_message_def
  by (intro keeps_intros keeps_base keeps_send) (auto intro!: keepsI simp: J_sequence)

lemma keeps_finalize: "keeps J (finalize_cutover_commit ow cx key x)"
  unfolding finalize_cutover_commit_def by (intro keeps_intros keeps_base)

lemma keeps_ensure_add: "keeps J (supd (\<lambda>s. s\<lparr>cc_active := if c s then cc_active s else g s\<rparr>))"
  by (rule keeps_supd) (simp add: J_active)

lemma keeps_ensure_set:
  "keeps J (supd (\<lambda>s. case cc_consensus s of Some tk \<Rightarrow> s\<lparr>cc_active := g tk s\<rparr> | None \<Rightarrow> s))"
  by (rule keeps_supd) (auto simp: J_active split: option.split)

lemma keeps_ensure: "keeps J (ensure_cutover_context ow cx i)"
  unfolding ensure_cutover_context_def Let_def
  by (intro keeps_sbind [of J lock_active] keeps_sbind [of J "sgets f" for f] keeps_sbind [of J "if b then m else n" for b m n]
      keeps_read_peers_supd keeps_intros keeps_base keeps_ensure_add keeps_ensure_set J_raise)

lemma keeps_prepare_set:
  "keeps J (supd (\<lambda>s. case map_of (cc_active s) key of Some x \<Rightarrow> set_operation key (g x) s | None \<Rightarrow> s))"
  by (rule keeps_supd) (auto simp: set_operation_def J_active split: option.split)

lemma keeps_authorize: "keeps J (authorize_peer k)"
  unfolding authorize_peer_def by (intro keeps_intros)

lemma keeps_authorization: "keeps J (verify_sender_authorization ow cx k)"
  unfolding verify_sender_authorization_def by (intro keeps_intros keeps_base keeps_authorize)

lemma keeps_prepare: "keeps J (handle_cutover_prepare ow cx m k)"
  unfolding handle_cutover_prepare_def
  by (intro keeps_intros keeps_base keeps_authorize keeps_ensure keeps_prepare_set)

lemma keeps_proposal: "keeps J (handle_cutover_proposal ow cx m k)"
  unfolding handle_cutover_proposal_def evaluate_cutover_proposal_def cast_cutover_vote_def
  by (intro keeps_intros keeps_base keeps_authorize keeps_ensure keeps_broadcast)

lemma keeps_vote: "allowed m k \<Longrightarrow> ct_phase m = Vote \<Longrightarrow> keeps J (handle_cutover_vote cx m k)"
  by (rule keepsI)
    (auto simp: handle_cutover_vote_def sbind_def sres_def sgets_def supd_def J_vote ok_or_Ok_iff
      split: result.splits option.splits)

lemma keeps_commit: "keeps J (handle_cutover_commit ow cx m k)"
  unfolding handle_cutover_commit_def Let_def
  by (intro keeps_intros keeps_base keeps_authorization keeps_ensure keeps_finalize)

lemma keeps_rollback_operation: "keeps J (rollback_operation ow cx rt x)"
  unfolding rollback_operation_def Let_def
  by (cases x) (simp, intro keeps_intros keeps_base keeps_broadcast)

lemma keeps_rollback_operations: "keeps J (rollback_operations ow cx rt xs)"
  by (induction xs) (auto intro!: keeps_intros keeps_rollback_operation)

lemma keeps_drain: "keeps J (\<lambda>s. (s\<lparr>cc_active := []\<rparr>, f s))"
  by (rule keepsI) (auto simp: J_active)

lemma keeps_tag: "st \<noteq> Idle \<Longrightarrow> keeps J (supd (\<lambda>s. s\<lparr>cc_state := st\<rparr>))"
  by (rule keeps_supd) (rule J_state)

lemma keeps_rollback: "keeps J (initiate_rollback ow cx)"
  unfolding initiate_rollback_def
  by (intro keeps_intros keeps_base keeps_rollback_operations keeps_drain keeps_tag) simp_all

lemma keeps_release: "keeps J m \<Longrightarrow> keeps J (release_active m)"
  by (rule keepsI) (auto simp: release_active_def dest: keepsD intro: J_locked split: prod.splits if_splits)

lemma keeps_abort: "keeps J (handle_cutover_abort ow cx m k)"
  unfolding handle_cutover_abort_def Let_def
  by (intro keeps_intros keeps_base keeps_authorization keeps_release keeps_rollback)

lemma keeps_process: "allowed m k \<Longrightarrow> keeps J (process_cutover_message ow cx m k)"
  by (auto simp: process_cutover_message_def keeps_prepare keeps_proposal keeps_vote keeps_commit keeps_abort
      split: cutover_phase.split)

lemma J_change_peers: "J s \<Longrightarrow> J (change_peers w s)"
  by (auto simp: change_peers_def J_peers J_writers)

lemma J_event: "J s \<Longrightarrow> (\<And>m k. ev = EvMessage m k \<Longrightarrow> allowed m k) \<Longrightarrow> J (handle_event ow cx ev s)"
  by (cases ev) (auto simp: add_peer_def remove_peer_def J_change_peers intro: keeps_fst [OF keeps_process])

lemma J_events: "J s \<Longrightarrow> (\<And>m k. EvMessage m k \<in> set evs \<Longrightarrow> allowed m k) \<Longrightarrow> J (handle_events ow cx evs s)"
  unfolding handle_events_def
proof (induction evs arbitrary: s)
  case (Cons ev evs)
  then show ?case by (auto intro!: Cons.IH J_event)
qed simp

end

text \<open>A predicate that, moreover, no part of initiating a cutover can break.\<close>

locale coord_total_invariant = coord_invariant J cx "\<lambda>_ _. True"
  for J :: "'w coordinator \<Rightarrow> bool" and cx :: cutover_env +
  assumes J_consensus: "J s \<Longrightarrow> J (s\<lparr>cc_consensus := c\<rparr>)"
    and J_guard: "J s \<Longrightarrow> J (s\<lparr>cc_peer_guard := b\<rparr>)"
    and J_release: "J s \<Longrightarrow> J (release_peer_guard s)"
begin

lemma keeps_consensus: "keeps J (supd (\<lambda>s. s\<lparr>cc_consensus := g s\<rparr>))"
  by (rule keeps_supd) (rule J_consensus)

lemma keeps_guard: "keeps J (supd (\<lambda>s. s\<lparr>cc_peer_guard := b\<rparr>))"
  by (rule keeps_supd) (rule J_guard)

lemma keeps_execute: "keeps J (execute_atomic_cutover ow cx)"
  unfolding execute_atomic_cutover_def split_beta
  by (intro keeps_intros keeps_base keeps_broadcast keeps_finalize keeps_consensus keeps_tag) simp_all

lemma J_monitor: "J s \<Longrightarrow> J (fst (monitor_consensus ow cx schedule s))"
proof (induction schedule arbitrary: s)
  case (Cons evs schedule)
  have J: "J (handle_events ow cx evs s)" by (rule J_events [OF Cons.prems]) simp
  with Cons.IH [OF J] keeps_fst [OF keeps_execute J, of ow] show ?case
    by (simp add: Let_def split_beta split: option.split)
qed simp

lemma keeps_propose: "keeps J (propose_cutover ow cx cur tgt)"
  unfolding propose_cutover_def create_cutover_proposal_def Let_def
  by (intro keeps_intros keeps_base keeps_broadcast keeps_consensus keeps_guard)

lemma J_start: "J s \<Longrightarrow> J (fst (start_consensus ow cx schedule cur tgt s))"
proof -
  assume s: "J s"
  obtain t r where p: "propose_cutover ow cx cur tgt s = (t, r)" by (cases "propose_cutover ow cx cur tgt s")
  then have t: "J t" using keepsD [OF keeps_propose] s by blast
  obtain u q where mon: "monitor_consensus ow cx schedule t = (u, q)" by (cases "monitor_consensus ow cx schedule t")
  then have "J u" using J_monitor [OF t, of ow schedule] by simp
  with t show ?thesis
    by (simp add: start_consensus_def p mon J_release split: result.split option.split)
qed

end

interpretation not_idle: coord_total_invariant "\<lambda>s. cc_state s \<noteq> Idle" cx for cx
  by unfold_locales (simp_all add: release_peer_guard_def)

text \<open>Any call of the public interface, with the schedule of the events during its sleeps.\<close>

datatype coord_call =
    CallInitiate "cutover_event list list" epoch_state epoch_state
  | CallEvent cutover_event

fun coord_call_step :: "'w outside \<Rightarrow> cutover_env \<Rightarrow> coord_call \<Rightarrow> 'w coordinator \<Rightarrow> 'w coordinator" where
  "coord_call_step ow cx (CallInitiate schedule cur tgt) s = fst (coord_initiate_cutover ow cx schedule cur tgt s)"
| "coord_call_step ow cx (CallEvent ev) s = handle_event ow cx ev s"

lemma sbind_run: "m s = (u, q) \<Longrightarrow> sbind m f s = (case q of Ok a \<Rightarrow> f a u | Err e \<Rightarrow> (u, Err e))"
  by (simp add: sbind_def)

lemma initiate_not_idle: "cc_state (fst (coord_initiate_cutover ow cx schedule cur tgt s)) \<noteq> Idle"
proof -
  let ?m = "sbind (validate_cutover_readiness ow cx cur tgt) (\<lambda>_. supd (\<lambda>s. s\<lparr>cc_state := AwaitingConsensus\<rparr>))"
  obtain u q where b: "begin_validation s = (u, q)" by (cases "begin_validation s")
  then have u: "cc_state u \<noteq> Idle" by (auto simp: begin_validation_def split: if_splits)
  obtain t r where run: "sbind begin_validation (\<lambda>_. ?m) s = (t, r)" by (cases "sbind begin_validation (\<lambda>_. ?m) s")
  have "keeps (\<lambda>s. cc_state s \<noteq> Idle) ?m"
    by (intro keeps_sbind not_idle.keeps_readiness not_idle.keeps_tag) simp
  from keepsD [OF this _ u] have t: "cc_state t \<noteq> Idle"
    using run u unfolding sbind_run [of begin_validation, OF b] by (cases q) auto
  then have "cc_state (fst (start_consensus ow cx schedule cur tgt t)) \<noteq> Idle" by (rule not_idle.J_start)
  with t show ?thesis unfolding coord_initiate_cutover_def run by (cases r) auto
qed

lemma call_not_idle:
  assumes "cc_state s \<noteq> Idle"
  shows "cc_state (coord_call_step ow cx c s) \<noteq> Idle"
proof (cases c)
  case (CallInitiate schedule cur tgt)
  then show ?thesis using initiate_not_idle by simp
next
  case (CallEvent ev)
  then show ?thesis using not_idle.J_event [OF assms, of ev ow cx] by simp
qed

lemma calls_not_idle: "cc_state s \<noteq> Idle \<Longrightarrow> cc_state (fold (coord_call_step ow cx) cs s) \<noteq> Idle"
  by (induction cs arbitrary: s) (simp_all add: call_not_idle)

subsection \<open>Votes\<close>

definition approved :: "cutover_env \<Rightarrow> cutover_event list \<Rightarrow> bytes \<Rightarrow> bool" where
  "approved cx evs k \<longleftrightarrow>
     (\<exists>m. EvMessage m k \<in> set evs \<and> ct_phase m = Vote \<and> ct_vote m = Some Approve \<and>
          verify_cutover_signature cx m k = Ok ())"

definition counted :: "cutover_env \<Rightarrow> cutover_event list \<Rightarrow> consensus_tracker \<Rightarrow> bool" where
  "counted cx evs tk \<longleftrightarrow>
     (\<exists>A. finite A \<and> A \<subseteq> tk_participants tk \<and> card A = tk_commit_count tk \<and> (\<forall>k \<in> A. approved cx evs k))"

definition quorum_inv :: "cutover_env \<Rightarrow> bytes list \<Rightarrow> cutover_event list \<Rightarrow> 'w coordinator \<Rightarrow> bool" where
  "quorum_inv cx ps evs s \<longleftrightarrow>
     cc_peer_guard s \<and> cc_peers s = ps \<and>
     (case cc_consensus s of
        None \<Rightarrow> True
      | Some tk \<Rightarrow> required_commits cx (length ps) \<le> tk_required_count tk \<and> counted cx evs tk)"

lemma counted_new: "counted cx evs \<lparr>tk_commit_count = 0, tk_required_count = n, tk_participants = {}\<rparr>"
  by (auto simp: counted_def intro!: exI [of _ "{}"])

lemma counted_raise [simp]: "counted cx evs (tk\<lparr>tk_required_count := n\<rparr>) \<longleftrightarrow> counted cx evs tk"
  by (simp add: counted_def)

lemma required_count_vote [simp]: "tk_required_count (count_vote k v tk) = tk_required_count tk"
  by (simp add: count_vote_def)

lemma counted_vote:
  assumes "counted cx evs tk" "v = Approve \<Longrightarrow> approved cx evs k"
  shows "counted cx evs (count_vote k v tk)"
proof (cases "k \<in> tk_participants tk")
  case True
  with assms show ?thesis by (simp add: count_vote_def)
next
  case False
  from assms(1) obtain A where A: "finite A" "A \<subseteq> tk_participants tk" "card A = tk_commit_count tk"
    "\<forall>k \<in> A. approved cx evs k"
    unfolding counted_def by blast
  have "k \<notin> A" using A(2) False by blast
  show ?thesis
  proof (cases v)
    case Approve
    with A False \<open>k \<notin> A\<close> assms(2) show ?thesis
      unfolding counted_def by (intro exI [of _ "insert k A"]) (auto simp: count_vote_def)
  next
    case Reject
    with A False show ?thesis
      unfolding counted_def by (intro exI [of _ A]) (auto simp: count_vote_def)
  qed
qed

interpretation quorum: coord_invariant "quorum_inv cx ps evs" cx "\<lambda>m k. EvMessage m k \<in> set evs" for cx ps evs
proof (unfold_locales, goal_cases)
  case (11 s tk m k v)
  then have "v = Approve \<Longrightarrow> approved cx evs k" unfolding approved_def by blast
  with 11 show ?case by (simp add: quorum_inv_def counted_vote)
next
  case (10 s)
  then show ?case by (auto simp: quorum_inv_def counted_new split: option.splits)
qed (auto simp: quorum_inv_def)

interpretation same_peers: coord_frame "\<lambda>s. cc_peers s = ps" for ps
  by unfold_locales simp_all

lemma propose_quorum:
  assumes "propose_cutover ow cx cur tgt s = (t, Ok u)"
  shows "quorum_inv cx (cc_peers s) evs t"
proof -
  let ?tk = "\<lparr>tk_commit_count = 0, tk_required_count = required_commits cx (length (cc_peers s)), tk_participants = {}\<rparr>"
  let ?rest = "sbind lock_active (\<lambda>_.
     sbind (read_clock ow) (\<lambda>now.
     sbind (supd (set_operation (epoch_key (es_epoch_id tgt))
              \<lparr>op_target_epoch = Some tgt, op_previous_epoch = Some cur, op_status = InConsensus,
               op_started_at = now, op_completed_at = None, op_consensus = Some ?tk\<rparr>)) (\<lambda>_.
     sbind (create_cutover_proposal ow cx cur tgt) (\<lambda>proposal.
     broadcast_cutover_message ow cx proposal))))"
  let ?s = "s\<lparr>cc_peer_guard := True, cc_consensus := Some ?tk\<rparr>"
  have rest: "keeps (quorum_inv cx (cc_peers s) evs) ?rest"
    unfolding create_cutover_proposal_def
    by (intro keeps_intros quorum.keeps_base quorum.keeps_broadcast)
  have inv: "quorum_inv cx (cc_peers s) evs ?s"
    by (simp add: quorum_inv_def counted_new)
  have run: "?rest ?s = (t, Ok u)"
    using assms by (simp add: propose_cutover_def sbind_def [of read_peers] sbind_def [of "supd f" for f] read_peers_def supd_def Let_def split: if_splits)
  show ?thesis by (rule keepsD [OF rest run inv])
qed

text \<open>What holds after every successful run of an action.\<close>

definition ensures :: "('s \<Rightarrow> bool) \<Rightarrow> ('s, 'a, 'e) action \<Rightarrow> bool" where
  "ensures P m \<longleftrightarrow> (\<forall>s t a. m s = (t, Ok a) \<longrightarrow> P t)"

lemma ensures_sbind: "(\<And>a. ensures P (f a)) \<Longrightarrow> ensures P (sbind m f)"
  unfolding ensures_def sbind_Ok_iff by blast

lemma ensures_case_prod: "(\<And>a b. ensures P (f a b)) \<Longrightarrow> ensures P (case x of (a, b) \<Rightarrow> f a b)"
  by (cases x) simp

lemma ensures_supd: "(\<And>s. P (f s)) \<Longrightarrow> ensures P (supd f)"
  by (simp add: ensures_def supd_def)

lemma execute_ensures: "ensures (\<lambda>s. cc_state s = Completed) (execute_atomic_cutover ow cx)"
  unfolding execute_atomic_cutover_def
  by (intro ensures_case_prod ensures_sbind ensures_supd) simp

lemma execute_Ok: "execute_atomic_cutover ow cx s = (t, Ok u) \<Longrightarrow> cc_state t = Completed"
  using execute_ensures unfolding ensures_def by blast

lemma monitor_quorum:
  assumes "monitor_consensus ow cx schedule s = (t, Some (Ok u))" "quorum_inv cx ps evs s" "set (concat schedule) \<subseteq> set evs"
  shows "cc_state t = Completed \<and>
    (\<exists>A. finite A \<and> required_commits cx (length ps) \<le> card A \<and> (\<forall>k \<in> A. approved cx evs k))"
  using assms
proof (induction schedule arbitrary: s)
  case (Cons es schedule)
  let ?s = "handle_events ow cx es s"
  have J: "quorum_inv cx ps evs ?s"
    using Cons.prems(3) by (intro quorum.J_events [OF Cons.prems(2)]) auto
  from Cons.prems(1) obtain tk where tk: "cc_consensus ?s = Some tk"
    by (auto simp: Let_def split: option.splits)
  show ?case
  proof (cases "tk_required_count tk \<le> tk_commit_count tk")
    case True
    with Cons.prems(1) tk have "execute_atomic_cutover ow cx ?s = (t, Ok u)"
      by (auto simp: Let_def split: prod.splits)
    then have "cc_state t = Completed" by (rule execute_Ok)
    moreover have req: "required_commits cx (length ps) \<le> tk_required_count tk" and "counted cx evs tk"
      using J tk by (simp_all add: quorum_inv_def)
    then obtain A where "finite A" "card A = tk_commit_count tk" "\<forall>k \<in> A. approved cx evs k"
      unfolding counted_def by blast
    moreover have "required_commits cx (length ps) \<le> tk_commit_count tk"
      using req True by (rule order_trans)
    ultimately show ?thesis by auto
  next
    case False
    then have "monitor_consensus ow cx schedule ?s = (t, Some (Ok u))"
      using Cons.prems(1) tk by (simp add: Let_def)
    from Cons.IH [OF this J] Cons.prems(3) show ?thesis by simp
  qed
qed simp

subsection \<open>Identifiers and thresholds\<close>

lemma parse_encode_epoch_id [simp]: "parse_epoch_id (encode_epoch_id i) = Ok i"
  by (simp add: parse_epoch_id_def encode_epoch_id_def)

lemma foldl_undec: "foldl (\<lambda>a c. 10 * a + int (undigit c)) (int n) d = int (foldl (\<lambda>a c. 10 * a + undigit c) n d)"
proof (induction d arbitrary: n)
  case (Cons c d)
  from Cons [of "10 * n + undigit c"] show ?case by simp
qed simp

lemma digit_range: "d < 10 \<Longrightarrow> CHR ''0'' \<le> digit d \<and> digit d \<le> CHR ''9''"
  by (simp add: digit_def less_eq_char_def of_char_of)

lemma parse_u64_epoch_key: "parse_u64 (epoch_key i) = Some i"
proof -
  let ?d = "dec_nat (unat i)"
  have ne: "?d \<noteq> []" by (subst dec_nat.simps) simp
  have range: "list_all (\<lambda>c. CHR ''0'' \<le> c \<and> c \<le> CHR ''9'') ?d"
    using dec_nat_digits digit_range by (fastforce simp: list_all_iff)
  have "hd ?d \<noteq> CHR ''+''"
  proof
    assume "hd ?d = CHR ''+''"
    with ne range have "CHR ''0'' \<le> CHR ''+''" by (cases ?d) auto
    then show False by (simp add: less_eq_char_def)
  qed
  with ne have strip: "(case ?d of c # cs \<Rightarrow> if c = CHR ''+'' then cs else ?d | [] \<Rightarrow> []) = ?d"
    by (cases ?d) auto
  have val: "foldl (\<lambda>a c. 10 * a + int (undigit c)) 0 ?d = int (unat i)"
    using foldl_undec [of 0 ?d] undec_dec_nat [of "unat i"] by (simp add: undec_def)
  have "int (unat i) < 2 ^ 64"
    using uint_bounded [of i] by simp
  with ne range show ?thesis
    unfolding parse_u64_def epoch_key_def Let_def strip val by simp
qed

lemma f64_067: "171 / 256 \<le> f64 (67 / 100)" "f64 (67 / 100) \<le> 1"
proof -
  have "f64 (171 / 256) = 171 / 256"
    using f64_dyadic [of 171 8] by simp
  moreover have "f64 (171 / 256) \<le> f64 (67 / 100)" by (rule f64_mono) simp_all
  ultimately show "171 / 256 \<le> f64 (67 / 100)" by simp
  show "f64 (67 / 100) \<le> 1" using f64_mono [of "67 / 100" 1] by simp
qed

lemma f64_mul_067:
  assumes "n < 2 ^ 45"
  shows "of_nat n * (171 / 256) \<le> f64_mul (f64_of_nat n) (f64 (67 / 100))"
    "f64_mul (f64_of_nat n) (f64 (67 / 100)) \<le> of_nat n"
proof -
  have n: "f64_of_nat n = of_nat n" using assms by (simp add: f64_of_nat_exact)
  have "f64 (of_nat n * (171 / 256)) = of_nat n * (171 / 256)"
    using f64_dyadic [of "171 * int n" 8] assms by (simp add: mult.commute)
  moreover have "f64 (of_nat n * (171 / 256)) \<le> f64 (of_nat n * f64 (67 / 100))"
    using f64_067 by (intro f64_mono mult_left_mono) simp_all
  ultimately show "of_nat n * (171 / 256) \<le> f64_mul (f64_of_nat n) (f64 (67 / 100))"
    by (simp add: f64_mul_def n)
  have "f64 (of_nat n * f64 (67 / 100)) \<le> f64 (of_nat n)"
    using f64_067 by (intro f64_mono) (simp_all add: mult_left_le f64_nonneg)
  then show "f64_mul (f64_of_nat n) (f64 (67 / 100)) \<le> of_nat n"
    using n by (simp add: f64_mul_def f64_of_nat_def)
qed

subsection \<open>Locks\<close>

lemma log_root_never_panics: "log_merkle_root ce l \<noteq> Err Panicked"
proof (cases "cg_entries l = []")
  case True
  then show ?thesis
    by (simp add: log_merkle_root_def build_tree_def root_or_def tree_root_def tree_is_empty_def tree_new_def)
next
  case False
  then obtain t where "tree_root (cv_sha ce) (fst (build_tree (cv_sha ce) l)) = (t, Some (Ok (cov_root (cv_sha ce) l)))"
    by (rule build_tree_root)
  then show ?thesis by (simp add: log_merkle_root_def split_beta root_or_def)
qed

lemma coverage_root_total: "\<exists>rt. current_coverage_root cx s = (s, Ok rt)"
proof -
  have "log_get_merkle_root (cx_hex_encode cx) (cx_cov cx) (get_coverage_log (cc_coverage s)) \<noteq> Err Panicked"
    using log_root_never_panics by (auto simp: log_get_merkle_root_def result_simps)
  then show ?thesis
    by (auto simp: current_coverage_root_def Let_def split: result.splits coverage_error.splits)
qed

lemma lock_fails: "cc_active_locked s \<Longrightarrow> sbind lock_active f s = (s, Err Deadlocked)"
  by (simp add: sbind_def lock_active_def)

lemma rollback_deadlocks:
  assumes "cc_active_locked s" "cc_rollback_attempts s < cf_max_rollback_attempts (cx_config cx)"
  shows "initiate_rollback ow cx s =
    (s\<lparr>cc_rollback_attempts := cc_rollback_attempts s + 1, cc_state := RollingBack\<rparr>, Err Deadlocked)"
proof -
  let ?s = "s\<lparr>cc_rollback_attempts := cc_rollback_attempts s + 1, cc_state := RollingBack\<rparr>"
  obtain rt where "current_coverage_root cx ?s = (?s, Ok rt)" using coverage_root_total by blast
  with assms show ?thesis
    by (simp add: initiate_rollback_def sbind_def [of "supd f" for f] sbind_def [of "sgets f" for f]
        sbind_def [of "sres r" for r] sbind_def [of "scatch a b c" for a b c] scatch_def supd_def sgets_def sres_def guard_def lock_fails)
qed

lemma initiate_refused:
  "cc_state s \<noteq> Idle \<Longrightarrow>
   coord_initiate_cutover ow cx schedule cur tgt s = (s, Some (Err (CutInvalidState ''Cutover already in progress'')))"
  by (simp add: coord_initiate_cutover_def sbind_def [of begin_validation] begin_validation_def)

text \<open>What a locked map of active cutovers blocks.\<close>

lemma ensure_deadlocks: "cc_active_locked s \<Longrightarrow> ensure_cutover_context ow cx i s = (s, Err Deadlocked)"
  by (simp add: ensure_cutover_context_def Let_def lock_fails)

lemma execute_deadlocks: "cc_active_locked s \<Longrightarrow> snd (execute_atomic_cutover ow cx s) = Err Deadlocked"
  by (simp add: execute_atomic_cutover_def sbind_def [of "supd f" for f] supd_def lock_fails)

subsection \<open>Properties\<close>

text \<open>
  C8. A cutover is committed only with a quorum: if initiating a cutover returns success, then during
  its sleeps approval votes with valid signatures arrived from at least the required number of
  different keys, the threshold being computed from the peers at the start.
\<close>

theorem cutover_needs_quorum:
  assumes "coord_initiate_cutover ow cx schedule cur tgt s = (t, Some (Ok ()))"
  shows "cc_state t = Completed \<and>
    (\<exists>A. finite A \<and> required_commits cx (length (cc_peers s)) \<le> card A \<and>
      (\<forall>k \<in> A. \<exists>m. EvMessage m k \<in> set (concat schedule) \<and> ct_phase m = Vote \<and> ct_vote m = Some Approve \<and>
         verify_cutover_signature cx m k = Ok ()))"
proof -
  let ?m = "sbind begin_validation (\<lambda>_.
       sbind (validate_cutover_readiness ow cx cur tgt) (\<lambda>_. supd (\<lambda>s. s\<lparr>cc_state := AwaitingConsensus\<rparr>)))"
  obtain u where u: "?m s = (u, Ok ())" and start: "start_consensus ow cx schedule cur tgt u = (t, Some (Ok ()))"
    using assms by (auto simp: coord_initiate_cutover_def split: prod.splits result.splits)
  have "keeps (\<lambda>x. cc_peers x = cc_peers s) ?m"
    by (intro keeps_sbind same_peers.keeps_readiness keeps_supd) (auto simp: keeps_def begin_validation_def)
  from keepsD [OF this u] have peers: "cc_peers u = cc_peers s" by simp
  from start obtain v w where p: "propose_cutover ow cx cur tgt u = (v, Ok ())"
    and mon: "monitor_consensus ow cx schedule v = (w, Some (Ok ()))" and t: "t = release_peer_guard w"
    by (auto simp: start_consensus_def split: prod.splits result.splits option.splits if_splits)
  from monitor_quorum [OF mon propose_quorum [OF p] order_refl] t peers show ?thesis
    by (simp add: release_peer_guard_def approved_def)
qed

text \<open>
  C38. The vote handler checks neither that the voter is a peer nor which epochs and coverage root the
  vote is about: a first approval that any key signs is counted towards the running cutover.
\<close>

theorem outsider_vote_counts:
  assumes "ct_phase m = Vote" "ct_vote m = Some Approve" "verify_cutover_signature cx m k = Ok ()"
    and "cc_consensus s = Some tk" "k \<notin> tk_participants tk" "k \<notin> set (cc_peers s)"
  shows "process_cutover_message ow cx m k s =
    (s\<lparr>cc_consensus := Some (tk\<lparr>tk_commit_count := tk_commit_count tk + 1,
         tk_participants := insert k (tk_participants tk)\<rparr>)\<rparr>, Ok ())"
  using assms
  by (simp add: process_cutover_message_def handle_cutover_vote_def count_vote_def sbind_def sres_def sgets_def supd_def)

text \<open>
  A coordinator runs at most one cutover: once a cutover was initiated, whatever its outcome and
  whatever is called afterwards, the coordinator never becomes idle again, and initiating a cutover
  is refused at once.
\<close>

theorem cutover_one_shot:
  "coord_initiate_cutover ow cx schedule' cur' tgt'
      (fold (coord_call_step ow cx) calls (fst (coord_initiate_cutover ow cx schedule cur tgt s))) =
    (fold (coord_call_step ow cx) calls (fst (coord_initiate_cutover ow cx schedule cur tgt s)),
     Some (Err (CutInvalidState ''Cutover already in progress'')))"
  by (rule initiate_refused [OF calls_not_idle [OF initiate_not_idle]])

text \<open>
  An authorised abort message never gets an answer: its handler waits for the mutex over the
  active cutovers that it holds itself (its signature is not looked at). From then on the mutex is
  locked for ever: no message can set up a cutover context and no running cutover can be executed.
\<close>

theorem abort_blocks_coordinator:
  assumes "ct_phase m = Abort" "verify_sender_authorization ow cx k s = (s', Ok ())"
    and "\<not> cc_active_locked s'" "cc_rollback_attempts s' < cf_max_rollback_attempts (cx_config cx)"
  shows "\<exists>t. process_cutover_message ow cx m k s = (t, Err Deadlocked) \<and> cc_state t = RollingBack \<and>
    (\<forall>i. ensure_cutover_context ow cx i t = (t, Err Deadlocked)) \<and>
    snd (execute_atomic_cutover ow cx t) = Err Deadlocked"
proof -
  let ?id = "cx_from_utf8_lossy cx (ct_to_epoch_id m)"
  let ?mark = "\<lambda>operation. case operation of
      Some state \<Rightarrow> sbind (read_clock ow) (\<lambda>now. supd (set_operation ?id (state\<lparr>op_status := Aborted, op_completed_at := Some now\<rparr>)))
    | None \<Rightarrow> sres (Ok ())"
  let ?s = "s'\<lparr>cc_active_locked := True\<rparr>"
  obtain w now where clk: "ow_now ow (cc_world s') = (w, now)" by (cases "ow_now ow (cc_world s')")
  obtain u where mark: "?mark (map_of (cc_active ?s) ?id) ?s = (u, Ok ())"
    and u: "cc_active_locked u" "cc_rollback_attempts u = cc_rollback_attempts s'"
    by (cases "map_of (cc_active s') ?id")
      (simp_all add: sbind_def read_clock_def supd_def set_operation_def sres_def clk)
  let ?t = "u\<lparr>cc_rollback_attempts := cc_rollback_attempts u + 1, cc_state := RollingBack\<rparr>"
  have roll: "initiate_rollback ow cx u = (?t, Err Deadlocked)"
    using rollback_deadlocks [of u cx ow] u assms(4) by simp
  have "process_cutover_message ow cx m k s = (?t, Err Deadlocked)"
    using assms(1-3) mark roll
    by (simp add: process_cutover_message_def handle_cutover_abort_def Let_def release_active_def
        sbind_def [of "sres r" for r] sbind_def [of "verify_sender_authorization ow cx k"] sbind_def [of lock_active]
        sbind_def [of "supd f" for f] sbind_def [of "sgets f" for f] sbind_def [of "?mark x" for x]
        sres_def lock_active_def supd_def sgets_def)
  with u show ?thesis
    by (intro exI [of _ ?t]) (simp add: ensure_deadlocks execute_deadlocks)
qed

text \<open>
  C30. The outcomes of committing a cutover whose target is known: on success the target epoch is the
  current one and the operation is marked committed; if storing it fails the epoch and the operation are
  as before; and if only the coverage check afterwards fails, an error is returned although the target
  epoch has already replaced the current one.
\<close>

theorem finalize_commit_outcomes:
  assumes "op_target_epoch operation = Some e" "finalize_cutover_commit ow cx key operation s = (t, r)"
  shows "case r of
      Ok _ \<Rightarrow> cc_epoch t = e \<and>
        (\<exists>now. map_of (cc_active t) key = Some (operation\<lparr>op_status := Committed, op_completed_at := Some now\<rparr>))
    | Err (CutStorageError _) \<Rightarrow> cc_epoch t = cc_epoch s \<and> cc_active t = cc_active s
    | Err (CoverageFailure _) \<Rightarrow> cc_epoch t = e \<and> snd (ow_store_epoch_state ow e (cc_world s)) = Ok ()
    | Err _ \<Rightarrow> False"
proof -
  obtain w q where st: "ow_store_epoch_state ow e (cc_world s) = (w, q)" by (cases "ow_store_epoch_state ow e (cc_world s)")
  show ?thesis
  proof (cases q)
    case (Err x)
    with assms st show ?thesis
      by (auto simp: finalize_cutover_commit_def sbind_def scatch_def sgets_def sres_def supd_def world_op_def)
  next
    case (Ok x)
    obtain w' now where clk: "ow_now ow w = (w', now)" by (cases "ow_now ow w")
    obtain c v where ver: "verify_integrity (cx_cov cx) (cx_manager cx) (cc_coverage s) = (c, v)"
      by (cases "verify_integrity (cx_cov cx) (cx_manager cx) (cc_coverage s)")
    from assms st Ok clk ver show ?thesis
      by (cases v) (auto simp: finalize_cutover_commit_def sbind_def scatch_def sgets_def sres_def supd_def world_op_def
          read_clock_def secure_delete_old_epoch_keys_def set_operation_def verify_coverage_integrity_def update_conv')
  qed
qed

text \<open>
  With the default configuration the vote threshold for a positive number of peers is at least two
  thirds of them and never more than all of them, in the double arithmetic of the code.
\<close>

theorem default_threshold_bounds:
  assumes "cx_config cx = default_cutover_config" "0 < n" "n < 2 ^ 45"
  shows "2 * n \<le> 3 * required_commits cx n \<and> required_commits cx n \<le> n"
proof -
  define x where "x = f64_mul (f64_of_nat n) (f64 (67 / 100))"
  have b: "of_nat n * (171 / 256) \<le> x" "x \<le> of_nat n"
    using f64_mul_067 [OF assms(3)] by (simp_all add: x_def)
  have up: "\<lceil>x\<rceil> \<le> int n" using b(2) by (simp add: ceiling_le_iff)
  have "of_nat n * (171 / 256) \<le> (of_int \<lceil>x\<rceil> :: rat)" using b(1) by (rule order_trans) simp
  then have "(of_int (171 * int n) :: rat) \<le> of_int (256 * \<lceil>x\<rceil>)" by simp
  then have lo: "171 * int n \<le> 256 * \<lceil>x\<rceil>" by (simp only: of_int_le_iff)
  have "clamp 0 (2 ^ 64 - 1) \<lceil>x\<rceil> = \<lceil>x\<rceil>"
    using up lo assms(3) by (simp add: clamp_def)
  then have "required_commits cx n = nat \<lceil>x\<rceil>"
    using lo assms by (simp add: required_commits_def x_def default_cutover_config_def Let_def)
  with up lo assms(2) show ?thesis by linarith
qed

text \<open>
  Epoch identifiers survive their encodings: the 32 byte wire form and the 8 byte form parse to
  the identifier, and so does the decimal key under which an active cutover is stored.
\<close>

theorem epoch_id_round_trip:
  "parse_epoch_id (encode_epoch_id i) = Ok i \<and> parse_epoch_id (to_le_bytes i) = Ok i \<and> parse_u64 (epoch_key i) = Some i"
  by (simp add: parse_u64_epoch_key) (simp add: parse_epoch_id_def)

subsection \<open>Examples\<close>

definition sample_peer :: bytes where
  "sample_peer = replicate 32 9"

definition sample_outside :: "unit outside" where
  "sample_outside =
     \<lparr>ow_now = (\<lambda>w. (w, 100)), ow_list_peers = (\<lambda>w. (w, Ok [\<lparr>pi_public_key = sample_peer, pi_status = PsConnected\<rparr>])),
      ow_send_message = (\<lambda>_ _ w. (w, Ok ())), ow_load_epoch_state = (\<lambda>_ w. (w, Err ''missing'')),
      ow_has_epoch_state_data = (\<lambda>_ w. (w, Ok True)), ow_store_epoch_state = (\<lambda>_ w. (w, Ok ())),
      ow_store_epoch_keys = (\<lambda>_ _ w. (w, Ok ())),
      ow_get_network_status = (\<lambda>w. (w, Ok \<lparr>ns_is_connected = True, ns_error_rate = 0\<rparr>))\<rparr>"

definition sample_cutover_env :: cutover_env where
  "sample_cutover_env =
     \<lparr>cx_cov = sample_cov_env, cx_manager = honest_manager sample_cov_env [1] None, cx_signing_key = [1],
      cx_config = default_cutover_config, cx_cutover_json = (\<lambda>_. Ok [5]), cx_network_json = (\<lambda>_. Ok [6]),
      cx_message_json = (\<lambda>_. Ok [7]), cx_hex_encode = (\<lambda>_. []), cx_percent = (\<lambda>_. []),
      cx_from_utf8_lossy = (\<lambda>_. ''?''), cx_iter = (\<lambda>ks. ks)\<rparr>"

definition sample_coordinator :: "unit coordinator" where
  "sample_coordinator =
     add_peer sample_peer
       (coordinator_new () \<lparr>ms_log = sample_signed_log, ms_latest_transparency = None\<rparr> (epoch_new 0 0 (replicate 32 7)))"

definition sample_target :: epoch_state where
  "sample_target = epoch_new 0 1 (replicate 32 8)"

text \<open>An approval that a key outside the peer set signs, about some other epochs.\<close>

definition sample_vote :: cutover_message where
  "sample_vote =
     \<lparr>ct_phase = Vote, ct_from_epoch_id = encode_epoch_id 40, ct_to_epoch_id = encode_epoch_id 41, ct_coverage_root = [],
      ct_sender_key = pad32 [4], ct_timestamp = 0, ct_vote = Some Approve, ct_signature = pad32 [4] @ pad32 [5],
      ct_transparency_sequence = None, ct_transparency_log_size = None, ct_transparency_leaf_index = None,
      ct_transparency_entry_timestamp = None\<rparr>"

abbreviation sample_run :: "unit coordinator \<times> (unit, cutover_error) result option" where
  "sample_run \<equiv> coord_initiate_cutover sample_outside sample_cutover_env [[], [EvMessage sample_vote (pad32 [4])]]
     (epoch_new 0 0 (replicate 32 7)) sample_target sample_coordinator"

lemma sample_run_Ok: "snd sample_run = Some (Ok ())"
  by code_simp

lemma sample_threshold: "required_commits sample_cutover_env (length (cc_peers sample_coordinator)) = 1"
  by code_simp

lemma sample_vote_valid: "verify_cutover_signature sample_cutover_env sample_vote (pad32 [4]) = Ok ()"
  by code_simp

theorem cutover_needs_quorum_witness:
  "cc_state (fst sample_run) = Completed \<and>
    (\<exists>k m. EvMessage m k \<in> {EvMessage sample_vote (pad32 [4])} \<and> ct_vote m = Some Approve)"
proof -
  have "sample_run = (fst sample_run, Some (Ok ()))" using sample_run_Ok by (simp add: prod_eq_iff)
  from cutover_needs_quorum [OF this] obtain A where A: "cc_state (fst sample_run) = Completed" "1 \<le> card A"
    "\<forall>k \<in> A. \<exists>m. EvMessage m k \<in> set (concat [[], [EvMessage sample_vote (pad32 [4])]]) \<and> ct_vote m = Some Approve"
    unfolding sample_threshold by blast
  then obtain k where "k \<in> A" by fastforce
  with A show ?thesis by auto
qed

theorem outsider_vote_counts_witness:
  "\<exists>s. process_cutover_message sample_outside sample_cutover_env sample_vote (pad32 [4])
      (sample_coordinator\<lparr>cc_consensus := Some \<lparr>tk_commit_count = 0, tk_required_count = 1, tk_participants = {}\<rparr>\<rparr>) =
    (s, Ok ()) \<and> cc_consensus s = Some \<lparr>tk_commit_count = 1, tk_required_count = 1, tk_participants = {pad32 [4]}\<rparr>"
proof -
  have "pad32 [4] \<notin> set (cc_peers sample_coordinator)" by code_simp
  with outsider_vote_counts [of sample_vote sample_cutover_env "pad32 [4]"
      "sample_coordinator\<lparr>cc_consensus := Some \<lparr>tk_commit_count = 0, tk_required_count = 1, tk_participants = {}\<rparr>\<rparr>"
      "\<lparr>tk_commit_count = 0, tk_required_count = 1, tk_participants = {}\<rparr>" sample_outside]
  show ?thesis using sample_vote_valid by (simp add: sample_vote_def)
qed

theorem abort_blocks_coordinator_witness:
  "\<exists>t. process_cutover_message sample_outside sample_cutover_env (sample_vote\<lparr>ct_phase := Abort\<rparr>) (own_key sample_cutover_env)
      sample_coordinator = (t, Err Deadlocked) \<and> snd (execute_atomic_cutover sample_outside sample_cutover_env t) = Err Deadlocked"
proof -
  have auth: "verify_sender_authorization sample_outside sample_cutover_env (own_key sample_cutover_env) sample_coordinator =
      (sample_coordinator, Ok ())"
    by (simp add: verify_sender_authorization_def sres_def)
  have "\<not> cc_active_locked sample_coordinator"
    "cc_rollback_attempts sample_coordinator < cf_max_rollback_attempts (cx_config sample_cutover_env)"
    by (simp_all add: sample_coordinator_def coordinator_new_def add_peer_def change_peers_def sample_cutover_env_def
        default_cutover_config_def)
  moreover have "ct_phase (sample_vote\<lparr>ct_phase := Abort\<rparr>) = Abort" by simp
  ultimately show ?thesis using abort_blocks_coordinator [OF _ auth] by blast
qed

definition sample_operation :: cutover_operation where
  "sample_operation =
     \<lparr>op_target_epoch = Some sample_target, op_previous_epoch = None, op_status = InConsensus, op_started_at = 0,
      op_completed_at = None, op_consensus = None\<rparr>"

theorem finalize_commit_outcomes_witness:
  "cc_epoch (fst (finalize_cutover_commit sample_outside sample_cutover_env ''1'' sample_operation sample_coordinator)) = sample_target"
proof -
  let ?f = "finalize_cutover_commit sample_outside sample_cutover_env ''1'' sample_operation sample_coordinator"
  have "snd ?f = Ok ()" by code_simp
  then have "?f = (fst ?f, Ok ())" by (simp add: prod_eq_iff)
  moreover have "op_target_epoch sample_operation = Some sample_target" by (simp add: sample_operation_def)
  ultimately show ?thesis using finalize_commit_outcomes by fastforce
qed

theorem default_threshold_bounds_witness:
  "2 * 7 \<le> 3 * required_commits sample_cutover_env 7 \<and> required_commits sample_cutover_env 7 \<le> 7"
  using default_threshold_bounds [of sample_cutover_env 7] by (simp add: sample_cutover_env_def)

end
