(* ===== verification/Crypto.thy ===== *)
theory Crypto
  imports Signatures
begin

text \<open>
  The cryptographic wrappers of \<open>crates/crypto\<close>: authenticated encryption (\<open>aead.rs\<close>), key derivation
  (\<open>kdf.rs\<close>), the hybrid KEM (\<open>x25519.rs\<close>, \<open>mlkem_adapter.rs\<close>, \<open>hybridkem.rs\<close>), protected account data
  (\<open>account_protection.rs\<close>), epoch identifiers as UUIDs (\<open>epoch_id.rs\<close>) and the forced cutover message
  (\<open>rekey.rs\<close>).

  The primitives come from third-party crates and are the parameter record \<open>crypto_prims\<close>: an AEAD, HKDF,
  SHA-256, X25519, ML-KEM and Base64. Randomness is an argument: the bytes a generator delivers, or \<open>None\<close>
  when it fails. Keys, nonces, UUIDs and the fixed-size arrays of the code are byte lists; the functions
  that build them check the length. The laws the code relies on are \<open>aead_documented\<close>,
  \<open>hkdf_documented\<close>, \<open>kem_documented\<close> and \<open>base64_documented\<close>.
\<close>

record crypto_prims =
  pr_encrypt :: "bytes \<Rightarrow> bytes \<Rightarrow> bytes \<Rightarrow> bytes \<Rightarrow> (bytes, string) result"
  pr_decrypt :: "bytes \<Rightarrow> bytes \<Rightarrow> bytes \<Rightarrow> bytes \<Rightarrow> (bytes, string) result"
  pr_hkdf_extract :: "bytes option \<Rightarrow> bytes \<Rightarrow> bytes"
  pr_hkdf_from_prk :: "bytes \<Rightarrow> (unit, string) result"
  pr_hkdf_expand :: "bytes \<Rightarrow> bytes \<Rightarrow> nat \<Rightarrow> (bytes, string) result"
  pr_sha256 :: "bytes \<Rightarrow> bytes"
  pr_x25519_public :: "bytes \<Rightarrow> bytes"
  pr_x25519_dh :: "bytes \<Rightarrow> bytes \<Rightarrow> bytes"
  pr_mlkem_keygen :: "bytes \<Rightarrow> (bytes \<times> bytes, string) result"
  pr_mlkem_encap :: "bytes \<Rightarrow> bytes \<Rightarrow> (bytes \<times> bytes, string) result"
  pr_mlkem_decap :: "bytes \<Rightarrow> bytes \<Rightarrow> (bytes, string) result"
  pr_b64_encode :: "bytes \<Rightarrow> string"
  pr_b64_decode :: "string \<Rightarrow> (bytes, string) result"

text \<open>The shared shape of the \<open>from_bytes\<close> constructors: a length check and a copy.\<close>

definition sized_bytes :: "nat \<Rightarrow> (string \<Rightarrow> crypto_error) \<Rightarrow> bytes \<Rightarrow> (bytes, crypto_error) result" where
  "sized_bytes n err b = (if length b \<noteq> n then Err (err (expected_bytes n (length b))) else Ok b)"

subsection \<open>Authenticated encryption\<close>

abbreviation (input) AEAD_KEY_LEN :: nat where "AEAD_KEY_LEN \<equiv> 32"
abbreviation (input) AEAD_NONCE_LEN :: nat where "AEAD_NONCE_LEN \<equiv> 12"

datatype aead_context = AcFileData | AcWelcome | AcGroupUpdate | AcRecoveryWriterHandoff

fun domain_prefix :: "aead_context \<Rightarrow> bytes" where
  "domain_prefix AcFileData = as_bytes ''filedata:''"
| "domain_prefix AcWelcome = as_bytes ''welcome:''"
| "domain_prefix AcGroupUpdate = as_bytes ''groupupdate:''"
| "domain_prefix AcRecoveryWriterHandoff = as_bytes ''recovery-writer-handoff:''"

definition key_from_bytes :: "bytes \<Rightarrow> (bytes, crypto_error) result" where
  "key_from_bytes = sized_bytes AEAD_KEY_LEN InvalidKey"

definition key_generate :: "bytes option \<Rightarrow> (bytes, crypto_error) result" where
  "key_generate rng = ok_or (RandomFailure ''Failed to generate AEAD key'') rng"

definition nonce_from_bytes :: "bytes \<Rightarrow> (bytes, crypto_error) result" where
  "nonce_from_bytes = sized_bytes AEAD_NONCE_LEN InvalidNonce"

definition nonce_generate :: "bytes option \<Rightarrow> (bytes, crypto_error) result" where
  "nonce_generate rng = ok_or (RandomFailure ''Failed to generate nonce'') rng"

definition nonce_generate_os :: "bytes option \<Rightarrow> (bytes, crypto_error) result" where
  "nonce_generate_os rng = ok_or (RandomFailure ''Failed to generate nonce from OS'') rng"

definition seal_with_aad :: "crypto_prims \<Rightarrow> bytes \<Rightarrow> bytes \<Rightarrow> bytes \<Rightarrow> bytes \<Rightarrow> (bytes, crypto_error) result" where
  "seal_with_aad pr key nonce aad plaintext =
     map_err (\<lambda>_. EncryptionFailure ''ChaCha20-Poly1305 encryption failed'') (pr_encrypt pr key nonce aad plaintext)"

definition open_with_aad :: "crypto_prims \<Rightarrow> bytes \<Rightarrow> bytes \<Rightarrow> bytes \<Rightarrow> bytes \<Rightarrow> (bytes, crypto_error) result" where
  "open_with_aad pr key nonce aad ciphertext =
     map_err (\<lambda>_. DecryptionFailure ''ChaCha20-Poly1305 decryption failed'') (pr_decrypt pr key nonce aad ciphertext)"

definition seal :: "crypto_prims \<Rightarrow> bytes \<Rightarrow> bytes \<Rightarrow> aead_context \<Rightarrow> bytes \<Rightarrow> bytes \<Rightarrow> (bytes, crypto_error) result" where
  "seal pr key nonce context aad plaintext =
     (let domain_aad = domain_prefix context @ aad
      in map_err (\<lambda>_. EncryptionFailure ''ChaCha20-Poly1305 encryption failed'')
           (pr_encrypt pr key nonce domain_aad plaintext))"

definition open_sealed :: "crypto_prims \<Rightarrow> bytes \<Rightarrow> bytes \<Rightarrow> aead_context \<Rightarrow> bytes \<Rightarrow> bytes \<Rightarrow> (bytes, crypto_error) result" where
  "open_sealed pr key nonce context aad ciphertext =
     (let domain_aad = domain_prefix context @ aad
      in map_err (\<lambda>_. DecryptionFailure ''ChaCha20-Poly1305 decryption failed'')
           (pr_decrypt pr key nonce domain_aad ciphertext))"

subsection \<open>Key derivation\<close>

abbreviation (input) HKDF_MAX_OUTPUT_LEN :: nat where "HKDF_MAX_OUTPUT_LEN \<equiv> 255 * 32"
abbreviation (input) DERIVED_KEY_LEN :: nat where "DERIVED_KEY_LEN \<equiv> 32"

datatype hkdf_context =
  HcEpochKey | HcFileKey | HcMessageKey | HcAuthKey | HcWelcomeKey | HcGroupUpdateKey | HcKeyWrapping

fun info_string :: "hkdf_context \<Rightarrow> bytes" where
  "info_string HcEpochKey = as_bytes ''epoch-key-v1''"
| "info_string HcFileKey = as_bytes ''file-key-v1''"
| "info_string HcMessageKey = as_bytes ''message-key-v1''"
| "info_string HcAuthKey = as_bytes ''auth-key-v1''"
| "info_string HcWelcomeKey = as_bytes ''welcome-key-v1''"
| "info_string HcGroupUpdateKey = as_bytes ''groupupdate-key-v1''"
| "info_string HcKeyWrapping = as_bytes ''kek-wrap-v1''"

definition check_output_length :: "nat \<Rightarrow> (unit, crypto_error) result" where
  "check_output_length n =
     guard (\<not> (n = 0 \<or> HKDF_MAX_OUTPUT_LEN < n))
       (KeyDerivationFailure (''Invalid output length: '' @ dec_nat n @ '' (max: '' @ dec_nat HKDF_MAX_OUTPUT_LEN @ '')''))"

definition hkdf_extract :: "crypto_prims \<Rightarrow> bytes option \<Rightarrow> bytes \<Rightarrow> bytes" where
  "hkdf_extract pr salt ikm = pr_hkdf_extract pr salt ikm"

definition hkdf_expand_with_info :: "crypto_prims \<Rightarrow> bytes \<Rightarrow> bytes \<Rightarrow> nat \<Rightarrow> (bytes, crypto_error) result" where
  "hkdf_expand_with_info pr prk info n =
     rbind (check_output_length n) (\<lambda>_.
     rbind (map_err (\<lambda>e. KeyDerivationFailure (''Invalid PRK: '' @ e)) (pr_hkdf_from_prk pr prk)) (\<lambda>_.
     map_err (\<lambda>e. KeyDerivationFailure (''HKDF expansion failed: '' @ e)) (pr_hkdf_expand pr prk info n)))"

definition hkdf_expand :: "crypto_prims \<Rightarrow> bytes \<Rightarrow> hkdf_context \<Rightarrow> nat \<Rightarrow> (bytes, crypto_error) result" where
  "hkdf_expand pr prk context n =
     rbind (check_output_length n) (\<lambda>_.
     rbind (map_err (\<lambda>e. KeyDerivationFailure (''Invalid PRK: '' @ e)) (pr_hkdf_from_prk pr prk)) (\<lambda>_.
     map_err (\<lambda>e. KeyDerivationFailure (''HKDF expansion failed: '' @ e)) (pr_hkdf_expand pr prk (info_string context) n)))"

text \<open>\<open>Hkdf::new(salt, ikm)\<close> extracts; \<open>expand\<close> then works on the extracted key.\<close>

definition hkdf_derive :: "crypto_prims \<Rightarrow> bytes option \<Rightarrow> bytes \<Rightarrow> hkdf_context \<Rightarrow> nat \<Rightarrow> (bytes, crypto_error) result" where
  "hkdf_derive pr salt ikm context n =
     rbind (check_output_length n) (\<lambda>_.
     map_err (\<lambda>e. KeyDerivationFailure (''HKDF derivation failed: '' @ e))
       (pr_hkdf_expand pr (pr_hkdf_extract pr salt ikm) (info_string context) n))"

primrec expand_all :: "crypto_prims \<Rightarrow> bytes \<Rightarrow> (hkdf_context \<times> nat) list \<Rightarrow> (bytes list, crypto_error) result" where
  "expand_all pr prk [] = Ok []"
| "expand_all pr prk (cl # cls) =
     rbind (hkdf_expand pr prk (fst cl) (snd cl)) (\<lambda>key.
     rbind (expand_all pr prk cls) (\<lambda>results. Ok (key # results)))"

definition hkdf_derive_multiple ::
  "crypto_prims \<Rightarrow> bytes option \<Rightarrow> bytes \<Rightarrow> (hkdf_context \<times> nat) list \<Rightarrow> (bytes list, crypto_error) result" where
  "hkdf_derive_multiple pr salt ikm contexts_and_lengths =
     (let prk = hkdf_extract pr salt ikm in expand_all pr prk contexts_and_lengths)"

definition sha256 :: "crypto_prims \<Rightarrow> bytes \<Rightarrow> bytes" where
  "sha256 pr data = pr_sha256 pr data"

definition derive_key :: "crypto_prims \<Rightarrow> bytes option \<Rightarrow> bytes \<Rightarrow> hkdf_context \<Rightarrow> (bytes, crypto_error) result" where
  "derive_key pr salt ikm context = hkdf_derive pr salt ikm context DERIVED_KEY_LEN"

definition hkdf_stretch ::
  "crypto_prims \<Rightarrow> bytes \<Rightarrow> bytes \<Rightarrow> nat \<Rightarrow> hkdf_context \<Rightarrow> nat \<Rightarrow> (bytes, crypto_error) result" where
  "hkdf_stretch pr password salt iterations context n =
     (if iterations = 0 then Err (KeyDerivationFailure ''Iterations must be greater than 0'')
      else
        let current = (sha256 pr ^^ (iterations - 1)) (sha256 pr (salt @ password))
        in hkdf_derive pr (Some salt) current context n)"

subsection \<open>X25519 and ML-KEM\<close>

record x25519_keypair =
  xk_public :: bytes
  xk_private :: bytes

definition x25519_public_from_bytes :: "bytes \<Rightarrow> (bytes, crypto_error) result" where
  "x25519_public_from_bytes = sized_bytes 32 InvalidKey"

definition x25519_private_from_bytes :: "bytes \<Rightarrow> (bytes, crypto_error) result" where
  "x25519_private_from_bytes = sized_bytes 32 InvalidKey"

definition non_contributory_error :: crypto_error where
  "non_contributory_error = InvalidKey ''X25519 public key is a low-order point (all-zero shared secret)''"

text \<open>\<open>was_contributory\<close>: the shared secret is not all zero.\<close>

definition diffie_hellman :: "crypto_prims \<Rightarrow> bytes \<Rightarrow> bytes \<Rightarrow> (bytes, crypto_error) result" where
  "diffie_hellman pr private public =
     (let shared = pr_x25519_dh pr private public
      in if list_all (\<lambda>b. b = 0) shared then Err non_contributory_error else Ok shared)"

definition x25519_generate :: "crypto_prims \<Rightarrow> bytes \<Rightarrow> x25519_keypair" where
  "x25519_generate pr rng = \<lparr>xk_public = pr_x25519_public pr rng, xk_private = rng\<rparr>"

definition x25519_from_private_bytes :: "crypto_prims \<Rightarrow> bytes \<Rightarrow> (x25519_keypair, crypto_error) result" where
  "x25519_from_private_bytes pr b =
     rbind (x25519_private_from_bytes b) (\<lambda>private.
     Ok \<lparr>xk_public = pr_x25519_public pr private, xk_private = private\<rparr>)"

definition ephemeral_diffie_hellman :: "crypto_prims \<Rightarrow> bytes \<Rightarrow> bytes \<Rightarrow> (bytes \<times> bytes, crypto_error) result" where
  "ephemeral_diffie_hellman pr rng public_key =
     (let shared = pr_x25519_dh pr rng public_key
      in if list_all (\<lambda>b. b = 0) shared then Err non_contributory_error
         else Ok (pr_x25519_public pr rng, shared))"

abbreviation (input) MLKEM_PUBLIC_KEY_LEN :: nat where "MLKEM_PUBLIC_KEY_LEN \<equiv> 1184"
abbreviation (input) MLKEM_SECRET_KEY_LEN :: nat where "MLKEM_SECRET_KEY_LEN \<equiv> 2400"
abbreviation (input) MLKEM_CIPHERTEXT_LEN :: nat where "MLKEM_CIPHERTEXT_LEN \<equiv> 1088"

definition mlkem_public_from_bytes :: "bytes \<Rightarrow> (bytes, crypto_error) result" where
  "mlkem_public_from_bytes = sized_bytes MLKEM_PUBLIC_KEY_LEN InvalidKey"

definition mlkem_secret_from_bytes :: "bytes \<Rightarrow> (bytes, crypto_error) result" where
  "mlkem_secret_from_bytes = sized_bytes MLKEM_SECRET_KEY_LEN InvalidKey"

definition mlkem_ciphertext_from_bytes :: "bytes \<Rightarrow> (bytes, crypto_error) result" where
  "mlkem_ciphertext_from_bytes = sized_bytes MLKEM_CIPHERTEXT_LEN InvalidCiphertext"

definition map_internal_error :: "string \<Rightarrow> crypto_error" where
  "map_internal_error label = InternalCrypto (''aws-lc ML-KEM failure: '' @ label)"

text \<open>The aws-lc calls report the name of the one that failed.\<close>

definition mlkem_generate :: "crypto_prims \<Rightarrow> bytes \<Rightarrow> (bytes \<times> bytes, crypto_error) result" where
  "mlkem_generate pr coin = map_err map_internal_error (pr_mlkem_keygen pr coin)"

definition encapsulate :: "crypto_prims \<Rightarrow> bytes \<Rightarrow> bytes \<Rightarrow> (bytes \<times> bytes, crypto_error) result" where
  "encapsulate pr coin public =
     (if length public \<noteq> MLKEM_PUBLIC_KEY_LEN then Err (InvalidKey ''Invalid ML-KEM public key length'')
      else map_err map_internal_error (pr_mlkem_encap pr coin public))"

definition decapsulate :: "crypto_prims \<Rightarrow> bytes \<Rightarrow> bytes \<Rightarrow> (bytes, crypto_error) result" where
  "decapsulate pr secret ciphertext =
     (if length secret \<noteq> MLKEM_SECRET_KEY_LEN then Err (InvalidKey ''Invalid ML-KEM secret key length'')
      else if length ciphertext \<noteq> MLKEM_CIPHERTEXT_LEN then Err (InvalidCiphertext ''Invalid ML-KEM ciphertext length'')
      else map_err (\<lambda>label. if label = ''EVP_PKEY_decapsulate'' then DecryptionFailure ''EVP_PKEY_decapsulate failed''
                            else map_internal_error label) (pr_mlkem_decap pr secret ciphertext))"

subsection \<open>The hybrid KEM\<close>

abbreviation (input) SHARED_SECRET_LEN :: nat where "SHARED_SECRET_LEN \<equiv> 32"
abbreviation (input) HYBRID_PUBLIC_KEY_LEN :: nat where "HYBRID_PUBLIC_KEY_LEN \<equiv> 32 + 1184"
abbreviation (input) HYBRID_SECRET_KEY_LEN :: nat where "HYBRID_SECRET_KEY_LEN \<equiv> 32 + 2400"
abbreviation (input) HYBRID_CIPHERTEXT_LEN :: nat where "HYBRID_CIPHERTEXT_LEN \<equiv> 32 + 1088"

record hybrid_public_key =
  hp_x25519_public :: bytes
  hp_mlkem_public :: bytes

record hybrid_secret_key =
  hs_x25519_private :: bytes
  hs_mlkem_secret :: bytes

record hybrid_ciphertext =
  hc_x25519_public :: bytes
  hc_mlkem_ciphertext :: bytes

record hybrid_keypair =
  hk_public :: hybrid_public_key
  hk_secret :: hybrid_secret_key

datatype kem_context = KcWelcome | KcGroupUpdate | KcRecoveryWriterHandoff

fun domain_string :: "kem_context \<Rightarrow> bytes" where
  "domain_string KcWelcome = as_bytes ''hybridkem-welcome''"
| "domain_string KcGroupUpdate = as_bytes ''hybridkem-groupupdate''"
| "domain_string KcRecoveryWriterHandoff = as_bytes ''hybridkem-recovery-writer-handoff-v1''"

definition hybrid_public_from_bytes :: "bytes \<Rightarrow> (hybrid_public_key, crypto_error) result" where
  "hybrid_public_from_bytes b =
     rbind (sized_bytes HYBRID_PUBLIC_KEY_LEN InvalidKey b) (\<lambda>b.
     rbind (x25519_public_from_bytes (take 32 b)) (\<lambda>x25519_public.
     rbind (mlkem_public_from_bytes (drop 32 b)) (\<lambda>mlkem_public.
     Ok \<lparr>hp_x25519_public = x25519_public, hp_mlkem_public = mlkem_public\<rparr>)))"

definition hybrid_public_to_bytes :: "hybrid_public_key \<Rightarrow> bytes" where
  "hybrid_public_to_bytes k = hp_x25519_public k @ hp_mlkem_public k"

definition hybrid_secret_from_bytes :: "bytes \<Rightarrow> (hybrid_secret_key, crypto_error) result" where
  "hybrid_secret_from_bytes b =
     rbind (sized_bytes HYBRID_SECRET_KEY_LEN InvalidKey b) (\<lambda>b.
     rbind (x25519_private_from_bytes (take 32 b)) (\<lambda>x25519_private.
     rbind (mlkem_secret_from_bytes (drop 32 b)) (\<lambda>mlkem_secret.
     Ok \<lparr>hs_x25519_private = x25519_private, hs_mlkem_secret = mlkem_secret\<rparr>)))"

definition hybrid_secret_to_bytes :: "hybrid_secret_key \<Rightarrow> bytes" where
  "hybrid_secret_to_bytes k = hs_x25519_private k @ hs_mlkem_secret k"

definition hybrid_ciphertext_from_bytes :: "bytes \<Rightarrow> (hybrid_ciphertext, crypto_error) result" where
  "hybrid_ciphertext_from_bytes b =
     rbind (sized_bytes HYBRID_CIPHERTEXT_LEN InvalidCiphertext b) (\<lambda>b.
     rbind (x25519_public_from_bytes (take 32 b)) (\<lambda>x25519_public.
     rbind (mlkem_ciphertext_from_bytes (drop 32 b)) (\<lambda>mlkem_ciphertext.
     Ok \<lparr>hc_x25519_public = x25519_public, hc_mlkem_ciphertext = mlkem_ciphertext\<rparr>)))"

definition hybrid_ciphertext_to_bytes :: "hybrid_ciphertext \<Rightarrow> bytes" where
  "hybrid_ciphertext_to_bytes c = hc_x25519_public c @ hc_mlkem_ciphertext c"

definition hybrid_generate :: "crypto_prims \<Rightarrow> bytes \<Rightarrow> bytes \<Rightarrow> (hybrid_keypair, crypto_error) result" where
  "hybrid_generate pr rng coin =
     (let x25519 = x25519_generate pr rng in
      rbind (mlkem_generate pr coin) (\<lambda>(mlkem_secret, mlkem_public).
      Ok \<lparr>hk_public = \<lparr>hp_x25519_public = xk_public x25519, hp_mlkem_public = mlkem_public\<rparr>,
          hk_secret = \<lparr>hs_x25519_private = xk_private x25519, hs_mlkem_secret = mlkem_secret\<rparr>\<rparr>))"

definition derive_shared_secret :: "crypto_prims \<Rightarrow> bytes \<Rightarrow> bytes \<Rightarrow> kem_context \<Rightarrow> (bytes, crypto_error) result" where
  "derive_shared_secret pr x25519_shared mlkem_shared context =
     (let ikm = x25519_shared @ mlkem_shared
      in map_err (\<lambda>_. KeyDerivationFailure ''HKDF expansion failed'')
           (pr_hkdf_expand pr (pr_hkdf_extract pr None ikm) (domain_string context) SHARED_SECRET_LEN))"

definition encap ::
  "crypto_prims \<Rightarrow> bytes \<Rightarrow> bytes \<Rightarrow> hybrid_public_key \<Rightarrow> kem_context \<Rightarrow> (hybrid_ciphertext \<times> bytes, crypto_error) result" where
  "encap pr rng coin pk_remote context =
     (let x25519_ephemeral = x25519_generate pr rng in
      rbind (diffie_hellman pr (xk_private x25519_ephemeral) (hp_x25519_public pk_remote)) (\<lambda>x25519_shared.
      rbind (encapsulate pr coin (hp_mlkem_public pk_remote)) (\<lambda>(mlkem_ciphertext, mlkem_shared).
      rbind (derive_shared_secret pr x25519_shared mlkem_shared context) (\<lambda>combined_shared.
      Ok (\<lparr>hc_x25519_public = xk_public x25519_ephemeral, hc_mlkem_ciphertext = mlkem_ciphertext\<rparr>, combined_shared)))))"

definition decap :: "crypto_prims \<Rightarrow> hybrid_secret_key \<Rightarrow> hybrid_ciphertext \<Rightarrow> kem_context \<Rightarrow> (bytes, crypto_error) result" where
  "decap pr sk_local ct context =
     rbind (diffie_hellman pr (hs_x25519_private sk_local) (hc_x25519_public ct)) (\<lambda>x25519_shared.
     rbind (decapsulate pr (hs_mlkem_secret sk_local) (hc_mlkem_ciphertext ct)) (\<lambda>mlkem_shared.
     derive_shared_secret pr x25519_shared mlkem_shared context))"

subsection \<open>Epoch identifiers as UUIDs\<close>

definition to_be_bytes :: "u64 \<Rightarrow> bytes" where
  "to_be_bytes w = rev (to_le_bytes w)"

definition from_be_bytes :: "bytes \<Rightarrow> u64" where
  "from_be_bytes b = from_le_bytes (rev b)"

definition epoch_mac :: "crypto_prims \<Rightarrow> u64 \<Rightarrow> bytes \<Rightarrow> bytes" where
  "epoch_mac pr epoch_id group_context = pr_sha256 pr (group_context @ to_be_bytes epoch_id @ as_bytes ''epoch-map-v1'')"

definition u64_to_uuid :: "crypto_prims \<Rightarrow> u64 \<Rightarrow> bytes \<Rightarrow> bytes" where
  "u64_to_uuid pr epoch_id group_context = to_be_bytes epoch_id @ take 8 (epoch_mac pr epoch_id group_context)"

definition uuid_to_u64 :: "crypto_prims \<Rightarrow> bytes \<Rightarrow> bytes \<Rightarrow> u64 option" where
  "uuid_to_u64 pr uuid group_context =
     (let epoch_id = from_be_bytes (take 8 uuid)
      in if take 8 (epoch_mac pr epoch_id group_context) = take 8 (drop 8 uuid) then Some epoch_id else None)"

definition verify_epoch_mapping :: "crypto_prims \<Rightarrow> u64 \<Rightarrow> bytes \<Rightarrow> bytes \<Rightarrow> bool" where
  "verify_epoch_mapping pr u64_id uuid group_context \<longleftrightarrow> u64_to_uuid pr u64_id group_context = uuid"

definition cutover_commit_message :: "bytes \<Rightarrow> bytes \<Rightarrow> bytes" where
  "cutover_commit_message operation_id descriptor_commitment =
     as_bytes ''hybridcipher.cutover_commit.v1'' @ operation_id @ descriptor_commitment"

subsection \<open>Protected account data\<close>

abbreviation (input) PROTECTED_DATA_MAGIC :: string where "PROTECTED_DATA_MAGIC \<equiv> ''hybridcipher-protected''"
abbreviation (input) PROTECTED_DATA_VERSION :: byte where "PROTECTED_DATA_VERSION \<equiv> 1"

record protected_data =
  pd_magic :: string
  pd_version :: byte
  pd_nonce :: string
  pd_ciphertext :: string

definition is_supported :: "protected_data \<Rightarrow> bool" where
  "is_supported p \<longleftrightarrow> pd_magic p = PROTECTED_DATA_MAGIC \<and> pd_version p = PROTECTED_DATA_VERSION"

definition encrypt_with_ad :: "crypto_prims \<Rightarrow> bytes \<Rightarrow> bytes \<Rightarrow> bytes \<Rightarrow> bytes \<Rightarrow> (protected_data, crypto_error) result" where
  "encrypt_with_ad pr rng plaintext key aad =
     rbind (map_err (\<lambda>e. EncryptionFailure (''failed to encrypt data: '' @ e)) (pr_encrypt pr key rng aad plaintext)) (\<lambda>ciphertext.
     Ok \<lparr>pd_magic = PROTECTED_DATA_MAGIC, pd_version = PROTECTED_DATA_VERSION, pd_nonce = pr_b64_encode pr rng,
         pd_ciphertext = pr_b64_encode pr ciphertext\<rparr>)"

definition decrypt_with_ad :: "crypto_prims \<Rightarrow> protected_data \<Rightarrow> bytes \<Rightarrow> bytes \<Rightarrow> (bytes, crypto_error) result" where
  "decrypt_with_ad pr p key aad =
     rbind (guard (is_supported p) (InvalidCiphertext (''unsupported protected blob format: magic='' @ [CHR 0x27] @ pd_magic p @
             [CHR 0x27] @ '', version='' @ dec_nat (unat (pd_version p))))) (\<lambda>_.
     rbind (map_err (\<lambda>e. InvalidNonce (''failed to decode nonce (base64): '' @ e)) (pr_b64_decode pr (pd_nonce p))) (\<lambda>nonce.
     rbind (guard (length nonce = 12) (InvalidNonce (''expected 12 bytes, got '' @ dec_nat (length nonce)))) (\<lambda>_.
     rbind (map_err (\<lambda>e. InvalidCiphertext (''failed to decode ciphertext (base64): '' @ e))
             (pr_b64_decode pr (pd_ciphertext p))) (\<lambda>ciphertext.
     map_err (\<lambda>e. DecryptionFailure (''failed to decrypt data: '' @ e)) (pr_decrypt pr key nonce aad ciphertext)))))"

subsection \<open>What the primitives promise\<close>

text \<open>
  The AEAD is deterministic for a given key and nonce, and decryption is the inverse of encryption: it
  recomputes the tag. Keys have 32 and nonces 12 bytes, the tag 16.
\<close>

definition aead_documented :: "crypto_prims \<Rightarrow> bool" where
  "aead_documented pr \<longleftrightarrow>
     (\<forall>key nonce aad m c. length key = 32 \<longrightarrow> length nonce = 12 \<longrightarrow>
        (pr_encrypt pr key nonce aad m = Ok c \<longleftrightarrow> pr_decrypt pr key nonce aad c = Ok m) \<and>
        (pr_encrypt pr key nonce aad m = Ok c \<longrightarrow> length c = length m + 16))"

text \<open>RFC 5869 with SHA-256: 32 byte pseudorandom keys, outputs of the requested length.\<close>

definition hkdf_documented :: "crypto_prims \<Rightarrow> bool" where
  "hkdf_documented pr \<longleftrightarrow>
     (\<forall>salt ikm. length (pr_hkdf_extract pr salt ikm) = 32) \<and>
     (\<forall>prk. is_ok (pr_hkdf_from_prk pr prk) \<longleftrightarrow> 32 \<le> length prk) \<and>
     (\<forall>prk info n. n \<le> 255 * 32 \<longrightarrow> (\<exists>okm. pr_hkdf_expand pr prk info n = Ok okm \<and> length okm = n))"

definition kem_documented :: "crypto_prims \<Rightarrow> bool" where
  "kem_documented pr \<longleftrightarrow>
     (\<forall>a b. length a = 32 \<longrightarrow> length b = 32 \<longrightarrow>
        length (pr_x25519_public pr a) = 32 \<and>
        pr_x25519_dh pr a (pr_x25519_public pr b) = pr_x25519_dh pr b (pr_x25519_public pr a)) \<and>
     (\<forall>coin sk pk. pr_mlkem_keygen pr coin = Ok (sk, pk) \<longrightarrow>
        length sk = MLKEM_SECRET_KEY_LEN \<and> length pk = MLKEM_PUBLIC_KEY_LEN \<and>
        (\<forall>coin' ct ss. pr_mlkem_encap pr coin' pk = Ok (ct, ss) \<longrightarrow>
           length ct = MLKEM_CIPHERTEXT_LEN \<and> pr_mlkem_decap pr sk ct = Ok ss))"

definition base64_documented :: "crypto_prims \<Rightarrow> bool" where
  "base64_documented pr \<longleftrightarrow> (\<forall>b. pr_b64_decode pr (pr_b64_encode pr b) = Ok b)"

subsection \<open>Library\<close>

lemma sized_bytes_Ok_iff [simp]: "sized_bytes n err b = Ok c \<longleftrightarrow> length b = n \<and> c = b"
  by (auto simp: sized_bytes_def)

lemma nonce_bytes_Ok [simp]: "length b = 12 \<Longrightarrow> nonce_from_bytes b = Ok b"
  by (simp add: nonce_from_bytes_def)

lemma aead_documentedD:
  assumes "aead_documented pr" and "length key = 32" and "length nonce = 12"
  shows "pr_encrypt pr key nonce aad m = Ok c \<longleftrightarrow> pr_decrypt pr key nonce aad c = Ok m"
    and "pr_encrypt pr key nonce aad m = Ok c \<Longrightarrow> length c = length m + 16"
  using assms unfolding aead_documented_def by blast+

text \<open>No domain prefix is a prefix of another: the first character already tells them apart.\<close>

lemma domain_prefix_inj: "domain_prefix c1 @ a1 = domain_prefix c2 @ a2 \<longleftrightarrow> c1 = c2 \<and> a1 = a2"
  by (cases c1; cases c2) (auto simp: as_bytes_def of_char_def)

lemma info_string_inj: "info_string c1 = info_string c2 \<longleftrightarrow> c1 = c2"
  by (cases c1; cases c2) (simp_all add: as_bytes_inj)

lemma domain_string_inj: "domain_string c1 = domain_string c2 \<longleftrightarrow> c1 = c2"
  by (cases c1; cases c2) (simp_all add: as_bytes_inj)

lemma from_to_be_bytes [simp]: "from_be_bytes (to_be_bytes w) = w"
  by (simp add: from_be_bytes_def to_be_bytes_def)

lemma length_to_be_bytes [simp]: "length (to_be_bytes w) = 8"
  by (simp add: to_be_bytes_def)

lemma to_from_be_bytes: "length b = 8 \<Longrightarrow> to_be_bytes (from_be_bytes b) = b"
  by (simp add: to_be_bytes_def from_be_bytes_def to_from_le_bytes)

lemma check_output_length_Ok [simp]: "check_output_length n = Ok u \<longleftrightarrow> 0 < n \<and> n \<le> 255 * 32"
  by (auto simp: check_output_length_def guard_Ok_iff)

lemma hkdf_expand_length:
  assumes "hkdf_documented pr" and "hkdf_expand pr prk c n = Ok k"
  shows "length k = n"
proof -
  have k: "n \<le> 255 * 32" "pr_hkdf_expand pr prk (info_string c) n = Ok k"
    using assms(2) by (auto simp: hkdf_expand_def result_simps)
  then obtain okm where "pr_hkdf_expand pr prk (info_string c) n = Ok okm" "length okm = n"
    using assms(1) unfolding hkdf_documented_def by blast
  with k(2) show ?thesis by simp
qed

lemma hkdf_expand_Ok:
  assumes "hkdf_documented pr" and "32 \<le> length prk" and "0 < n" and "n \<le> 255 * 32"
  shows "\<exists>okm. hkdf_expand pr prk c n = Ok okm \<and> length okm = n"
proof -
  have "is_ok (pr_hkdf_from_prk pr prk)" using assms(1,2) by (simp add: hkdf_documented_def)
  then have "pr_hkdf_from_prk pr prk = Ok ()" by (cases "pr_hkdf_from_prk pr prk") auto
  moreover obtain okm where "pr_hkdf_expand pr prk (info_string c) n = Ok okm" "length okm = n"
    using assms unfolding hkdf_documented_def by blast
  moreover have "check_output_length n = Ok ()" using assms(3,4) by (simp only: check_output_length_Ok)
  ultimately show ?thesis by (auto simp: hkdf_expand_def result_simps)
qed

text \<open>The generated key pairs, ciphertexts and their wire format.\<close>

lemma hybrid_bytes_round_trip:
  "length (hp_x25519_public k) = 32 \<Longrightarrow> length (hp_mlkem_public k) = MLKEM_PUBLIC_KEY_LEN \<Longrightarrow>
     hybrid_public_from_bytes (hybrid_public_to_bytes k) = Ok k"
  "length (hs_x25519_private sk) = 32 \<Longrightarrow> length (hs_mlkem_secret sk) = MLKEM_SECRET_KEY_LEN \<Longrightarrow>
     hybrid_secret_from_bytes (hybrid_secret_to_bytes sk) = Ok sk"
  "length (hc_x25519_public c) = 32 \<Longrightarrow> length (hc_mlkem_ciphertext c) = MLKEM_CIPHERTEXT_LEN \<Longrightarrow>
     hybrid_ciphertext_from_bytes (hybrid_ciphertext_to_bytes c) = Ok c"
  by (simp_all add: hybrid_public_from_bytes_def hybrid_public_to_bytes_def hybrid_secret_from_bytes_def
      hybrid_secret_to_bytes_def hybrid_ciphertext_from_bytes_def hybrid_ciphertext_to_bytes_def rbind_Ok_iff
      x25519_public_from_bytes_def x25519_private_from_bytes_def mlkem_public_from_bytes_def
      mlkem_secret_from_bytes_def mlkem_ciphertext_from_bytes_def)

lemma kem_documentedD:
  assumes "kem_documented pr"
  shows "length a = 32 \<Longrightarrow> length b = 32 \<Longrightarrow>
      pr_x25519_dh pr a (pr_x25519_public pr b) = pr_x25519_dh pr b (pr_x25519_public pr a)"
    and "length a = 32 \<Longrightarrow> length (pr_x25519_public pr a) = 32"
    and "pr_mlkem_keygen pr coin = Ok (sk, pk) \<Longrightarrow> length sk = MLKEM_SECRET_KEY_LEN \<and> length pk = MLKEM_PUBLIC_KEY_LEN"
    and "pr_mlkem_keygen pr coin = Ok (sk, pk) \<Longrightarrow> pr_mlkem_encap pr coin' pk = Ok (ct, ss) \<Longrightarrow>
      length ct = MLKEM_CIPHERTEXT_LEN \<and> pr_mlkem_decap pr sk ct = Ok ss"
  using assms unfolding kem_documented_def by blast+

subsection \<open>Sample primitives\<close>

text \<open>Concrete functions that satisfy the laws, on which the properties are evaluated.\<close>

definition sample_prims :: crypto_prims where
  "sample_prims =
     \<lparr>pr_encrypt = (\<lambda>key nonce aad m. Ok (m @ replicate 16 0)),
      pr_decrypt = (\<lambda>key nonce aad c.
        if 16 \<le> length c \<and> drop (length c - 16) c = replicate 16 0 then Ok (take (length c - 16) c) else Err ''aead''),
      pr_hkdf_extract = (\<lambda>salt ikm. take 32 (ikm @ replicate 32 0)),
      pr_hkdf_from_prk = (\<lambda>prk. if 32 \<le> length prk then Ok () else Err ''short''),
      pr_hkdf_expand = (\<lambda>prk info n. Ok (take n (info @ prk @ replicate n 0))),
      pr_sha256 = sample_sha,
      pr_x25519_public = (\<lambda>a. a),
      pr_x25519_dh = (\<lambda>a b. map2 (+) a b),
      pr_mlkem_keygen = (\<lambda>coin. Ok (replicate 2400 0, replicate 1184 0)),
      pr_mlkem_encap = (\<lambda>coin pk. Ok (replicate 1088 0, replicate 32 7)),
      pr_mlkem_decap = (\<lambda>sk ct. Ok (replicate 32 7)),
      pr_b64_encode = (\<lambda>b. map (\<lambda>w. char_of (unat w)) b),
      pr_b64_decode = (\<lambda>s. Ok (map (\<lambda>c. of_nat (of_char c)) s))\<rparr>"

lemma sample_aead: "aead_documented sample_prims"
proof -
  have "(m @ replicate 16 0 = c) =
      (16 \<le> length c \<and> drop (length c - 16) c = replicate 16 0 \<and> take (length c - 16) c = m)" for m c :: bytes
  proof
    assume "16 \<le> length c \<and> drop (length c - 16) c = replicate 16 0 \<and> take (length c - 16) c = m"
    then show "m @ replicate 16 0 = c" by (metis append_take_drop_id)
  qed auto
  then show ?thesis unfolding aead_documented_def sample_prims_def by auto
qed

lemma sample_hkdf: "hkdf_documented sample_prims"
  by (auto simp: hkdf_documented_def sample_prims_def min_def)

lemma map2_add_commute: "map2 (+) a b = map2 (+) b (a :: bytes)"
  by (induction a b rule: list_induct2') (auto simp: add.commute)

lemma sample_kem: "kem_documented sample_prims"
  using map2_add_commute by (auto simp: kem_documented_def sample_prims_def)

lemma sample_base64: "base64_documented sample_prims"
proof -
  have "of_nat (of_char (char_of (unat w) :: char)) = w" for w :: byte
    using unsigned_less [of w, where 'a = nat] by (simp add: mod_less)
  then show ?thesis by (simp add: base64_documented_def sample_prims_def comp_def)
qed

subsection \<open>Properties\<close>

text \<open>
  With a 32 byte key and a 12 byte nonce, opening succeeds on exactly the ciphertexts that sealing the
  result in the same context and with the same associated data produces.
\<close>

lemma open_sealed_iff:
  assumes "aead_documented pr" and "length key = 32" and "length nonce = 12"
  shows "open_sealed pr key nonce context aad c = Ok m \<longleftrightarrow> seal pr key nonce context aad m = Ok c"
  using aead_documentedD [OF assms] by (simp add: open_sealed_def seal_def map_err_Ok_iff)

text \<open>
  The associated data that reach the cipher determine the context and the caller's part: no two
  contexts share an input. Data sealed without a context can still be opened in one, when the caller's
  associated data begin with its prefix.
\<close>

theorem aead_domain_separation:
  "(domain_prefix c1 @ a1 = domain_prefix c2 @ a2 \<longleftrightarrow> c1 = c2 \<and> a1 = a2) \<and>
   open_sealed pr key nonce c1 a1 = open_with_aad pr key nonce (domain_prefix c1 @ a1)"
  by (auto simp: domain_prefix_inj open_sealed_def open_with_aad_def)

text \<open>
  Deriving several keys at once gives exactly the keys that separate derivations give: one extraction
  serves all expansions.
\<close>

theorem hkdf_derive_multiple_equiv:
  assumes "hkdf_documented pr"
  shows "hkdf_derive_multiple pr salt ikm cls = Ok keys \<longleftrightarrow>
     list_all2 (\<lambda>cl key. hkdf_derive pr salt ikm (fst cl) (snd cl) = Ok key \<and> length key = snd cl) cls keys"
proof -
  let ?prk = "pr_hkdf_extract pr salt ikm"
  have "is_ok (pr_hkdf_from_prk pr ?prk)" using assms by (auto simp: hkdf_documented_def)
  then have from_prk: "pr_hkdf_from_prk pr ?prk = Ok ()" by (cases "pr_hkdf_from_prk pr ?prk") auto
  have len: "length key = n" if "pr_hkdf_expand pr ?prk info n = Ok key" "n \<le> 255 * 32" for info n key
    using assms that unfolding hkdf_documented_def by (metis result.inject(1))
  have one: "hkdf_expand pr ?prk c n = Ok key \<longleftrightarrow> hkdf_derive pr salt ikm c n = Ok key \<and> length key = n" for c n key
    using len by (auto simp: hkdf_expand_def hkdf_derive_def rbind_Ok_iff map_err_Ok_iff from_prk)
  have "expand_all pr ?prk cls = Ok keys \<longleftrightarrow> list_all2 (\<lambda>cl key. hkdf_expand pr ?prk (fst cl) (snd cl) = Ok key) cls keys"
    by (induction cls arbitrary: keys) (auto simp: rbind_Ok_iff list_all2_Cons1)
  then show ?thesis by (simp add: hkdf_derive_multiple_def hkdf_extract_def one)
qed

theorem hkdf_derive_multiple_equiv_witness:
  "\<exists>k1 k2. hkdf_derive_multiple sample_prims None [1] [(HcFileKey, 4), (HcAuthKey, 6)] = Ok [k1, k2] \<and>
     hkdf_derive sample_prims None [1] HcFileKey 4 = Ok k1 \<and> hkdf_derive sample_prims None [1] HcAuthKey 6 = Ok k2"
proof -
  have "hkdf_derive sample_prims None [1] HcFileKey 4 = Ok (as_bytes ''file'')"
    and "hkdf_derive sample_prims None [1] HcAuthKey 6 = Ok (as_bytes ''auth-k'')"
    by (simp_all add: hkdf_derive_def check_output_length_def guard_def sample_prims_def as_bytes_def)
  then show ?thesis
    using hkdf_derive_multiple_equiv [OF sample_hkdf, of None "[1]" "[(HcFileKey, 4), (HcAuthKey, 6)]"
        "[as_bytes ''file'', as_bytes ''auth-k'']"] by simp
qed

lemma public_key_of_pair:
  assumes "kem_documented pr" and "length rng = 32" and "hybrid_generate pr rng coin = Ok pair"
  shows "hybrid_public_from_bytes (hybrid_public_to_bytes (hk_public pair)) = Ok (hk_public pair)"
proof -
  obtain mls mlp where "pr_mlkem_keygen pr coin = Ok (mls, mlp)"
    and "hk_public pair = \<lparr>hp_x25519_public = pr_x25519_public pr rng, hp_mlkem_public = mlp\<rparr>"
    using assms(3) by (auto simp: hybrid_generate_def mlkem_generate_def x25519_generate_def result_simps Let_def)
  then show ?thesis
    using kem_documentedD(2) [OF assms(1,2)] kem_documentedD(3) [OF assms(1)] by (intro hybrid_bytes_round_trip) auto
qed

text \<open>
  What a key pair and an encapsulation to it guarantee to the functions built on them: every part has
  its wire format, and decapsulation gives the encapsulated secret.
\<close>

lemma encap_decap:
  assumes doc: "kem_documented pr" and len: "length rng = 32" "length rng' = 32"
    and gen: "hybrid_generate pr rng coin = Ok pair" and enc: "encap pr rng' coin' (hk_public pair) context = Ok (ct, ss)"
  shows "hybrid_secret_from_bytes (hybrid_secret_to_bytes (hk_secret pair)) = Ok (hk_secret pair)"
    and "hybrid_ciphertext_from_bytes (hybrid_ciphertext_to_bytes ct) = Ok ct"
    and "length (hybrid_ciphertext_to_bytes ct) = HYBRID_CIPHERTEXT_LEN"
    and "decap pr (hk_secret pair) ct context = Ok ss"
proof -
  note K = kem_documentedD [OF doc]
  obtain mls mlp where keys: "pr_mlkem_keygen pr coin = Ok (mls, mlp)"
    and pair: "pair = \<lparr>hk_public = \<lparr>hp_x25519_public = pr_x25519_public pr rng, hp_mlkem_public = mlp\<rparr>,
                       hk_secret = \<lparr>hs_x25519_private = rng, hs_mlkem_secret = mls\<rparr>\<rparr>"
    using gen by (auto simp: hybrid_generate_def mlkem_generate_def x25519_generate_def rbind_Ok_iff map_err_Ok_iff Let_def)
  obtain mlc mlss xs where dh: "diffie_hellman pr rng' (pr_x25519_public pr rng) = Ok xs"
    and enc': "pr_mlkem_encap pr coin' mlp = Ok (mlc, mlss)"
    and ss: "derive_shared_secret pr xs mlss context = Ok ss"
    and ct: "ct = \<lparr>hc_x25519_public = pr_x25519_public pr rng', hc_mlkem_ciphertext = mlc\<rparr>"
    using enc by (auto simp: encap_def pair encapsulate_def x25519_generate_def rbind_Ok_iff map_err_Ok_iff Let_def split: if_splits)
  note E = K(4) [OF keys enc'] and S = K(3) [OF keys] and X = K(2) [OF len(1)] K(2) [OF len(2)]
  show "hybrid_secret_from_bytes (hybrid_secret_to_bytes (hk_secret pair)) = Ok (hk_secret pair)"
    using hybrid_bytes_round_trip(2) [of "hk_secret pair"] S len by (simp add: pair)
  show "hybrid_ciphertext_from_bytes (hybrid_ciphertext_to_bytes ct) = Ok ct"
    using hybrid_bytes_round_trip(3) [of ct] E X by (simp add: ct)
  show "length (hybrid_ciphertext_to_bytes ct) = HYBRID_CIPHERTEXT_LEN"
    using E X by (simp add: ct hybrid_ciphertext_to_bytes_def)
  have "diffie_hellman pr rng (pr_x25519_public pr rng') = Ok xs"
    using dh K(1) [OF len] by (simp add: diffie_hellman_def)
  moreover have "decapsulate pr mls mlc = Ok mlss"
    using E S by (simp add: decapsulate_def map_err_Ok_iff)
  ultimately show "decap pr (hk_secret pair) ct context = Ok ss"
    using ss by (simp add: decap_def pair ct rbind_Ok_iff)
qed

text \<open>
  C18. The holder of the hybrid secret key recovers the secret that was encapsulated to the public key,
  also after the ciphertext and the secret key have passed through their wire formats.
\<close>

theorem kem_round_trip:
  assumes doc: "kem_documented pr" and len: "length rng = 32" "length rng' = 32"
    and gen: "hybrid_generate pr rng coin = Ok pair" and enc: "encap pr rng' coin' (hk_public pair) context = Ok (ct, ss)"
  shows "\<exists>sk ct'. hybrid_secret_from_bytes (hybrid_secret_to_bytes (hk_secret pair)) = Ok sk \<and>
     hybrid_ciphertext_from_bytes (hybrid_ciphertext_to_bytes ct) = Ok ct' \<and> decap pr sk ct' context = Ok ss"
  using encap_decap [OF assms] by blast

definition sample_pair :: hybrid_keypair where
  "sample_pair =
     \<lparr>hk_public = \<lparr>hp_x25519_public = replicate 32 1, hp_mlkem_public = replicate 1184 0\<rparr>,
      hk_secret = \<lparr>hs_x25519_private = replicate 32 1, hs_mlkem_secret = replicate 2400 0\<rparr>\<rparr>"

lemma sample_generate: "hybrid_generate sample_prims (replicate 32 1) [] = Ok sample_pair"
  by (simp add: hybrid_generate_def mlkem_generate_def x25519_generate_def sample_prims_def sample_pair_def)

lemma sample_encap:
  "encap sample_prims (replicate 32 2) [] (hk_public sample_pair) context =
     Ok (\<lparr>hc_x25519_public = replicate 32 2, hc_mlkem_ciphertext = replicate 1088 0\<rparr>,
         take 32 (domain_string context @ replicate 32 3 @ replicate 32 0))"
proof -
  have "map2 (+) (replicate 32 2) (replicate 32 1) = replicate 32 (3 :: byte)" by (simp add: zip_replicate)
  then have dh: "diffie_hellman sample_prims (replicate 32 2) (replicate 32 1) = Ok (replicate 32 3)"
    by (simp add: diffie_hellman_def sample_prims_def list_all_iff Let_def)
  have "encapsulate sample_prims [] (replicate 1184 0) = Ok (replicate 1088 0, replicate 32 7)"
    by (simp add: encapsulate_def sample_prims_def)
  with dh show ?thesis
    by (simp add: encap_def x25519_generate_def derive_shared_secret_def sample_pair_def sample_prims_def Let_def)
qed

theorem kem_round_trip_witness:
  "\<exists>pair ct ss. hybrid_generate sample_prims (replicate 32 1) [] = Ok pair \<and>
     encap sample_prims (replicate 32 2) [] (hk_public pair) KcWelcome = Ok (ct, ss) \<and>
     (\<exists>sk ct'. hybrid_secret_from_bytes (hybrid_secret_to_bytes (hk_secret pair)) = Ok sk \<and>
        hybrid_ciphertext_from_bytes (hybrid_ciphertext_to_bytes ct) = Ok ct' \<and> decap sample_prims sk ct' KcWelcome = Ok ss)"
  using kem_round_trip [OF sample_kem _ _ sample_generate sample_encap [of KcWelcome]] sample_generate sample_encap [of KcWelcome]
  by (simp only: length_replicate) blast

text \<open>
  A UUID is accepted as the name of an epoch by the verifier exactly when decoding it yields that
  epoch, and every epoch's own UUID decodes to it, whatever the group context.
\<close>

theorem epoch_mapping_equiv:
  assumes "sha256_len (pr_sha256 pr)" and "length uuid = 16"
  shows "(verify_epoch_mapping pr i uuid context \<longleftrightarrow> uuid_to_u64 pr uuid context = Some i) \<and>
     length (u64_to_uuid pr i context) = 16 \<and> uuid_to_u64 pr (u64_to_uuid pr i context) context = Some i"
proof -
  have len: "length (take 8 (epoch_mac pr j context)) = 8" for j
    using assms(1) by (simp add: epoch_mac_def sha256_len_def)
  have rt: "uuid_to_u64 pr (u64_to_uuid pr i context) context = Some i"
    using len by (simp add: uuid_to_u64_def u64_to_uuid_def)
  moreover have "u64_to_uuid pr i context = uuid" if "uuid_to_u64 pr uuid context = Some i"
  proof -
    from that have i: "i = from_be_bytes (take 8 uuid)" "take 8 (epoch_mac pr i context) = take 8 (drop 8 uuid)"
      by (auto simp: uuid_to_u64_def Let_def split: if_splits)
    have "to_be_bytes i = take 8 uuid" unfolding i(1) using assms(2) by (intro to_from_be_bytes) simp
    moreover have "take 8 (drop 8 uuid) = drop 8 uuid" using assms(2) by simp
    ultimately show ?thesis unfolding u64_to_uuid_def i(2) by simp
  qed
  ultimately show ?thesis using len by (auto simp: verify_epoch_mapping_def u64_to_uuid_def)
qed

theorem epoch_mapping_equiv_witness:
  "\<exists>uuid. verify_epoch_mapping sample_prims 7 uuid [1, 2] \<and> uuid_to_u64 sample_prims uuid [1, 2] = Some 7"
proof -
  have sha: "sha256_len (pr_sha256 sample_prims)" by (simp add: sample_prims_def sample_sha_len)
  have len: "length (u64_to_uuid sample_prims 7 [1, 2]) = 16" by code_simp
  from epoch_mapping_equiv [OF sha len, of 7 "[1, 2]"] show ?thesis by blast
qed

text \<open>
  Account data protected under a key and associated data decrypt to the same plaintext, and an
  envelope of another format or version is rejected before any decryption.
\<close>

theorem protected_data_round_trip:
  assumes "aead_documented pr" and "base64_documented pr" and "length key = 32" and "length rng = 12"
  shows "(encrypt_with_ad pr rng m key aad = Ok p \<longrightarrow> is_supported p \<and> decrypt_with_ad pr p key aad = Ok m) \<and>
     (\<not> is_supported q \<longrightarrow> (\<exists>e. decrypt_with_ad pr q key aad = Err (InvalidCiphertext e)))"
proof -
  have "is_supported p \<and> decrypt_with_ad pr p key aad = Ok m" if "encrypt_with_ad pr rng m key aad = Ok p"
    using that assms(2,4) aead_documentedD(1) [OF assms(1,3,4)]
    by (auto simp: encrypt_with_ad_def decrypt_with_ad_def base64_documented_def is_supported_def rbind_Ok_iff
        map_err_Ok_iff guard_Ok_iff)
  moreover have "\<exists>e. decrypt_with_ad pr q key aad = Err (InvalidCiphertext e)" if "\<not> is_supported q"
    using that by (simp add: decrypt_with_ad_def guard_def)
  ultimately show ?thesis by blast
qed

theorem protected_data_round_trip_witness:
  "\<exists>p. encrypt_with_ad sample_prims (replicate 12 3) [9, 8] (replicate 32 1) [4] = Ok p \<and>
     decrypt_with_ad sample_prims p (replicate 32 1) [4] = Ok [9, 8]"
proof -
  obtain p where p: "encrypt_with_ad sample_prims (replicate 12 3) [9, 8] (replicate 32 1) [4] = Ok p"
    by (simp add: encrypt_with_ad_def sample_prims_def)
  with protected_data_round_trip [OF sample_aead sample_base64, of "replicate 32 1" "replicate 12 3" "[9, 8]" "[4]" p]
  show ?thesis by auto
qed

end
