(* ===== verification/Migration.thy ===== *)
theory Migration
  imports CutoverCoordinator Crypto
begin

text \<open>
  The two-phase migration manager (\<open>crates/client/src/epoch/migration.rs\<close>) and the epoch manager in
  front of it (\<open>crates/client/src/epoch/mod.rs\<close>), on top of the cutover coordinator. The manager's
  state owns the coordinator, whose world (clock, network, storage) it shares. A call that ends in the
  coordinator may not return while votes are missing; such calls take the coordinator's schedule and
  have an optional result. \<open>MigPanicked\<close> and \<open>MigDeadlocked\<close> stand for calls that panic or block for
  ever inside the coordinator. The welcome and group update processors behind the epoch manager are
  not part of this theory.
\<close>

subsection \<open>Data\<close>

datatype migration_error =
    MigrationInProgress
  | MigInvalidState
  | MigStorage string
  | MigNetwork string
  | MigTimeout
  | MigValidationFailed string
  | MigPanicked
  | MigDeadlocked

fun migration_error_display :: "migration_error \<Rightarrow> string" where
  "migration_error_display MigrationInProgress = ''Migration already in progress''"
| "migration_error_display MigInvalidState = ''Invalid migration state''"
| "migration_error_display (MigStorage m) = ''Storage error: '' @ m"
| "migration_error_display (MigNetwork m) = ''Network error: '' @ m"
| "migration_error_display MigTimeout = ''Timeout during migration''"
| "migration_error_display (MigValidationFailed m) = ''Migration validation failed: '' @ m"
| "migration_error_display MigPanicked = []"
| "migration_error_display MigDeadlocked = []"

datatype migration_phase = MpPrepare | MpRewrap | MpSync | MpCutover

datatype migration_status = MsIdle | MsActive migration_phase

record migration_config =
  mf_max_duration :: int
  mf_batch_size :: nat
  mf_progress_interval :: int
  mf_auto_rollback :: bool

definition default_migration_config :: migration_config where
  "default_migration_config =
     \<lparr>mf_max_duration = 24 * 3600 * 1000000000, mf_batch_size = 100, mf_progress_interval = 5 * 60 * 1000000000,
      mf_auto_rollback = True\<rparr>"

record migration_metrics =
  mt_migration_start_time :: "instant option"
  mt_total_migration_time :: int
  mt_files_rewrapped :: nat
  mt_total_files :: nat
  mt_phase_transitions :: nat
  mt_completed_migrations :: nat
  mt_failed_migrations :: nat

definition default_migration_metrics :: migration_metrics where
  "default_migration_metrics =
     \<lparr>mt_migration_start_time = None, mt_total_migration_time = 0, mt_files_rewrapped = 0, mt_total_files = 0,
      mt_phase_transitions = 0, mt_completed_migrations = 0, mt_failed_migrations = 0\<rparr>"

record mgr_progress =
  mp_phase :: migration_phase
  mp_files_rewrapped :: nat
  mp_total_files :: nat
  mp_completion_percentage :: byte
  mp_start_time :: "instant option"

record 'w migration_manager =
  mg_current :: "epoch_state option"
  mg_next :: "epoch_state option"
  mg_status :: migration_status
  mg_config :: migration_config
  mg_metrics :: migration_metrics
  mg_coordinator :: "'w coordinator"

type_synonym ('w, 'a) migration_action = "('w migration_manager, 'a, migration_error) action"

definition of_cutover_error :: "cutover_error \<Rightarrow> migration_error" where
  "of_cutover_error e =
     (case e of
        CutPanicked \<Rightarrow> MigPanicked
      | Deadlocked \<Rightarrow> MigDeadlocked
      | _ \<Rightarrow> MigValidationFailed (cutover_error_display e))"

text \<open>Operations of the shared world.\<close>

definition mig_world :: "(string \<Rightarrow> migration_error) \<Rightarrow> ('w \<Rightarrow> 'w \<times> ('a, string) result) \<Rightarrow> ('w, 'a) migration_action" where
  "mig_world err f m =
     (case f (cc_world (mg_coordinator m)) of
        (w, r) \<Rightarrow> (m\<lparr>mg_coordinator := (mg_coordinator m)\<lparr>cc_world := w\<rparr>\<rparr>, map_err err r))"

definition mig_clock :: "'w outside \<Rightarrow> ('w, instant) migration_action" where
  "mig_clock ow m =
     (case ow_now ow (cc_world (mg_coordinator m)) of
        (w, t) \<Rightarrow> (m\<lparr>mg_coordinator := (mg_coordinator m)\<lparr>cc_world := w\<rparr>\<rparr>, Ok t))"

text \<open>\<open>Utc::now()\<close> inside \<open>EpochState::new\<close> gives the placeholder epoch its creation time.\<close>

definition migration_manager_new :: "'w outside \<Rightarrow> 'w \<Rightarrow> manager_state \<Rightarrow> 'w migration_manager" where
  "migration_manager_new ow w coverage =
     (case ow_now ow w of
        (w', now) \<Rightarrow>
          \<lparr>mg_current = None, mg_next = None, mg_status = MsIdle, mg_config = default_migration_config,
           mg_metrics = default_migration_metrics,
           mg_coordinator = coordinator_new w' coverage (epoch_new now 0 (replicate 32 0))\<rparr>)"

subsection \<open>Starting and advancing\<close>

definition check_network :: "'w outside \<Rightarrow> string \<Rightarrow> ('w, unit) migration_action" where
  "check_network ow message =
     scatch (mig_world MigNetwork (ow_get_network_status ow))
       (\<lambda>status. sres (guard (ns_is_connected status) (MigNetwork message)))
       (\<lambda>_. sres (Ok ()))"

definition mgr_start_migration :: "'w outside \<Rightarrow> epoch_state \<Rightarrow> ('w, unit) migration_action" where
  "mgr_start_migration ow target_epoch =
     sbind (check_network ow ''Network connectivity required to start migration'') (\<lambda>_.
     sbind (sgets mg_status) (\<lambda>status.
     sbind (sres (guard (status = MsIdle) MigrationInProgress)) (\<lambda>_.
     sbind (supd (\<lambda>m. m\<lparr>mg_next := Some target_epoch, mg_status := MsActive MpPrepare\<rparr>)) (\<lambda>_.
     sbind (mig_clock ow) (\<lambda>now.
     supd (\<lambda>m. m\<lparr>mg_metrics := (mg_metrics m)
       \<lparr>mt_migration_start_time := Some now,
        mt_phase_transitions := mt_phase_transitions (mg_metrics m) + 1,
        mt_total_files := mf_batch_size (mg_config m)\<rparr>\<rparr>))))))"

definition mgr_initiate_cutover ::
  "'w outside \<Rightarrow> cutover_env \<Rightarrow> cutover_event list list \<Rightarrow>
   'w migration_manager \<Rightarrow> 'w migration_manager \<times> (unit, migration_error) result option" where
  "mgr_initiate_cutover ow cx schedule m =
     (if mg_status m \<noteq> MsActive MpSync then (m, Some (Err MigInvalidState))
      else case (mg_current m, mg_next m) of
        (Some current_epoch, Some target_epoch) \<Rightarrow>
          (case coord_initiate_cutover ow cx schedule current_epoch target_epoch (mg_coordinator m) of
             (c, r) \<Rightarrow>
               (m\<lparr>mg_status := MsActive MpCutover, mg_coordinator := c\<rparr>, map_option (map_err of_cutover_error) r))
      | _ \<Rightarrow> (m, Some (Err MigInvalidState)))"

subsection \<open>Finishing\<close>

text \<open>
  Marking the old epoch deprecated. When the epoch's own state machine refuses, its status is
  overwritten. Both ways read the clock twice.
\<close>

definition deprecate_old_epoch :: "epoch_env \<Rightarrow> instant \<Rightarrow> instant \<Rightarrow> u64 option \<Rightarrow> epoch_state \<Rightarrow> epoch_state" where
  "deprecate_old_epoch ev now1 now2 successor_epoch_id epoch =
     (case successor_epoch_id of
        Some successor \<Rightarrow>
          (case deprecate ev now1 now2 successor epoch of
             (epoch', Ok _) \<Rightarrow> epoch'
           | (epoch', Err _) \<Rightarrow> epoch'\<lparr>es_status := Deprecated now1 successor, es_updated_at := now2\<rparr>)
      | None \<Rightarrow>
          epoch\<lparr>es_status := Deprecated now1 (if es_epoch_id epoch = - 1 then - 1 else es_epoch_id epoch + 1),
                es_updated_at := now2\<rparr>)"

fun is_deprecated_status :: "epoch_status \<Rightarrow> bool" where
  "is_deprecated_status (Deprecated _ _) = True"
| "is_deprecated_status _ = False"

definition mark_deprecated :: "'w outside \<Rightarrow> epoch_env \<Rightarrow> u64 option \<Rightarrow> epoch_state \<Rightarrow> ('w, epoch_state) migration_action" where
  "mark_deprecated ow ev successor_epoch_id epoch =
     (if is_deprecated_status (es_status epoch) then sres (Ok epoch)
      else
        sbind (mig_clock ow) (\<lambda>now1.
        sbind (mig_clock ow) (\<lambda>now2.
        sres (Ok (deprecate_old_epoch ev now1 now2 successor_epoch_id epoch)))))"

definition secure_delete_old_epoch :: "'w outside \<Rightarrow> epoch_env \<Rightarrow> ('w, unit) migration_action" where
  "secure_delete_old_epoch ow ev =
     sbind (sgets (\<lambda>m. map_option es_epoch_id (mg_next m))) (\<lambda>successor_epoch_id.
     sbind (sgets mg_current) (\<lambda>current.
     case current of
       None \<Rightarrow> sres (Ok ())
     | Some epoch \<Rightarrow>
         let epoch_id = es_epoch_id epoch in
         sbind (mark_deprecated ow ev successor_epoch_id epoch) (\<lambda>epoch.
         sbind (mig_clock ow) (\<lambda>now.
         let sanitized_epoch = epoch\<lparr>es_key := replicate 32 0, es_updated_at := now\<rparr> in
         sbind (supd (\<lambda>m. m\<lparr>mg_current := Some sanitized_epoch\<rparr>)) (\<lambda>_.
         sbind (scatch (mig_world MigStorage (ow_store_epoch_keys ow epoch_id
                   \<lparr>sx_epoch_key = replicate 32 0, sx_signing_key = replicate 32 0, sx_previous_keys = []\<rparr>))
                 (\<lambda>_. sres (Ok ())) (\<lambda>_. sres (Ok ()))) (\<lambda>_.
         sbind (mig_world MigStorage (ow_store_epoch_state ow sanitized_epoch)) (\<lambda>_.
         sbind (mig_world (\<lambda>err. MigStorage (''Failed to reload epoch '' @ dec_nat (unat epoch_id) @
                   '' after secure deletion: '' @ err)) (ow_load_epoch_state ow epoch_id)) (\<lambda>loaded_epoch.
         sres (guard (list_all (\<lambda>b. b = 0) (es_key loaded_epoch))
           (MigValidationFailed (''Epoch '' @ dec_nat (unat epoch_id) @
              '' encryption key still present after secure deletion'')))))))))))"

fun cutover_state_debug :: "cutover_state \<Rightarrow> string" where
  "cutover_state_debug Idle = ''Idle''"
| "cutover_state_debug Validation = ''Validation''"
| "cutover_state_debug AwaitingConsensus = ''AwaitingConsensus''"
| "cutover_state_debug Transitioning = ''Transitioning''"
| "cutover_state_debug Completed = ''Completed''"
| "cutover_state_debug RollingBack = ''RollingBack''"
| "cutover_state_debug RolledBack = ''RolledBack''"

definition finalize_migration :: "'w outside \<Rightarrow> epoch_env \<Rightarrow> ('w, unit) migration_action" where
  "finalize_migration ow ev =
     sbind (sgets mg_status) (\<lambda>status.
     sbind (sres (guard (status = MsActive MpCutover) MigInvalidState)) (\<lambda>_.
     sbind (sgets (\<lambda>m. get_state (mg_coordinator m))) (\<lambda>state.
     sbind (sres (guard (state = Completed)
             (MigValidationFailed (''Cutover not completed: '' @ cutover_state_debug state)))) (\<lambda>_.
     sbind (secure_delete_old_epoch ow ev) (\<lambda>_.
     sbind (\<lambda>m. case mg_next m of
                   Some next_epoch \<Rightarrow> (m\<lparr>mg_next := None, mg_current := Some next_epoch\<rparr>, Ok ())
                 | None \<Rightarrow> (m, Err MigInvalidState)) (\<lambda>_.
     sbind (supd (\<lambda>m. m\<lparr>mg_status := MsIdle\<rparr>)) (\<lambda>_.
     sbind (sgets (\<lambda>m. mt_migration_start_time (mg_metrics m))) (\<lambda>start_time.
     sbind (case start_time of
              Some start \<Rightarrow>
                sbind (mig_clock ow) (\<lambda>now.
                supd (\<lambda>m. m\<lparr>mg_metrics := (mg_metrics m)\<lparr>mt_total_migration_time := now - start\<rparr>\<rparr>))
            | None \<Rightarrow> sres (Ok ())) (\<lambda>_.
     supd (\<lambda>m. m\<lparr>mg_metrics := (mg_metrics m)
       \<lparr>mt_completed_migrations := mt_completed_migrations (mg_metrics m) + 1\<rparr>\<rparr>))))))))))"

definition mgr_process_cutover_message ::
  "'w outside \<Rightarrow> cutover_env \<Rightarrow> cutover_message \<Rightarrow> bytes \<Rightarrow> ('w, unit) migration_action" where
  "mgr_process_cutover_message ow cx message sender m =
     (case process_cutover_message ow cx message sender (mg_coordinator m) of
        (c, r) \<Rightarrow> (m\<lparr>mg_coordinator := c\<rparr>, map_err of_cutover_error r))"

definition rollback_migration :: "('w, unit) migration_action" where
  "rollback_migration m =
     (if \<not> mf_auto_rollback (mg_config m) then (m, Ok ())
      else case mg_status m of
        MsIdle \<Rightarrow> (m, Err MigInvalidState)
      | MsActive _ \<Rightarrow>
          (m\<lparr>mg_next := None, mg_status := MsIdle,
             mg_metrics := (mg_metrics m)\<lparr>mt_failed_migrations := mt_failed_migrations (mg_metrics m) + 1\<rparr>\<rparr>, Ok ()))"

definition get_progress :: "'w migration_manager \<Rightarrow> mgr_progress" where
  "get_progress m =
     \<lparr>mp_phase = (case mg_status m of MsIdle \<Rightarrow> MpPrepare | MsActive phase \<Rightarrow> phase),
      mp_files_rewrapped = mt_files_rewrapped (mg_metrics m),
      mp_total_files = mt_total_files (mg_metrics m),
      mp_completion_percentage =
        (if 0 < mt_total_files (mg_metrics m)
         then of_int (clamp 0 255 (trunc_f64 (f64_mul
                (f64_ratio (mt_files_rewrapped (mg_metrics m)) (mt_total_files (mg_metrics m))) 100)))
         else 0),
      mp_start_time = mt_migration_start_time (mg_metrics m)\<rparr>"

definition enter_phase :: "migration_phase \<Rightarrow> 'w migration_manager \<Rightarrow> 'w migration_manager" where
  "enter_phase new_phase m =
     m\<lparr>mg_status := MsActive new_phase,
       mg_metrics := (mg_metrics m)\<lparr>mt_phase_transitions := mt_phase_transitions (mg_metrics m) + 1\<rparr>\<rparr>"

definition advance_phase ::
  "'w outside \<Rightarrow> cutover_env \<Rightarrow> epoch_env \<Rightarrow> cutover_event list list \<Rightarrow>
   'w migration_manager \<Rightarrow> 'w migration_manager \<times> (unit, migration_error) result option" where
  "advance_phase ow cx ev schedule m =
     (case mg_status m of
        MsActive MpPrepare \<Rightarrow> (enter_phase MpRewrap m, Some (Ok ()))
      | MsActive MpRewrap \<Rightarrow> (enter_phase MpSync m, Some (Ok ()))
      | MsActive MpSync \<Rightarrow> mgr_initiate_cutover ow cx schedule m
      | MsActive MpCutover \<Rightarrow> (case finalize_migration ow ev m of (m', r) \<Rightarrow> (m', Some r))
      | MsIdle \<Rightarrow> (m, Some (Err MigInvalidState)))"

definition mgr_is_migration_active :: "'w migration_manager \<Rightarrow> bool" where
  "mgr_is_migration_active m \<longleftrightarrow> (case mg_status m of MsActive _ \<Rightarrow> True | MsIdle \<Rightarrow> False)"

definition get_target_epoch_id :: "'w migration_manager \<Rightarrow> u64 option" where
  "get_target_epoch_id m = map_option es_epoch_id (mg_next m)"

subsection \<open>The epoch manager\<close>

text \<open>
  \<open>load_data\<close> is the storage operation \<open>load_epoch_state_data\<close>; of its record the manager reads the key
  and its provenance.
\<close>

record epoch_state_data =
  sd_encrypted_key :: bytes
  sd_key_source :: epoch_key_source

record 'w epoch_manager =
  em_migration :: "'w migration_manager"
  em_current :: "epoch_state option"

definition epoch_manager_new :: "'w outside \<Rightarrow> 'w \<Rightarrow> manager_state \<Rightarrow> 'w epoch_manager" where
  "epoch_manager_new ow w coverage = \<lparr>em_migration = migration_manager_new ow w coverage, em_current = None\<rparr>"

definition on_migration ::
  "('w migration_manager \<Rightarrow> 'w migration_manager \<times> 'r) \<Rightarrow> 'w epoch_manager \<Rightarrow> 'w epoch_manager \<times> 'r" where
  "on_migration f em = (case f (em_migration em) of (m, r) \<Rightarrow> (em\<lparr>em_migration := m\<rparr>, r))"

definition em_start_migration ::
  "'w outside \<Rightarrow> epoch_state \<Rightarrow> 'w epoch_manager \<Rightarrow> 'w epoch_manager \<times> (unit, migration_error) result" where
  "em_start_migration ow target_epoch =
     on_migration (sbind (check_network ow ''Network unavailable for migration start'') (\<lambda>_. mgr_start_migration ow target_epoch))"

definition em_migration_progress :: "'w epoch_manager \<Rightarrow> mgr_progress" where
  "em_migration_progress em = get_progress (em_migration em)"

definition em_complete_migration ::
  "'w outside \<Rightarrow> epoch_env \<Rightarrow> 'w epoch_manager \<Rightarrow> 'w epoch_manager \<times> (unit, migration_error) result" where
  "em_complete_migration ow ev em =
     (case on_migration (finalize_migration ow ev) em of
        (em', Ok u) \<Rightarrow> (em'\<lparr>em_current := mg_current (em_migration em')\<rparr>, Ok u)
      | (em', Err e) \<Rightarrow> (em', Err e))"

definition em_initiate_cutover ::
  "'w outside \<Rightarrow> cutover_env \<Rightarrow> cutover_event list list \<Rightarrow>
   'w epoch_manager \<Rightarrow> 'w epoch_manager \<times> (unit, migration_error) result option" where
  "em_initiate_cutover ow cx schedule = on_migration (mgr_initiate_cutover ow cx schedule)"

definition em_process_cutover_message ::
  "'w outside \<Rightarrow> cutover_env \<Rightarrow> cutover_message \<Rightarrow> bytes \<Rightarrow>
   'w epoch_manager \<Rightarrow> 'w epoch_manager \<times> (unit, migration_error) result" where
  "em_process_cutover_message ow cx message sender = on_migration (mgr_process_cutover_message ow cx message sender)"

definition get_epoch_key ::
  "(u64 \<Rightarrow> (epoch_state_data option, string) result) \<Rightarrow> u64 \<Rightarrow> 'w epoch_manager \<Rightarrow> bytes option" where
  "get_epoch_key load_data epoch_id em =
     (let stored = (case load_data epoch_id of
                      Ok (Some data) \<Rightarrow> (case key_from_bytes (sd_encrypted_key data) of Ok k \<Rightarrow> Some k | Err _ \<Rightarrow> None)
                    | _ \<Rightarrow> None)
      in case em_current em of
           Some current \<Rightarrow>
             if es_epoch_id current = epoch_id
             then (case key_from_bytes (es_key current) of Ok k \<Rightarrow> Some k | Err _ \<Rightarrow> None)
             else stored
         | None \<Rightarrow> stored)"

definition is_epoch_key_verified ::
  "(u64 \<Rightarrow> (epoch_state_data option, string) result) \<Rightarrow> u64 \<Rightarrow> 'w epoch_manager \<Rightarrow> bool" where
  "is_epoch_key_verified load_data epoch_id em =
     (let stored = (case load_data epoch_id of Ok (Some data) \<Rightarrow> is_verified (sd_key_source data) | _ \<Rightarrow> False)
      in case em_current em of
           Some current \<Rightarrow> if es_epoch_id current = epoch_id then is_verified (es_key_source current) else stored
         | None \<Rightarrow> stored)"

text \<open>
  The calls the managers offer, the coordinator that \<open>cutover_coordinator\<close> hands out being free to change in
  any way between them.
\<close>

inductive em_step :: "'w outside \<Rightarrow> cutover_env \<Rightarrow> epoch_env \<Rightarrow> 'w epoch_manager \<Rightarrow> 'w epoch_manager \<Rightarrow> bool"
  for ow cx ev where
  em_start: "em_step ow cx ev em (fst (em_start_migration ow target_epoch em))"
| em_complete: "em_step ow cx ev em (fst (em_complete_migration ow ev em))"
| em_cutover: "em_step ow cx ev em (fst (em_initiate_cutover ow cx schedule em))"
| em_message: "em_step ow cx ev em (fst (em_process_cutover_message ow cx message sender em))"
| em_start_direct: "em_step ow cx ev em (fst (on_migration (mgr_start_migration ow target_epoch) em))"
| em_finalize: "em_step ow cx ev em (fst (on_migration (finalize_migration ow ev) em))"
| em_rollback: "em_step ow cx ev em (fst (on_migration rollback_migration em))"
| em_advance: "em_step ow cx ev em (fst (on_migration (advance_phase ow cx ev schedule) em))"
| em_coordinator: "em_step ow cx ev em (em\<lparr>em_migration := (em_migration em)\<lparr>mg_coordinator := c\<rparr>\<rparr>)"

subsection \<open>The managers never reach a cutover\<close>

definition mig_inv :: "'w migration_manager \<Rightarrow> bool" where
  "mig_inv m \<longleftrightarrow>
     mg_current m = None \<and> mg_status m \<noteq> MsActive MpCutover \<and> (mg_next m = None \<longleftrightarrow> mg_status m = MsIdle) \<and>
     mt_completed_migrations (mg_metrics m) = 0 \<and> mt_files_rewrapped (mg_metrics m) = 0"

definition em_inv :: "'w epoch_manager \<Rightarrow> bool" where
  "em_inv em \<longleftrightarrow> em_current em = None \<and> mig_inv (em_migration em)"

lemma mig_inv_world: "mig_inv (m\<lparr>mg_coordinator := c\<rparr>) = mig_inv m"
  by (simp add: mig_inv_def)

lemma keeps_mig_world [keeps_intros]: "keeps mig_inv (mig_world err f)"
  by (auto simp: keeps_def mig_world_def mig_inv_world split: prod.splits)

lemma keeps_mig_clock [keeps_intros]: "keeps mig_inv (mig_clock ow)"
  by (auto simp: keeps_def mig_clock_def mig_inv_world split: prod.splits)

lemma keeps_check_network [keeps_intros]: "keeps mig_inv (check_network ow message)"
  unfolding check_network_def by (intro keeps_intros)

lemma mgr_start_migration_inv: "keeps mig_inv (mgr_start_migration ow target_epoch)"
proof (rule keepsI)
  fix m m' r
  assume run: "mgr_start_migration ow target_epoch m = (m', r)" and inv: "mig_inv m"
  obtain m1 r1 where net: "check_network ow ''Network connectivity required to start migration'' m = (m1, r1)"
    by (cases "check_network ow ''Network connectivity required to start migration'' m") auto
  from keepsD [OF keeps_check_network net inv] have "mig_inv m1" .
  with run net show "mig_inv m'"
    by (cases r1) (auto simp: mgr_start_migration_def sbind_def sgets_def sres_def guard_def supd_def mig_clock_def mig_inv_def
        split: prod.splits if_splits)
qed

lemma finalize_migration_refused:
  "mg_status m \<noteq> MsActive MpCutover \<Longrightarrow> finalize_migration ow ev m = (m, Err MigInvalidState)"
  by (simp add: finalize_migration_def sbind_def sgets_def sres_def guard_def)

lemma mgr_initiate_cutover_refused:
  "mg_current m = None \<Longrightarrow> mgr_initiate_cutover ow cx schedule m = (m, Some (Err MigInvalidState))"
  by (simp add: mgr_initiate_cutover_def)

lemma advance_phase_inv: "mig_inv m \<Longrightarrow> mig_inv (fst (advance_phase ow cx ev schedule m))"
  by (auto simp: advance_phase_def enter_phase_def mgr_initiate_cutover_refused mig_inv_def
      split: migration_status.splits migration_phase.splits)

lemma on_migration_inv: "keeps mig_inv f \<Longrightarrow> em_inv em \<Longrightarrow> em_inv (fst (on_migration f em))"
  by (cases "f (em_migration em)") (auto simp: on_migration_def em_inv_def dest: keepsD)

lemma em_step_inv: "em_step ow cx ev em em' \<Longrightarrow> em_inv em \<Longrightarrow> em_inv em'"
proof (induction rule: em_step.induct)
  case (em_start em target_epoch)
  then show ?case unfolding em_start_migration_def
    by (intro on_migration_inv keeps_intros mgr_start_migration_inv)
next
  case (em_start_direct em target_epoch)
  then show ?case by (intro on_migration_inv mgr_start_migration_inv)
next
  case (em_complete em)
  then show ?case by (simp add: em_complete_migration_def on_migration_def finalize_migration_refused em_inv_def mig_inv_def)
next
  case (em_finalize em)
  then show ?case by (simp add: on_migration_def finalize_migration_refused em_inv_def mig_inv_def)
next
  case (em_cutover em schedule)
  then show ?case
    by (simp add: em_initiate_cutover_def on_migration_def mgr_initiate_cutover_refused em_inv_def mig_inv_def)
next
  case (em_message em message sender)
  then show ?case
    by (auto simp: em_process_cutover_message_def on_migration_def mgr_process_cutover_message_def em_inv_def mig_inv_world
        split: prod.splits)
next
  case (em_rollback em)
  then show ?case
    by (auto simp: on_migration_def rollback_migration_def em_inv_def mig_inv_def split: migration_status.splits)
next
  case (em_advance em schedule)
  with advance_phase_inv [of "em_migration em" ow cx ev schedule] show ?case
    by (cases "advance_phase ow cx ev schedule (em_migration em)") (auto simp: on_migration_def em_inv_def)
next
  case (em_coordinator em c)
  then show ?case by (simp add: em_inv_def mig_inv_world)
qed

interpretation epoch_managers: invariant_system "\<lambda>em. \<exists>w coverage. em = epoch_manager_new ow w coverage" "em_step ow cx ev" em_inv
  for ow :: "'w outside" and cx ev
proof
  show "\<exists>w coverage. em = epoch_manager_new ow w coverage \<Longrightarrow> em_inv em" for em
    by (auto simp: em_inv_def mig_inv_def epoch_manager_new_def migration_manager_new_def default_migration_metrics_def
        case_prod_unfold)
qed (rule em_step_inv)

subsection \<open>Erasing the old epoch\<close>


lemma deprecate_old_epoch_id [simp]: "es_epoch_id (deprecate_old_epoch ev t1 t2 successor e) = es_epoch_id e"
  by (auto simp: deprecate_old_epoch_def deprecate_def split: option.splits epoch_status.splits)


lemma supd_Ok_iff [action_simps]: "supd f s = (t, q) \<longleftrightarrow> t = f s \<and> q = Ok ()"
  by (auto simp: supd_def)




text \<open>
  C32. Whatever calls are made on a fresh epoch manager, no migration ever finishes: there is never a
  current epoch, every attempt to start the cutover or to finalize is refused as an invalid state, no
  migration is counted as completed, the reported progress stays at zero percent, and epoch keys come
  from storage only.
\<close>

theorem migration_never_cuts_over:
  assumes "(em_step ow cx ev)\<^sup>*\<^sup>* (epoch_manager_new ow w coverage) em"
  shows "em_current em = None \<and>
     snd (em_initiate_cutover ow cx schedule em) = Some (Err MigInvalidState) \<and>
     snd (em_complete_migration ow ev em) = Err MigInvalidState \<and>
     mt_completed_migrations (mg_metrics (em_migration em)) = 0 \<and>
     mp_completion_percentage (em_migration_progress em) = 0 \<and>
     is_epoch_key_verified load_data i em =
       (case load_data i of Ok (Some data) \<Rightarrow> is_verified (sd_key_source data) | _ \<Rightarrow> False)"
proof -
  have inv: "em_inv em"
    using epoch_managers.invar_reachable [OF _ assms] by blast
  then have "mg_current (em_migration em) = None" and status: "mg_status (em_migration em) \<noteq> MsActive MpCutover"
    by (auto simp: em_inv_def mig_inv_def)
  then have "snd (em_initiate_cutover ow cx schedule em) = Some (Err MigInvalidState)"
    and "snd (em_complete_migration ow ev em) = Err MigInvalidState"
    by (simp_all add: em_initiate_cutover_def em_complete_migration_def on_migration_def mgr_initiate_cutover_refused
        finalize_migration_refused)
  moreover have "mp_completion_percentage (em_migration_progress em) = 0"
    using inv by (simp add: em_inv_def mig_inv_def em_migration_progress_def get_progress_def f64_ratio_def f64_div_def
        f64_mul_def f64_of_nat_def trunc_f64_def clamp_def)
  ultimately show ?thesis using inv by (simp add: em_inv_def mig_inv_def is_epoch_key_verified_def)
qed

definition sample_epoch_manager :: "unit epoch_manager" where
  "sample_epoch_manager =
     fst (on_migration (advance_phase sample_outside sample_cutover_env sample_epoch_env [])
       (fst (on_migration (advance_phase sample_outside sample_cutover_env sample_epoch_env [])
         (fst (em_start_migration sample_outside sample_target
           (epoch_manager_new sample_outside () \<lparr>ms_log = sample_signed_log, ms_latest_transparency = None\<rparr>))))))"

theorem migration_never_cuts_over_witness:
  "mg_status (em_migration sample_epoch_manager) = MsActive MpSync \<and>
   snd (em_initiate_cutover sample_outside sample_cutover_env [] sample_epoch_manager) = Some (Err MigInvalidState)"
proof
  show "mg_status (em_migration sample_epoch_manager) = MsActive MpSync"
    by (simp add: sample_epoch_manager_def on_migration_def advance_phase_def enter_phase_def em_start_migration_def
        mgr_start_migration_def check_network_def mig_world_def mig_clock_def sbind_def scatch_def sgets_def sres_def
        guard_def supd_def epoch_manager_new_def migration_manager_new_def sample_outside_def)
  have "(em_step sample_outside sample_cutover_env sample_epoch_env)\<^sup>*\<^sup>*
      (epoch_manager_new sample_outside () \<lparr>ms_log = sample_signed_log, ms_latest_transparency = None\<rparr>) sample_epoch_manager"
    unfolding sample_epoch_manager_def
    by (rule rtranclp.rtrancl_into_rtrancl, rule rtranclp.rtrancl_into_rtrancl, rule rtranclp.rtrancl_into_rtrancl,
        rule rtranclp.rtrancl_refl, rule em_start, rule em_advance, rule em_advance)
  from migration_never_cuts_over [OF this]
  show "snd (em_initiate_cutover sample_outside sample_cutover_env [] sample_epoch_manager) = Some (Err MigInvalidState)" by blast
qed




end
