(* ===== verification/SecureMessages.thy ===== *)
theory SecureMessages
  imports Crypto CutoverMessages "HOL-Library.List_Lexorder" "HOL-Library.Char_ord" "HOL-Library.Multiset"
begin

text \<open>
  The encrypted and signed messages of \<open>crates/messages\<close>: join cards (\<open>join_card.rs\<close>), welcome messages
  (\<open>welcome.rs\<close>), group updates (\<open>group_update.rs\<close>), recovery handoffs (\<open>recovery_handoff.rs\<close>), pin
  attestations (\<open>pin_attestation.rs\<close>), and the device proofs and canonical JSON of \<open>device_actions.rs\<close>.

  The record \<open>msg_env\<close> has the parameters: the primitives of the theory of the crypto crate, Ed25519, the
  CBOR encoder and decoder of each type that is serialized, the Debug text of a crypto error and the
  serializer of JSON values. Random bytes and clock readings (Unix seconds, or \<open>None\<close> before 1970) are
  arguments.
\<close>

subsection \<open>Data\<close>

record epoch_info =
  ei_epoch_id :: bytes
  ei_group_id :: string
  ei_sequence :: u64
  ei_created_at :: u64
  ei_expires_at :: "u64 option"

record group_member =
  gm_user_id :: string
  gm_device_id :: string
  gm_identity_public :: bytes
  gm_joined_at :: u64
  gm_is_admin :: bool

record welcome_message =
  wl_recipient_device_id :: string
  wl_recipient_user_id :: string
  wl_encrypted_payload :: bytes
  wl_epoch_info :: epoch_info
  wl_group_members :: "group_member list"
  wl_admin_signature :: bytes

text \<open>A signed message is its signable part, the structure that is serialized and signed, and the signature.\<close>

record signable_join_card =
  jc_user_id :: string
  jc_device_id :: string
  jc_identity_public :: bytes
  jc_invitation_public :: bytes
  jc_expires :: u64

record join_card = signable_join_card +
  jc_signature :: bytes

record update_capabilities =
  uc_can_add_members :: bool
  uc_can_remove_members :: bool
  uc_can_initiate_epoch_transitions :: bool
  uc_is_admin :: bool

record update_member =
  um_user_id :: string
  um_device_id :: string
  um_identity_public :: bytes
  um_invitation_public :: bytes
  um_capabilities :: update_capabilities
  um_joined_at :: u64

record group_config =
  gc_max_members :: "32 word"
  gc_epoch_lifetime :: u64
  gc_require_unanimous_removal :: bool
  gc_extensions :: "(string \<times> bytes) list"

datatype update_action =
    UInitialize "update_member list" group_config
  | UStartMigration u64 string
  | UAddMember update_member bytes
  | URemoveMember string string string

record signable_group_update =
  gu_from_epoch_id :: bytes
  gu_to_epoch_id :: bytes
  gu_epoch_sequence :: "u64 \<times> u64"
  gu_action :: update_action
  gu_updated_roster :: "update_member list"
  gu_state_hash :: bytes
  gu_per_member_secrets :: "(string \<times> bytes) list"
  gu_timestamp :: u64

record group_update = signable_group_update +
  gu_admin_signature :: bytes

text \<open>The metadata that handoff payload, envelope and signature share.\<close>

record handoff_meta =
  hm_version :: "32 word"
  hm_user_id :: string
  hm_source_device_id :: string
  hm_target_device_id :: string
  hm_issued_at :: instant
  hm_expires_at :: instant
  hm_purpose :: string
  hm_artifact_version :: "32 word"
  hm_artifact_sha256 :: string

record handoff_plain = handoff_meta +
  hp_epoch_key_b64 :: string

record handoff_signable = handoff_meta +
  he_kem_ciphertext :: bytes
  he_nonce :: bytes
  he_ciphertext :: bytes
  he_signing_public_key :: bytes

record handoff_envelope = handoff_signable +
  he_signature :: bytes

record pin_signable =
  pa_version :: "32 word"
  pa_verifier_user_id :: string
  pa_verifier_device_id :: string
  pa_subject_user_id :: string
  pa_subject_device_id :: string
  pa_subject_identity_public_key :: bytes
  pa_verified_at :: instant

record pin_attestation = pin_signable +
  pa_signature :: bytes

text \<open>A JSON value; the members of an object are in the order of the underlying map.\<close>

datatype json = JNull | JBool bool | JNumber string | JString string | JArray "json list" | JObject "(string \<times> json) list"

datatype device_action =
  Revoke | VerifyFingerprint | ApproveWelcome | RotateInvitation | ConfirmRecovery | ManageRecoveryCredential |
  CompleteSavedCodeRecovery | UpdateRecoveryArtifact | RepairPersonalWorkspace | AdminRevoke

record device_action_challenge =
  da_challenge_id :: string
  da_actor_user_id :: string
  da_actor_device_id :: string
  da_actor_identity_key_sha256 :: string
  da_server_url :: string
  da_action :: device_action
  da_target_device_id :: string
  da_target_identity_key_sha256 :: string
  da_payload_sha256 :: string
  da_expires_at :: int
  da_nonce :: string

record recovery_credential =
  rc_credential_id :: string
  rc_generation :: u64
  rc_salt_b64 :: string
  rc_public_key_b64 :: string
  rc_recovery_envelope_sha256 :: string

record msg_env =
  me_prims :: crypto_prims
  me_ed :: ed25519
  me_debug :: "crypto_error \<Rightarrow> string"
  me_secrets_cbor :: "epoch_secrets \<Rightarrow> (bytes, string) result"
  me_secrets_parse :: "bytes \<Rightarrow> (epoch_secrets, string) result"
  me_join_cbor :: "signable_join_card \<Rightarrow> (bytes, string) result"
  me_update_cbor :: "signable_group_update \<Rightarrow> (bytes, string) result"
  me_roster_cbor :: "update_member list \<Rightarrow> (bytes, string) result"
  me_plain_cbor :: "handoff_plain \<Rightarrow> (bytes, string) result"
  me_plain_parse :: "bytes \<Rightarrow> (handoff_plain, string) result"
  me_handoff_cbor :: "handoff_signable \<Rightarrow> (bytes, string) result"
  me_pin_cbor :: "string \<Rightarrow> pin_signable \<Rightarrow> (bytes, string) result"
  me_json :: "json \<Rightarrow> (bytes, string) result"

abbreviation require :: "bool \<Rightarrow> string \<Rightarrow> (unit, message_error) result" where
  "require b message \<equiv> guard b (MsgInvalidFormat message)"

text \<open>The constructors \<open>new\<close> of these types build the value and validate it.\<close>

definition validated :: "('a \<Rightarrow> (unit, message_error) result) \<Rightarrow> 'a \<Rightarrow> ('a, message_error) result" where
  "validated validate x = rbind (validate x) (\<lambda>_. Ok x)"

subsection \<open>Join cards\<close>

definition join_canonical_message :: "msg_env \<Rightarrow> join_card \<Rightarrow> (bytes, message_error) result" where
  "join_canonical_message me c =
     map_err (\<lambda>e. MsgSerializationError (''CBOR encoding failed: '' @ e)) (me_join_cbor me (signable_join_card.truncate c))"

definition validate_expiration :: "u64 option \<Rightarrow> join_card \<Rightarrow> (unit, message_error) result" where
  "validate_expiration clock c =
     rbind (ok_or (MsgTimestampError ''System clock before Unix epoch'') clock) (\<lambda>now.
     guard (\<not> jc_expires c < (if 300 \<le> now then now - 300 else 0))
       (MsgExpiredCard (''JoinCard expired at '' @ dec_nat (unat (jc_expires c)) @ '' (current time: '' @
          dec_nat (unat now) @ '')'')))"

definition join_card_validate :: "u64 option \<Rightarrow> join_card \<Rightarrow> (unit, message_error) result" where
  "join_card_validate clock c =
     rbind (require (jc_user_id c \<noteq> []) ''user_id cannot be empty'') (\<lambda>_.
     rbind (require (jc_device_id c \<noteq> []) ''device_id cannot be empty'') (\<lambda>_.
     rbind (require (length (jc_identity_public c) = 32) ''identity_public must be 32 bytes (Ed25519)'') (\<lambda>_.
     rbind (require (\<not> (length (jc_invitation_public c) \<noteq> 32 \<and> length (jc_invitation_public c) \<noteq> HYBRID_PUBLIC_KEY_LEN))
             (''invitation_public must be either 32 bytes (X25519) or '' @ dec_nat HYBRID_PUBLIC_KEY_LEN @
              '' bytes (HybridKEM), got '' @ dec_nat (length (jc_invitation_public c)) @ '' bytes'')) (\<lambda>_.
     rbind (require (length (jc_signature c) = 64) ''signature must be 64 bytes (Ed25519)'') (\<lambda>_.
     validate_expiration clock c)))))"

definition join_verify_signature :: "msg_env \<Rightarrow> join_card \<Rightarrow> (unit, message_error) result" where
  "join_verify_signature me c =
     rbind (map_err (\<lambda>e. MsgSignatureError (''Invalid identity key: '' @ me_debug me e))
             (verifying_key_from_bytes (me_ed me) (jc_identity_public c))) (\<lambda>verifying_key.
     rbind (map_err (\<lambda>e. MsgSignatureError (''Invalid signature: '' @ me_debug me e))
             (signature_from_bytes (jc_signature c))) (\<lambda>signature.
     rbind (join_canonical_message me c) (\<lambda>message.
     map_err (\<lambda>e. MsgSignatureError (''Signature verification failed: '' @ me_debug me e))
       (vk_verify (me_ed me) verifying_key message signature))))"

definition validate_complete :: "msg_env \<Rightarrow> u64 option \<Rightarrow> join_card \<Rightarrow> (unit, message_error) result" where
  "validate_complete me clock c = rbind (join_card_validate clock c) (\<lambda>_. join_verify_signature me c)"

subsection \<open>Welcome messages\<close>

definition epoch_info_validate :: "epoch_info \<Rightarrow> (unit, message_error) result" where
  "epoch_info_validate i =
     rbind (require (ei_epoch_id i \<noteq> []) ''epoch_id cannot be empty'') (\<lambda>_.
     rbind (require (ei_group_id i \<noteq> []) ''group_id cannot be empty'') (\<lambda>_.
     case ei_expires_at i of
       Some expires_at \<Rightarrow> require (\<not> expires_at \<le> ei_created_at i) ''expires_at must be after created_at''
     | None \<Rightarrow> Ok ()))"

definition is_expired :: "u64 \<Rightarrow> epoch_info \<Rightarrow> bool" where
  "is_expired current_time i = (case ei_expires_at i of None \<Rightarrow> False | Some expires \<Rightarrow> expires < current_time)"

definition secrets_validate :: "epoch_secrets \<Rightarrow> (unit, message_error) result" where
  "secrets_validate s =
     rbind (require (length (sx_epoch_key s) = 32) ''epoch_key must be 32 bytes'') (\<lambda>_.
     rbind (require (length (sx_signing_key s) = 32) ''signing_key must be 32 bytes'') (\<lambda>_.
     for_each (\<lambda>(seq, key). require (length key = 32)
         (''previous_key for epoch '' @ dec_nat (unat seq) @ '' must be 32 bytes'')) (sx_previous_keys s)))"

definition secrets_to_bytes :: "msg_env \<Rightarrow> epoch_secrets \<Rightarrow> (bytes, message_error) result" where
  "secrets_to_bytes me s =
     map_err (\<lambda>e. MsgSerializationError (''Failed to serialize secrets: '' @ e)) (me_secrets_cbor me s)"

definition secrets_from_bytes :: "msg_env \<Rightarrow> bytes \<Rightarrow> (epoch_secrets, message_error) result" where
  "secrets_from_bytes me data =
     rbind (map_err (\<lambda>e. MsgSerializationError (''Failed to deserialize secrets: '' @ e)) (me_secrets_parse me data)) (\<lambda>secrets.
     rbind (secrets_validate secrets) (\<lambda>_. Ok secrets))"

definition group_member_validate :: "group_member \<Rightarrow> (unit, message_error) result" where
  "group_member_validate m =
     rbind (require (gm_user_id m \<noteq> []) ''user_id cannot be empty'') (\<lambda>_.
     rbind (require (gm_device_id m \<noteq> []) ''device_id cannot be empty'') (\<lambda>_.
     require (length (gm_identity_public m) = 32) ''identity_public must be 32 bytes''))"

definition welcome_validate :: "welcome_message \<Rightarrow> (unit, message_error) result" where
  "welcome_validate w =
     rbind (require (wl_recipient_device_id w \<noteq> []) ''recipient_device_id cannot be empty'') (\<lambda>_.
     rbind (require (wl_recipient_user_id w \<noteq> []) ''recipient_user_id cannot be empty'') (\<lambda>_.
     rbind (require (wl_encrypted_payload w \<noteq> []) ''encrypted_payload cannot be empty'') (\<lambda>_.
     rbind (require (length (wl_admin_signature w) = 64) ''admin_signature must be 64 bytes'') (\<lambda>_.
     rbind (epoch_info_validate (wl_epoch_info w)) (\<lambda>_.
     for_each group_member_validate (wl_group_members w))))))"

definition welcome_aead_key :: "msg_env \<Rightarrow> bytes \<Rightarrow> (bytes, message_error) result" where
  "welcome_aead_key me shared_secret =
     rbind (map_err (\<lambda>_. MsgCryptoError ''HKDF expand failed'')
             (pr_hkdf_expand (me_prims me) (pr_hkdf_extract (me_prims me) None shared_secret) (as_bytes ''welcome aead'') 32)) (\<lambda>b.
     map_err (\<lambda>e. MsgCryptoError (''AEAD key error: '' @ crypto_error_display e)) (key_from_bytes b))"

definition encrypt_secrets ::
  "msg_env \<Rightarrow> bytes \<Rightarrow> bytes \<Rightarrow> bytes option \<Rightarrow> epoch_secrets \<Rightarrow> bytes \<Rightarrow> (bytes, message_error) result" where
  "encrypt_secrets me rng coin nonce_rng secrets recipient_invitation_key =
     rbind (map_err (\<lambda>e. MsgInvalidFormat (''Invalid invitation key: '' @ crypto_error_display e))
             (hybrid_public_from_bytes recipient_invitation_key)) (\<lambda>public_key.
     rbind (map_err (\<lambda>e. MsgCryptoError (''HybridKEM failure: '' @ crypto_error_display e))
             (encap (me_prims me) rng coin public_key KcWelcome)) (\<lambda>(kem_ciphertext, shared_secret).
     rbind (welcome_aead_key me shared_secret) (\<lambda>aead_key.
     rbind (map_err (\<lambda>e. MsgCryptoError (''Nonce generation failed: '' @ crypto_error_display e)) (nonce_generate nonce_rng)) (\<lambda>nonce.
     rbind (secrets_to_bytes me secrets) (\<lambda>plaintext_bytes.
     rbind (map_err (\<lambda>e. MsgCryptoError (''AEAD encryption failed: '' @ crypto_error_display e))
             (seal (me_prims me) aead_key nonce AcWelcome [] plaintext_bytes)) (\<lambda>ciphertext.
     Ok (hybrid_ciphertext_to_bytes kem_ciphertext @ nonce @ ciphertext)))))))"

definition decrypt_secrets :: "msg_env \<Rightarrow> welcome_message \<Rightarrow> bytes \<Rightarrow> (epoch_secrets, message_error) result" where
  "decrypt_secrets me w recipient_invitation_private_key =
     (let payload = wl_encrypted_payload w; kem_len = HYBRID_CIPHERTEXT_LEN; nonce_len = AEAD_NONCE_LEN in
      rbind (require (\<not> length payload < kem_len + nonce_len) ''encrypted_payload too short'') (\<lambda>_.
      let kem_bytes = take kem_len payload; rest = drop kem_len payload;
          nonce_bytes = take nonce_len rest; ciphertext = drop nonce_len rest in
      rbind (map_err (\<lambda>e. MsgCryptoError (''Invalid HybridKEM ciphertext: '' @ crypto_error_display e))
              (hybrid_ciphertext_from_bytes kem_bytes)) (\<lambda>kem_ciphertext.
      rbind (map_err (\<lambda>e. MsgCryptoError (''Invalid nonce: '' @ crypto_error_display e)) (nonce_from_bytes nonce_bytes)) (\<lambda>nonce.
      rbind (map_err (\<lambda>e. MsgCryptoError (''Invalid invitation key: '' @ crypto_error_display e))
              (hybrid_secret_from_bytes recipient_invitation_private_key)) (\<lambda>secret_key.
      rbind (map_err (\<lambda>e. MsgCryptoError (''HybridKEM decryption failed: '' @ crypto_error_display e))
              (decap (me_prims me) secret_key kem_ciphertext KcWelcome)) (\<lambda>shared_secret.
      rbind (welcome_aead_key me shared_secret) (\<lambda>aead_key.
      rbind (map_err (\<lambda>e. MsgCryptoError (''AEAD decryption failed: '' @ crypto_error_display e))
              (open_sealed (me_prims me) aead_key nonce AcWelcome [] ciphertext)) (\<lambda>plaintext.
      secrets_from_bytes me plaintext))))))))"

subsection \<open>Group updates\<close>

definition group_config_validate :: "group_config \<Rightarrow> (unit, message_error) result" where
  "group_config_validate g =
     rbind (require (gc_max_members g \<noteq> 0) ''max_members must be > 0'') (\<lambda>_.
     rbind (require (\<not> 10000 < gc_max_members g) ''max_members must be <= 10000'') (\<lambda>_.
     require (gc_epoch_lifetime g \<noteq> 0) ''epoch_lifetime must be > 0''))"

definition update_member_validate :: "update_member \<Rightarrow> (unit, message_error) result" where
  "update_member_validate m =
     rbind (require (um_user_id m \<noteq> []) ''user_id cannot be empty'') (\<lambda>_.
     rbind (require (um_device_id m \<noteq> []) ''device_id cannot be empty'') (\<lambda>_.
     rbind (require (length (um_identity_public m) = 32) ''identity_public must be 32 bytes'') (\<lambda>_.
     require (length (um_invitation_public m) = 32) ''invitation_public must be 32 bytes'')))"

definition member_id :: "update_member \<Rightarrow> string" where
  "member_id m = um_user_id m @ '':'' @ um_device_id m"

fun validate_action :: "group_update \<Rightarrow> update_action \<Rightarrow> (unit, message_error) result" where
  "validate_action u (UInitialize founding_members cfg) =
     rbind (group_config_validate cfg) (\<lambda>_.
     rbind (require (founding_members \<noteq> []) ''Initialize action requires founding_members'') (\<lambda>_.
     require (length founding_members = length (gu_updated_roster u)) ''Founding members count must match updated roster''))"
| "validate_action u (UStartMigration target_epoch _) =
     require (target_epoch = snd (gu_epoch_sequence u)) ''Migration target_epoch must match to_epoch''"
| "validate_action u (UAddMember member _) =
     rbind (update_member_validate member) (\<lambda>_.
     require (list_ex (\<lambda>m. member_id m = member_id member) (gu_updated_roster u)) ''Added member must be in updated roster'')"
| "validate_action u (URemoveMember user_id device_id _) =
     require (\<not> list_ex (\<lambda>m. member_id m = user_id @ '':'' @ device_id) (gu_updated_roster u))
       ''Removed member must not be in updated roster''"

definition group_update_validate :: "group_update \<Rightarrow> (unit, message_error) result" where
  "group_update_validate u =
     rbind (require (\<not> snd (gu_epoch_sequence u) \<le> fst (gu_epoch_sequence u)) ''Target epoch must be greater than source epoch'') (\<lambda>_.
     rbind (require (length (gu_admin_signature u) = 64) ''admin_signature must be 64 bytes'') (\<lambda>_.
     rbind (require (length (gu_state_hash u) = 32) ''state_hash must be 32 bytes'') (\<lambda>_.
     rbind (require (gu_updated_roster u \<noteq> []) ''updated_roster cannot be empty'') (\<lambda>_.
     rbind (for_each update_member_validate (gu_updated_roster u)) (\<lambda>_.
     validate_action u (gu_action u))))))"

definition update_canonical_message :: "msg_env \<Rightarrow> group_update \<Rightarrow> (bytes, message_error) result" where
  "update_canonical_message me u =
     map_err (\<lambda>e. MsgSerializationError (''CBOR encoding failed: '' @ e)) (me_update_cbor me (signable_group_update.truncate u))"

definition verify_admin_signature :: "msg_env \<Rightarrow> group_update \<Rightarrow> bytes \<Rightarrow> (unit, message_error) result" where
  "verify_admin_signature me u admin_public_key =
     rbind (map_err (\<lambda>e. MsgSignatureError (''Invalid admin key: '' @ me_debug me e))
             (verifying_key_from_bytes (me_ed me) admin_public_key)) (\<lambda>verifying_key.
     rbind (map_err (\<lambda>e. MsgSignatureError (''Invalid signature: '' @ me_debug me e))
             (signature_from_bytes (gu_admin_signature u))) (\<lambda>signature.
     rbind (update_canonical_message me u) (\<lambda>message.
     map_err (\<lambda>e. MsgSignatureError (''Signature verification failed: '' @ me_debug me e))
       (vk_verify (me_ed me) verifying_key message signature))))"

definition calculate_state_hash :: "msg_env \<Rightarrow> update_member list \<Rightarrow> (bytes, message_error) result" where
  "calculate_state_hash me roster =
     (let sorted_roster = sort_key member_id roster in
      rbind (map_err (\<lambda>e. MsgSerializationError (''Failed to serialize roster: '' @ e)) (me_roster_cbor me sorted_roster)) (\<lambda>roster_bytes.
      Ok (pr_sha256 (me_prims me) (as_bytes ''hybridcipher-state-v1:'' @ roster_bytes))))"

subsection \<open>Recovery handoffs\<close>

definition is_ascii_hexdigit :: "char \<Rightarrow> bool" where
  "is_ascii_hexdigit c \<longleftrightarrow>
     (let n = of_char c :: nat in 48 \<le> n \<and> n \<le> 57 \<or> 65 \<le> n \<and> n \<le> 70 \<or> 97 \<le> n \<and> n \<le> 102)"

definition validate_common_fields :: "'a handoff_meta_scheme \<Rightarrow> (unit, message_error) result" where
  "validate_common_fields h =
     rbind (require (hm_version h = 1) (''Unsupported recovery handoff version '' @ dec_nat (unat (hm_version h)))) (\<lambda>_.
     rbind (require (trim (hm_user_id h) \<noteq> []) ''Recovery handoff user ID is required'') (\<lambda>_.
     rbind (require (trim (hm_source_device_id h) \<noteq> []) ''Recovery handoff source device ID is required'') (\<lambda>_.
     rbind (require (trim (hm_target_device_id h) \<noteq> []) ''Recovery handoff target device ID is required'') (\<lambda>_.
     rbind (guard (\<not> hm_expires_at h \<le> hm_issued_at h) (MsgTimestampError ''Recovery handoff expiry must be after issue time'')) (\<lambda>_.
     rbind (require (hm_purpose h = ''recovery_auto_backup_writer'') ''Recovery handoff purpose is invalid'') (\<lambda>_.
     rbind (require (hm_artifact_version h \<noteq> 0) ''Recovery artifact version is required'') (\<lambda>_.
     require (length (hm_artifact_sha256 h) = 64 \<and> list_all is_ascii_hexdigit (hm_artifact_sha256 h))
       ''Recovery artifact SHA-256 digest is invalid'')))))))"

definition validate_epoch_key :: "msg_env \<Rightarrow> string \<Rightarrow> (unit, message_error) result" where
  "validate_epoch_key me epoch_key_b64 =
     rbind (map_err (\<lambda>e. MsgInvalidFormat (''Recovery handoff epoch key is invalid: '' @ e))
             (pr_b64_decode (me_prims me) (trim epoch_key_b64))) (\<lambda>decoded.
     require (length decoded = 32) ''Recovery handoff epoch key has invalid length'')"

definition handoff_plain_validate :: "msg_env \<Rightarrow> handoff_plain \<Rightarrow> (unit, message_error) result" where
  "handoff_plain_validate me plain =
     rbind (validate_common_fields plain) (\<lambda>_. validate_epoch_key me (hp_epoch_key_b64 plain))"

definition derive_handoff_aead_key :: "msg_env \<Rightarrow> bytes \<Rightarrow> (bytes, message_error) result" where
  "derive_handoff_aead_key me shared_secret =
     rbind (map_err (\<lambda>_. MsgCryptoError ''Recovery handoff HKDF expand failed'')
             (pr_hkdf_expand (me_prims me) (pr_hkdf_extract (me_prims me) None shared_secret)
               (as_bytes ''recovery writer handoff aead'') 32)) (\<lambda>key_bytes.
     map_err MsgCrypto (key_from_bytes key_bytes))"

definition validate_unsigned :: "'a handoff_signable_scheme \<Rightarrow> (unit, message_error) result" where
  "validate_unsigned env =
     rbind (validate_common_fields env) (\<lambda>_.
     rbind (require (he_kem_ciphertext env \<noteq> []) ''Recovery handoff KEM ciphertext is missing'') (\<lambda>_.
     rbind (require (he_nonce env \<noteq> []) ''Recovery handoff nonce is missing'') (\<lambda>_.
     rbind (require (he_ciphertext env \<noteq> []) ''Recovery handoff ciphertext is missing'') (\<lambda>_.
     require (he_signing_public_key env \<noteq> []) ''Recovery handoff signing public key is missing''))))"

definition validate_signed :: "handoff_envelope \<Rightarrow> (unit, message_error) result" where
  "validate_signed env =
     rbind (validate_unsigned env) (\<lambda>_. require (he_signature env \<noteq> []) ''Recovery handoff signature is missing'')"

definition validate_plain_binding :: "handoff_envelope \<Rightarrow> handoff_plain \<Rightarrow> (unit, message_error) result" where
  "validate_plain_binding env plain =
     require (\<not> (hm_version plain \<noteq> hm_version env \<or> hm_user_id plain \<noteq> hm_user_id env \<or>
               hm_source_device_id plain \<noteq> hm_source_device_id env \<or> hm_target_device_id plain \<noteq> hm_target_device_id env \<or>
               hm_issued_at plain \<noteq> hm_issued_at env \<or> hm_expires_at plain \<noteq> hm_expires_at env \<or>
               hm_purpose plain \<noteq> hm_purpose env \<or> hm_artifact_version plain \<noteq> hm_artifact_version env \<or>
               hm_artifact_sha256 plain \<noteq> hm_artifact_sha256 env))
       ''Recovery handoff plaintext does not match envelope metadata''"

definition handoff_signable_bytes :: "msg_env \<Rightarrow> handoff_envelope \<Rightarrow> (bytes, message_error) result" where
  "handoff_signable_bytes me env =
     map_err (\<lambda>e. MsgSerializationError (''Failed to serialize handoff signature: '' @ e))
       (me_handoff_cbor me (handoff_signable.truncate env))"

definition HANDOFF_AAD :: bytes where
  "HANDOFF_AAD = as_bytes ''hybridcipher/recovery-writer-handoff/v1''"

definition handoff_seal ::
  "msg_env \<Rightarrow> bytes \<Rightarrow> bytes \<Rightarrow> bytes option \<Rightarrow> handoff_plain \<Rightarrow> bytes \<Rightarrow> bytes \<Rightarrow> (handoff_envelope, message_error) result" where
  "handoff_seal me rng coin nonce_rng plain recipient_invitation_public_key source_signing_key =
     rbind (handoff_plain_validate me plain) (\<lambda>_.
     rbind (map_err MsgCrypto (hybrid_public_from_bytes recipient_invitation_public_key)) (\<lambda>public_key.
     rbind (map_err MsgCrypto (encap (me_prims me) rng coin public_key KcRecoveryWriterHandoff)) (\<lambda>(kem_ciphertext, shared_secret).
     rbind (derive_handoff_aead_key me shared_secret) (\<lambda>aead_key.
     rbind (map_err MsgCrypto (nonce_generate nonce_rng)) (\<lambda>nonce.
     rbind (map_err (\<lambda>e. MsgSerializationError (''Failed to serialize handoff: '' @ e)) (me_plain_cbor me plain)) (\<lambda>plaintext.
     rbind (map_err MsgCrypto (seal (me_prims me) aead_key nonce AcRecoveryWriterHandoff HANDOFF_AAD plaintext)) (\<lambda>ciphertext.
     let envelope = \<lparr>hm_version = 1, hm_user_id = hm_user_id plain, hm_source_device_id = hm_source_device_id plain,
           hm_target_device_id = hm_target_device_id plain, hm_issued_at = hm_issued_at plain,
           hm_expires_at = hm_expires_at plain, hm_purpose = hm_purpose plain,
           hm_artifact_version = hm_artifact_version plain, hm_artifact_sha256 = hm_artifact_sha256 plain,
           he_kem_ciphertext = hybrid_ciphertext_to_bytes kem_ciphertext, he_nonce = nonce, he_ciphertext = ciphertext,
           he_signing_public_key = sk_verifying_key (me_ed me) source_signing_key, he_signature = []\<rparr> in
     rbind (validate_unsigned envelope) (\<lambda>_.
     rbind (handoff_signable_bytes me envelope) (\<lambda>signable.
     rbind (map_err MsgCrypto (sk_sign (me_ed me) source_signing_key signable)) (\<lambda>signature.
     Ok (envelope\<lparr>he_signature := signature\<rparr>)))))))))))"

definition open_and_verify_for ::
  "msg_env \<Rightarrow> handoff_envelope \<Rightarrow> bytes \<Rightarrow> string \<Rightarrow> string \<Rightarrow> instant \<Rightarrow> (handoff_plain, message_error) result" where
  "open_and_verify_for me env recipient_invitation_private_key expected_user_id expected_target_device_id now =
     rbind (validate_signed env) (\<lambda>_.
     rbind (require (hm_user_id env = expected_user_id) ''Recovery handoff is for a different user'') (\<lambda>_.
     rbind (require (hm_target_device_id env = expected_target_device_id) ''Recovery handoff is for a different device'') (\<lambda>_.
     rbind (guard (\<not> hm_expires_at env < now) (MsgExpiredCard ''Recovery writer handoff has expired'')) (\<lambda>_.
     rbind (map_err MsgCrypto (verifying_key_from_bytes (me_ed me) (he_signing_public_key env))) (\<lambda>verifying_key.
     rbind (map_err MsgCrypto (signature_from_bytes (he_signature env))) (\<lambda>signature.
     rbind (handoff_signable_bytes me env) (\<lambda>signable.
     rbind (map_err MsgCrypto (vk_verify (me_ed me) verifying_key signable signature)) (\<lambda>_.
     rbind (map_err MsgCrypto (hybrid_secret_from_bytes recipient_invitation_private_key)) (\<lambda>secret_key.
     rbind (map_err MsgCrypto (hybrid_ciphertext_from_bytes (he_kem_ciphertext env))) (\<lambda>kem_ciphertext.
     rbind (map_err MsgCrypto (decap (me_prims me) secret_key kem_ciphertext KcRecoveryWriterHandoff)) (\<lambda>shared_secret.
     rbind (derive_handoff_aead_key me shared_secret) (\<lambda>aead_key.
     rbind (map_err MsgCrypto (nonce_from_bytes (he_nonce env))) (\<lambda>nonce.
     rbind (map_err MsgCrypto (open_sealed (me_prims me) aead_key nonce AcRecoveryWriterHandoff HANDOFF_AAD (he_ciphertext env))) (\<lambda>plaintext.
     rbind (map_err (\<lambda>e. MsgSerializationError (''Failed to parse handoff: '' @ e)) (me_plain_parse me plaintext)) (\<lambda>plain.
     rbind (handoff_plain_validate me plain) (\<lambda>_.
     rbind (validate_plain_binding env plain) (\<lambda>_.
     Ok plain)))))))))))))))))"

subsection \<open>Pin attestations\<close>

definition validate_fields :: "pin_attestation \<Rightarrow> (unit, message_error) result" where
  "validate_fields a =
     rbind (require (pa_version a = 1) (''Unsupported pin attestation version '' @ dec_nat (unat (pa_version a)))) (\<lambda>_.
     rbind (require (\<not> list_ex (\<lambda>i. trim i = [])
              [pa_verifier_user_id a, pa_verifier_device_id a, pa_subject_user_id a, pa_subject_device_id a])
             ''Pin attestation is missing a user or device'') (\<lambda>_.
     rbind (require (pa_verifier_device_id a \<noteq> pa_subject_device_id a) ''A device cannot attest to its own key'') (\<lambda>_.
     require (length (pa_subject_identity_public_key a) = 32) ''Pin attestation identity key must be 32 bytes'')))"

definition pin_signable_bytes :: "msg_env \<Rightarrow> pin_attestation \<Rightarrow> (bytes, message_error) result" where
  "pin_signable_bytes me a =
     map_err (\<lambda>e. MsgSerialization (''Failed to serialize pin attestation: '' @ e))
       (me_pin_cbor me ''hybridcipher/pin-attestation/v1'' (pin_signable.truncate a))"

text \<open>Signing with an identity key pair does not return an error: it panics, which is \<open>None\<close> here.\<close>

definition pin_sign ::
  "msg_env \<Rightarrow> bytes \<Rightarrow> string \<Rightarrow> string \<Rightarrow> string \<Rightarrow> string \<Rightarrow> bytes \<Rightarrow> instant \<Rightarrow> (pin_attestation, message_error) result option" where
  "pin_sign me verifier_identity verifier_user_id verifier_device_id subject_user_id subject_device_id key verified_at =
     (let attestation = \<lparr>pa_version = 1, pa_verifier_user_id = verifier_user_id, pa_verifier_device_id = verifier_device_id,
            pa_subject_user_id = subject_user_id, pa_subject_device_id = subject_device_id,
            pa_subject_identity_public_key = key, pa_verified_at = verified_at, pa_signature = []\<rparr> in
      case rbind (validate_fields attestation) (\<lambda>_. pin_signable_bytes me attestation) of
        Err e \<Rightarrow> Some (Err e)
      | Ok signable \<Rightarrow>
          (case sk_sign (me_ed me) verifier_identity signable of
             Err _ \<Rightarrow> None
           | Ok signature \<Rightarrow> Some (Ok (attestation\<lparr>pa_signature := signature\<rparr>))))"

definition pin_verify :: "msg_env \<Rightarrow> pin_attestation \<Rightarrow> bytes \<Rightarrow> (unit, message_error) result" where
  "pin_verify me a verifier_identity_public_key =
     rbind (validate_fields a) (\<lambda>_.
     rbind (map_err MsgCrypto (verifying_key_from_bytes (me_ed me) verifier_identity_public_key)) (\<lambda>verifying_key.
     rbind (map_err MsgCrypto (signature_from_bytes (pa_signature a))) (\<lambda>signature.
     rbind (pin_signable_bytes me a) (\<lambda>signable.
     map_err MsgCrypto (vk_verify (me_ed me) verifying_key signable signature)))))"

subsection \<open>Canonical JSON and device proofs\<close>

primrec sorted_json :: "json \<Rightarrow> json" where
  "sorted_json JNull = JNull"
| "sorted_json (JBool b) = JBool b"
| "sorted_json (JNumber n) = JNumber n"
| "sorted_json (JString s) = JString s"
| "sorted_json (JArray vs) = JArray (map sorted_json vs)"
| "sorted_json (JObject kvs) = JObject (sort_key fst (map (map_prod id sorted_json) kvs))"

definition canonical_json_bytes :: "msg_env \<Rightarrow> json \<Rightarrow> (bytes, string) result" where
  "canonical_json_bytes me v = me_json me (sorted_json v)"

definition hex_digits :: "bytes \<Rightarrow> string" where
  "hex_digits b = concat (map (\<lambda>w. [''0123456789abcdef'' ! (unat w div 16), ''0123456789abcdef'' ! (unat w mod 16)]) b)"

definition device_action_payload_sha256 :: "msg_env \<Rightarrow> json \<Rightarrow> (string, string) result" where
  "device_action_payload_sha256 me v =
     rbind (canonical_json_bytes me v) (\<lambda>b. Ok (hex_digits (pr_sha256 (me_prims me) b)))"

fun device_action_name :: "device_action \<Rightarrow> string" where
  "device_action_name Revoke = ''revoke''"
| "device_action_name VerifyFingerprint = ''verify_fingerprint''"
| "device_action_name ApproveWelcome = ''approve_welcome''"
| "device_action_name RotateInvitation = ''rotate_invitation''"
| "device_action_name ConfirmRecovery = ''confirm_recovery''"
| "device_action_name ManageRecoveryCredential = ''manage_recovery_credential''"
| "device_action_name CompleteSavedCodeRecovery = ''complete_saved_code_recovery''"
| "device_action_name UpdateRecoveryArtifact = ''update_recovery_artifact''"
| "device_action_name RepairPersonalWorkspace = ''repair_personal_workspace''"
| "device_action_name AdminRevoke = ''admin_revoke''"

definition dec_int :: "int \<Rightarrow> string" where
  "dec_int i = (if i < 0 then ''-'' @ dec_nat (nat (- i)) else dec_nat (nat i))"

definition challenge_value :: "device_action_challenge \<Rightarrow> json" where
  "challenge_value c = JObject
     [(''challenge_id'', JString (da_challenge_id c)), (''actor_user_id'', JString (da_actor_user_id c)),
      (''actor_device_id'', JString (da_actor_device_id c)),
      (''actor_identity_key_sha256'', JString (da_actor_identity_key_sha256 c)),
      (''server_url'', JString (da_server_url c)), (''action'', JString (device_action_name (da_action c))),
      (''target_device_id'', JString (da_target_device_id c)),
      (''target_identity_key_sha256'', JString (da_target_identity_key_sha256 c)),
      (''payload_sha256'', JString (da_payload_sha256 c)), (''expires_at'', JNumber (dec_int (da_expires_at c))),
      (''nonce'', JString (da_nonce c))]"

definition action_signing_payload :: "msg_env \<Rightarrow> device_action_challenge \<Rightarrow> (bytes, string) result" where
  "action_signing_payload me c =
     rbind (canonical_json_bytes me (challenge_value c)) (\<lambda>b.
     Ok (as_bytes ''hybridcipher/device-action/v1'' @ [10] @ b))"

definition login_part :: "string \<Rightarrow> bytes" where
  "login_part part = to_be_bytes (of_nat (length part)) @ as_bytes part"

definition login_device_proof_payload :: "string \<Rightarrow> string \<Rightarrow> string \<Rightarrow> bytes" where
  "login_device_proof_payload login_id user_id device_id =
     as_bytes ''hybridcipher/login-device-proof/v1'' @ [10] @ concat (map login_part [login_id, user_id, device_id])"

definition recovery_signing_context :: "msg_env \<Rightarrow> string \<Rightarrow> recovery_credential \<Rightarrow> (bytes, string) result" where
  "recovery_signing_context me user_id credential =
     canonical_json_bytes me (JObject
       [(''purpose'', JString ''hybridcipher/saved-code-signing/v1''), (''user_id'', JString user_id),
        (''credential_id'', JString (rc_credential_id credential)),
        (''generation'', JNumber (dec_nat (unat (rc_generation credential))))])"

definition envelope_fields :: "string list" where
  "envelope_fields = [''k1_salt_b64'', ''k2_salt_b64'', ''hkdf_salt_b64'', ''k1_wrapped'', ''k2_wrapped'']"

fun json_get :: "json \<Rightarrow> string \<Rightarrow> json option" where
  "json_get (JObject kvs) field = map_of kvs field"
| "json_get _ field = None"

primrec collect_fields :: "json \<Rightarrow> string list \<Rightarrow> ((string \<times> json) list, string) result" where
  "collect_fields artifact [] = Ok []"
| "collect_fields artifact (field # names) =
     rbind (ok_or (''Backup envelope is missing '' @ field) (json_get artifact field)) (\<lambda>value.
     rbind (collect_fields artifact names) (\<lambda>envelope. Ok ((field, value) # envelope)))"

definition recovery_envelope_sha256 :: "msg_env \<Rightarrow> json \<Rightarrow> (string, string) result" where
  "recovery_envelope_sha256 me artifact =
     rbind (collect_fields artifact envelope_fields) (\<lambda>envelope.
     rbind (canonical_json_bytes me (JObject envelope)) (\<lambda>b.
     Ok (hex_digits (pr_sha256 (me_prims me) b))))"

subsection \<open>What the serializers promise\<close>

text \<open>Parsing inverts serialization, and no two JSON values have the same text.\<close>

definition cbor_documented :: "msg_env \<Rightarrow> bool" where
  "cbor_documented me \<longleftrightarrow>
     (\<forall>s b. me_secrets_cbor me s = Ok b \<longrightarrow> me_secrets_parse me b = Ok s) \<and>
     (\<forall>p b. me_plain_cbor me p = Ok b \<longrightarrow> me_plain_parse me b = Ok p)"

definition json_documented :: "msg_env \<Rightarrow> bool" where
  "json_documented me \<longleftrightarrow> (\<forall>v w b. me_json me v = Ok b \<longrightarrow> me_json me w = Ok b \<longrightarrow> v = w)"

subsection \<open>Library\<close>

lemma nonce_generate_Some [simp]: "nonce_generate (Some n) = Ok n"
  by (simp add: nonce_generate_def)

lemma aead_key_length:
  "welcome_aead_key me ss = Ok k \<Longrightarrow> length k = 32"
  "derive_handoff_aead_key me ss = Ok k \<Longrightarrow> length k = 32"
  by (auto simp: welcome_aead_key_def derive_handoff_aead_key_def key_from_bytes_def result_simps)

text \<open>
  The channel of welcome messages and handoffs: what was sealed under a key derived from the
  encapsulated secret is opened under the key derived from the decapsulated one.
\<close>

lemma channel_open:
  assumes "aead_documented pr" and "length key = 32" and "length nonce = 12" and "seal pr key nonce context aad m = Ok c"
  shows "open_sealed pr key nonce context aad c = Ok m"
  using assms by (simp add: open_sealed_iff)

subsection \<open>A sample environment\<close>

text \<open>Each serializer knows one value.\<close>

definition only :: "'a \<Rightarrow> 'b \<Rightarrow> 'a \<Rightarrow> ('b, string) result" where
  "only x y z = (if z = x then Ok y else Err ''unknown'')"

definition sample_secrets :: epoch_secrets where
  "sample_secrets = \<lparr>sx_epoch_key = replicate 32 4, sx_signing_key = replicate 32 5, sx_previous_keys = [(6, replicate 32 6)]\<rparr>"

definition sample_plain :: handoff_plain where
  "sample_plain = \<lparr>hm_version = 1, hm_user_id = ''u'', hm_source_device_id = ''a'', hm_target_device_id = ''b'',
     hm_issued_at = 1, hm_expires_at = 9, hm_purpose = ''recovery_auto_backup_writer'', hm_artifact_version = 2,
     hm_artifact_sha256 = replicate 64 CHR ''f'', hp_epoch_key_b64 = replicate 32 CHR ''k''\<rparr>"

definition sample_value :: json where
  "sample_value = JObject [(''a'', JArray [JNull, JObject [(''x'', JBool True), (''y'', JNull)]]), (''b'', JString ''s'')]"

definition sample_env :: msg_env where
  "sample_env =
     \<lparr>me_prims = sample_prims, me_ed = sample_ed25519, me_debug = crypto_error_display,
      me_secrets_cbor = only sample_secrets [1], me_secrets_parse = only [1] sample_secrets,
      me_join_cbor = (\<lambda>_. Ok [2]), me_update_cbor = (\<lambda>_. Ok [3]), me_roster_cbor = (\<lambda>_. Ok [4]),
      me_plain_cbor = only sample_plain [5], me_plain_parse = only [5] sample_plain, me_handoff_cbor = (\<lambda>_. Ok [6]),
      me_pin_cbor = (\<lambda>_ _. Ok [7]), me_json = only sample_value [8]\<rparr>"

definition sample_welcome :: "bytes \<Rightarrow> welcome_message" where
  "sample_welcome payload =
     \<lparr>wl_recipient_device_id = ''d'', wl_recipient_user_id = ''u'', wl_encrypted_payload = payload,
      wl_epoch_info = \<lparr>ei_epoch_id = [1], ei_group_id = ''g'', ei_sequence = 1, ei_created_at = 0, ei_expires_at = None\<rparr>,
      wl_group_members = [], wl_admin_signature = replicate 64 0\<rparr>"

lemma sample_env_simps [simp]:
  "me_prims sample_env = sample_prims" "me_ed sample_env = sample_ed25519"
  by (simp_all add: sample_env_def)

lemma sample_seal [simp]: "seal sample_prims key nonce context aad m = Ok (m @ replicate 16 0)"
  by (simp add: seal_def sample_prims_def)

lemma sample_cbor: "cbor_documented sample_env"
  by (auto simp: cbor_documented_def sample_env_def only_def)

lemma sample_json: "json_documented sample_env"
  by (auto simp: json_documented_def sample_env_def only_def split: if_splits)

subsection \<open>Properties\<close>

text \<open>
  C12. What a welcome message carries reaches the invited device: decrypting with the secret half of the
  invitation key gives the secrets that were encrypted to the public half when they are well-formed, and
  the error of their validation otherwise, which the sender does not see.
\<close>

theorem welcome_secrets_round_trip:
  assumes docs: "aead_documented (me_prims me)" "kem_documented (me_prims me)" "cbor_documented me"
    and len: "length rng = 32" "length rng' = 32" "length nonce = 12"
    and gen: "hybrid_generate (me_prims me) rng coin = Ok pair"
    and enc: "encrypt_secrets me rng' coin' (Some nonce) secrets (hybrid_public_to_bytes (hk_public pair)) = Ok (wl_encrypted_payload w)"
  shows "decrypt_secrets me w (hybrid_secret_to_bytes (hk_secret pair)) = rbind (secrets_validate secrets) (\<lambda>_. Ok secrets)"
proof -
  note pub = public_key_of_pair [OF docs(2) len(1) gen]
  obtain ct ss key b c where
    encap: "encap (me_prims me) rng' coin' (hk_public pair) KcWelcome = Ok (ct, ss)"
    and key: "welcome_aead_key me ss = Ok key" and b: "me_secrets_cbor me secrets = Ok b"
    and c: "seal (me_prims me) key nonce AcWelcome [] b = Ok c"
    and payload: "wl_encrypted_payload w = hybrid_ciphertext_to_bytes ct @ nonce @ c"
    using enc by (auto simp: encrypt_secrets_def pub secrets_to_bytes_def result_simps)
  note kem = encap_decap [OF docs(2) len(1,2) gen encap]
  have "open_sealed (me_prims me) key nonce AcWelcome [] c = Ok b"
    by (rule channel_open [OF docs(1) aead_key_length(1) [OF key] len(3) c])
  moreover have "me_secrets_parse me b = Ok secrets"
    using docs(3) b by (simp add: cbor_documented_def)
  ultimately show ?thesis
    using kem key len(3) by (simp add: decrypt_secrets_def payload secrets_from_bytes_def)
qed

theorem welcome_secrets_round_trip_witness:
  "\<exists>payload. encrypt_secrets sample_env (replicate 32 2) [] (Some (replicate 12 9)) sample_secrets
       (hybrid_public_to_bytes (hk_public sample_pair)) = Ok payload \<and>
     decrypt_secrets sample_env (sample_welcome payload) (hybrid_secret_to_bytes (hk_secret sample_pair)) = Ok sample_secrets"
proof -
  have "\<exists>key. welcome_aead_key sample_env ss = Ok key" for ss
    by (simp add: welcome_aead_key_def sample_prims_def key_from_bytes_def sized_bytes_def)
  moreover have "secrets_to_bytes sample_env sample_secrets = Ok [1]"
    by (simp add: secrets_to_bytes_def sample_env_def only_def)
  ultimately obtain payload where
    enc: "encrypt_secrets sample_env (replicate 32 2) [] (Some (replicate 12 9)) sample_secrets
       (hybrid_public_to_bytes (hk_public sample_pair)) = Ok payload"
    using public_key_of_pair [OF sample_kem _ sample_generate]
    by (auto simp: encrypt_secrets_def sample_encap result_simps)
  have "secrets_validate sample_secrets = Ok ()"
    by (simp add: secrets_validate_def sample_secrets_def)
  then show ?thesis
    using enc welcome_secrets_round_trip [of sample_env "replicate 32 1" "replicate 32 2" "replicate 12 9" "[]" sample_pair "[]"
        sample_secrets "sample_welcome payload"] sample_aead sample_kem sample_cbor sample_generate
    by (simp add: sample_welcome_def)
qed

text \<open>
  C40. A member of a validated group update cannot be sent a welcome message: validation requires a
  32 byte invitation key of every roster entry, and encryption to such a key is refused.
\<close>

theorem roster_member_cannot_be_welcomed:
  assumes "group_update_validate u = Ok ()" and "m \<in> set (gu_updated_roster u)"
  shows "encrypt_secrets me rng coin nonce secrets (um_invitation_public m) =
     Err (MsgInvalidFormat (''Invalid invitation key: Invalid key: '' @ expected_bytes HYBRID_PUBLIC_KEY_LEN 32))"
proof -
  have "length (um_invitation_public m) = 32"
    using assms by (auto simp: group_update_validate_def update_member_validate_def result_simps)
  then show ?thesis
    by (simp add: encrypt_secrets_def hybrid_public_from_bytes_def sized_bytes_def)
qed

definition sample_member :: "string \<Rightarrow> string \<Rightarrow> update_member" where
  "sample_member user device =
     \<lparr>um_user_id = user, um_device_id = device, um_identity_public = replicate 32 1, um_invitation_public = replicate 32 2,
      um_capabilities = \<lparr>uc_can_add_members = False, uc_can_remove_members = False,
        uc_can_initiate_epoch_transitions = False, uc_is_admin = False\<rparr>, um_joined_at = 0\<rparr>"

definition sample_update :: group_update where
  "sample_update =
     \<lparr>gu_from_epoch_id = [1], gu_to_epoch_id = [2], gu_epoch_sequence = (1, 2), gu_action = UStartMigration 2 ''rotate'',
      gu_updated_roster = [sample_member ''u'' ''d''], gu_state_hash = replicate 32 0, gu_per_member_secrets = [],
      gu_timestamp = 0, gu_admin_signature = replicate 64 0\<rparr>"

theorem roster_member_cannot_be_welcomed_witness:
  "group_update_validate sample_update = Ok () \<and> sample_member ''u'' ''d'' \<in> set (gu_updated_roster sample_update) \<and>
   encrypt_secrets sample_env (replicate 32 2) [] (Some (replicate 12 9)) sample_secrets (um_invitation_public (sample_member ''u'' ''d'')) =
     Err (MsgInvalidFormat (''Invalid invitation key: Invalid key: '' @ expected_bytes HYBRID_PUBLIC_KEY_LEN 32))"
proof -
  have ok: "group_update_validate sample_update = Ok ()"
    by (simp add: group_update_validate_def sample_update_def update_member_validate_def sample_member_def word_le_nat_alt)
  have mem: "sample_member ''u'' ''d'' \<in> set (gu_updated_roster sample_update)" by (simp add: sample_update_def)
  show ?thesis using roster_member_cannot_be_welcomed [OF ok mem] ok mem by blast
qed

text \<open>
  C39. Whoever signs a handoff, the target device opens it: a sealed handoff passes all checks until it
  expires, for every signing key, because the signature is checked against the key that the envelope
  itself carries and nothing ties that key to the source device it names.
\<close>

theorem handoff_opens_for_any_signer:
  assumes docs: "aead_documented (me_prims me)" "kem_documented (me_prims me)" "cbor_documented me" "ed25519_correct (me_ed me)"
    and len: "length rng = 32" "length rng' = 32" "length nonce = 12"
    and gen: "hybrid_generate (me_prims me) rng coin = Ok pair"
    and sealed: "handoff_seal me rng' coin' (Some nonce) plain (hybrid_public_to_bytes (hk_public pair)) any_signing_key = Ok env"
    and now: "now \<le> hm_expires_at plain"
  shows "open_and_verify_for me env (hybrid_secret_to_bytes (hk_secret pair)) (hm_user_id plain) (hm_target_device_id plain) now = Ok plain"
proof -
  note pub = public_key_of_pair [OF docs(2) len(1) gen]
  let ?vk = "sk_verifying_key (me_ed me) any_signing_key"
  obtain ct ss key b c sb sig where
    valid: "handoff_plain_validate me plain = Ok ()"
    and encap: "encap (me_prims me) rng' coin' (hk_public pair) KcRecoveryWriterHandoff = Ok (ct, ss)"
    and key: "derive_handoff_aead_key me ss = Ok key" and b: "me_plain_cbor me plain = Ok b"
    and c: "seal (me_prims me) key nonce AcRecoveryWriterHandoff HANDOFF_AAD b = Ok c"
    and unsigned: "validate_unsigned (env\<lparr>he_signature := []\<rparr>) = Ok ()"
    and sb: "handoff_signable_bytes me (env\<lparr>he_signature := []\<rparr>) = Ok sb"
    and sig: "sk_sign (me_ed me) any_signing_key sb = Ok sig"
    and env: "env = \<lparr>hm_version = 1, hm_user_id = hm_user_id plain, hm_source_device_id = hm_source_device_id plain,
           hm_target_device_id = hm_target_device_id plain, hm_issued_at = hm_issued_at plain,
           hm_expires_at = hm_expires_at plain, hm_purpose = hm_purpose plain,
           hm_artifact_version = hm_artifact_version plain, hm_artifact_sha256 = hm_artifact_sha256 plain,
           he_kem_ciphertext = hybrid_ciphertext_to_bytes ct, he_nonce = nonce, he_ciphertext = c,
           he_signing_public_key = ?vk, he_signature = sig\<rparr>"
    using sealed by (auto simp: handoff_seal_def pub result_simps Let_def)
  have "hm_version plain = 1"
    using valid by (simp add: handoff_plain_validate_def validate_common_fields_def result_simps)
  then have bind: "validate_plain_binding env plain = Ok ()"
    by (simp add: validate_plain_binding_def env)
  from sk_sign_verifies [OF docs(4), of any_signing_key sb]
  have "length sig = 64" and verifies: "vk_verify (me_ed me) ?vk sb sig = Ok ()"
    using sig by auto
  then have "signature_from_bytes sig = Ok sig" "sig \<noteq> []" by (auto simp: result_simps)
  moreover have "verifying_key_from_bytes (me_ed me) ?vk = Ok ?vk"
    using docs(4) by (simp add: result_simps sk_verifying_key_def ed25519_correct_def)
  moreover have "validate_signed env = Ok ()"
    using unsigned \<open>sig \<noteq> []\<close> by (simp add: validate_signed_def validate_unsigned_def validate_common_fields_def env)
  moreover have "handoff_signable_bytes me env = Ok sb"
    using sb by (simp add: handoff_signable_bytes_def env handoff_signable.truncate_def)
  moreover have "open_sealed (me_prims me) key nonce AcRecoveryWriterHandoff HANDOFF_AAD c = Ok b"
    by (rule channel_open [OF docs(1) aead_key_length(2) [OF key] len(3) c])
  moreover have "me_plain_parse me b = Ok plain"
    using docs(3) b by (simp add: cbor_documented_def)
  ultimately show ?thesis
    using encap_decap [OF docs(2) len(1,2) gen encap] key len(3) valid verifies bind now
    by (simp add: open_and_verify_for_def env)
qed

lemma sample_plain_valid: "handoff_plain_validate sample_env sample_plain = Ok ()"
proof -
  have "trim ''u'' = ''u''" "trim ''a'' = ''a''" "trim ''b'' = ''b''" by code_simp+
  moreover have "trim (replicate 32 CHR ''k'') = replicate 32 CHR ''k''" by code_simp
  ultimately show ?thesis
    by (simp add: handoff_plain_validate_def validate_common_fields_def validate_epoch_key_def sample_plain_def
        is_ascii_hexdigit_def list_all_iff sample_prims_def of_char_def)
qed

theorem handoff_opens_for_any_signer_witness:
  "\<exists>env. handoff_seal sample_env (replicate 32 2) [] (Some (replicate 12 9)) sample_plain
       (hybrid_public_to_bytes (hk_public sample_pair)) [66] = Ok env \<and>
     open_and_verify_for sample_env env (hybrid_secret_to_bytes (hk_secret sample_pair)) ''u'' ''b'' 5 = Ok sample_plain"
proof -
  have "\<exists>key. derive_handoff_aead_key sample_env ss = Ok key" for ss
    by (simp add: derive_handoff_aead_key_def sample_prims_def key_from_bytes_def sized_bytes_def)
  moreover have "me_plain_cbor sample_env sample_plain = Ok [5]" "me_handoff_cbor sample_env x = Ok [6]" for x
    by (simp_all add: sample_env_def only_def)
  moreover have "sk_sign sample_ed25519 [66] [6] = Ok (pad32 [66] @ pad32 [6])" "sk_verifying_key sample_ed25519 [66] = pad32 [66]"
    by (simp_all add: sk_sign_def sample_ed25519_def sk_verifying_key_def)
  moreover have "pad32 [66] \<noteq> []" by (simp add: pad32_def)
  moreover note sample_plain_valid
  moreover have "validate_common_fields sample_plain = Ok ()"
    using sample_plain_valid by (simp add: handoff_plain_validate_def result_simps)
  ultimately obtain env where sealed: "handoff_seal sample_env (replicate 32 2) [] (Some (replicate 12 9)) sample_plain
       (hybrid_public_to_bytes (hk_public sample_pair)) [66] = Ok env"
    using public_key_of_pair [OF sample_kem _ sample_generate]
    by (auto simp: handoff_seal_def sample_encap result_simps Let_def validate_unsigned_def validate_common_fields_def
        hybrid_ciphertext_to_bytes_def handoff_signable_bytes_def sample_plain_def)
  have "hm_user_id sample_plain = ''u''" "hm_target_device_id sample_plain = ''b''" "hm_expires_at sample_plain = 9"
    by (simp_all add: sample_plain_def)
  then show ?thesis
    using sealed handoff_opens_for_any_signer [of sample_env "replicate 32 1" "replicate 32 2" "replicate 12 9" "[]" sample_pair "[]"
        sample_plain "[66]" env 5] sample_aead sample_kem sample_cbor sample_ed25519_correct sample_generate
    by simp
qed

text \<open>
  A handoff that opens is bound to its context: it names the expected user and target device, it
  has not expired, it carries a 32 byte key for the purpose of the auto-backup writer, and the signature
  of the enclosed key covers the envelope with its ciphertext.
\<close>

theorem handoff_open_sound:
  assumes "open_and_verify_for me env secret user device now = Ok plain"
  shows "hm_user_id plain = user \<and> hm_target_device_id plain = device \<and> hm_purpose plain = ''recovery_auto_backup_writer'' \<and>
     hm_issued_at plain < hm_expires_at plain \<and> now \<le> hm_expires_at plain \<and>
     (\<exists>key. pr_b64_decode (me_prims me) (trim (hp_epoch_key_b64 plain)) = Ok key \<and> length key = 32) \<and>
     (\<exists>b. me_handoff_cbor me (handoff_signable.truncate env) = Ok b \<and>
        dalek_verify (me_ed me) (he_signing_public_key env) b (he_signature env) = Ok ())"
  using assms unfolding open_and_verify_for_def
  by (auto simp: result_simps handoff_plain_validate_def validate_common_fields_def validate_epoch_key_def
      validate_plain_binding_def handoff_signable_bytes_def)

subsection \<open>Equality of JSON values\<close>

text \<open>
  The equality of parsed values: arrays in order, objects as maps. A value is well formed when no object
  repeats a key.
\<close>

fun json_eq :: "json \<Rightarrow> json \<Rightarrow> bool" where
  "json_eq (JArray vs) (JArray ws) \<longleftrightarrow> list_all2 json_eq vs ws"
| "json_eq (JObject a) (JObject b) \<longleftrightarrow>
     length a = length b \<and>
     list_all (\<lambda>kv. case map_of b (fst kv) of None \<Rightarrow> False | Some w \<Rightarrow> json_eq (snd kv) w) a"
| "json_eq v w \<longleftrightarrow> v = w"

fun wf_json :: "json \<Rightarrow> bool" where
  "wf_json (JArray vs) \<longleftrightarrow> list_all wf_json vs"
| "wf_json (JObject kvs) \<longleftrightarrow> distinct (map fst kvs) \<and> list_all (\<lambda>kv. wf_json (snd kv)) kvs"
| "wf_json _ \<longleftrightarrow> True"

lemma sort_key_eq_iff:
  assumes "distinct (map f xs)" and "distinct (map f ys)"
  shows "sort_key f xs = sort_key f ys \<longleftrightarrow> set xs = set ys"
proof
  assume "set xs = set ys"
  then have "mset xs = mset ys"
    using assms by (simp add: set_eq_iff_mset_eq_distinct distinct_map)
  then show "sort_key f xs = sort_key f ys"
    using assms(1) by (intro sort_key_inj_key_eq) (simp_all add: distinct_map)
next
  assume "sort_key f xs = sort_key f ys"
  then show "set xs = set ys" by (metis set_sort)
qed

lemma alist_image_eq_iff:
  assumes "distinct (map fst a)" and "distinct (map fst b)"
  shows "set (map (map_prod id f) a) = set (map (map_prod id f) b) \<longleftrightarrow>
     length a = length b \<and> (\<forall>(k, v) \<in> set a. \<exists>w. map_of b k = Some w \<and> f v = f w)"
    (is "?S a = ?S b \<longleftrightarrow> _")
proof -
  have card: "card (?S c) = length c" if "distinct (map fst c)" for c
  proof -
    have "map fst (map (map_prod id f) c) = map fst c" by simp
    then show ?thesis using that by (metis distinct_map distinct_card length_map)
  qed
  have sub: "?S a \<subseteq> ?S b \<longleftrightarrow> (\<forall>(k, v) \<in> set a. \<exists>w. map_of b k = Some w \<and> f v = f w)"
    using assms(2) by (force simp: image_iff)
  show ?thesis
    unfolding sub [symmetric] using card [OF assms(1)] card [OF assms(2)] card_subset_eq [OF List.finite_set]
    by (metis order_refl)
qed

lemma sorted_json_eq_iff: "wf_json v \<Longrightarrow> wf_json w \<Longrightarrow> sorted_json v = sorted_json w \<longleftrightarrow> json_eq v w"
proof (induction v arbitrary: w)
  case (JArray vs)
  then show ?case
    by (cases w) (auto simp: list_all2_conv_all_nth list_eq_iff_nth_eq list_all_iff)
next
  case (JObject a)
  show ?case
  proof (cases w)
    case [simp]: (JObject b)
    note d = JObject.prems
    have "sorted_json (JObject a) = sorted_json w \<longleftrightarrow>
        set (map (map_prod id sorted_json) a) = set (map (map_prod id sorted_json) b)"
      using d by (simp add: sort_key_eq_iff comp_def)
    also have "\<dots> \<longleftrightarrow> length a = length b \<and> (\<forall>(k, v) \<in> set a. \<exists>w. map_of b k = Some w \<and> sorted_json v = sorted_json w)"
      using d by (intro alist_image_eq_iff) auto
    also have "\<dots> \<longleftrightarrow> json_eq (JObject a) w"
    proof -
      have "sorted_json v = sorted_json x \<longleftrightarrow> json_eq v x" if "(k, v) \<in> set a" "map_of b k = Some x" for k v x
        using that d by (intro JObject.IH [of "(k, v)"]) (auto simp: list_all_iff dest: map_of_SomeD)
      then show ?thesis
        by (fastforce simp: list_all_iff split: option.splits)
    qed
    finally show ?thesis .
  qed simp_all
qed (case_tac w; simp)+

text \<open>
  C19. Canonical JSON decides equality: two well-formed values have the same canonical text exactly when
  they are equal as JSON values, whatever the order of the members of their objects at any depth.
\<close>

theorem canonical_json_decides_equality:
  assumes "json_documented me" and "wf_json v" and "wf_json w" and "canonical_json_bytes me v = Ok b"
  shows "canonical_json_bytes me w = Ok b \<longleftrightarrow> json_eq v w"
  using assms sorted_json_eq_iff [OF assms(2,3)] unfolding canonical_json_bytes_def json_documented_def by metis

theorem canonical_json_decides_equality_witness:
  "canonical_json_bytes sample_env (JObject [(''b'', JString ''s''), (''a'', JArray [JNull, JObject [(''y'', JNull), (''x'', JBool True)]])]) = Ok [8]"
proof -
  let ?w = "JObject [(''b'', JString ''s''), (''a'', JArray [JNull, JObject [(''y'', JNull), (''x'', JBool True)]])]"
  have "sorted_json sample_value = sample_value" by code_simp
  then have c: "canonical_json_bytes sample_env sample_value = Ok [8]"
    by (simp add: canonical_json_bytes_def sample_env_def only_def)
  have "wf_json sample_value" "wf_json ?w" "json_eq sample_value ?w" by code_simp+
  then show ?thesis using canonical_json_decides_equality [OF sample_json _ _ c, of ?w] by simp
qed

text \<open>
  The state hash of a roster whose members have different identifiers depends on the members only, not
  on the order of the roster.
\<close>

theorem state_hash_order_independent:
  assumes "distinct (map member_id r)" and "distinct (map member_id r')" and "set r = set r'"
  shows "calculate_state_hash me r = calculate_state_hash me r'"
  using sort_key_eq_iff [OF assms(1,2)] assms(3) by (simp add: calculate_state_hash_def Let_def)

text \<open>
  What a device signs at login determines the login, the user and the device, and is never what it
  signs for a device action: no signature for one can be presented for another.
\<close>

theorem login_proof_unambiguous:
  assumes "length l < 2 ^ 64" "length u < 2 ^ 64" "length d < 2 ^ 64"
    and "length l' < 2 ^ 64" "length u' < 2 ^ 64" "length d' < 2 ^ 64"
  shows "(login_device_proof_payload l u d = login_device_proof_payload l' u' d' \<longleftrightarrow> l = l' \<and> u = u' \<and> d = d') \<and>
     action_signing_payload me challenge \<noteq> Ok (login_device_proof_payload l u d)"
proof -
  have part: "login_part p @ r = login_part p' @ r' \<longleftrightarrow> p = p' \<and> r = r'" if "length p < 2 ^ 64" "length p' < 2 ^ 64" for p p' r r'
  proof
    assume eq: "login_part p @ r = login_part p' @ r'"
    then have "to_be_bytes (of_nat (length p)) = to_be_bytes (of_nat (length p'))" by (simp add: login_part_def)
    then have "(of_nat (length p) :: u64) = of_nat (length p')" by (metis from_to_be_bytes)
    then have "length p = length p'" using that by (metis unat_of_nat_u64)
    with eq show "p = p' \<and> r = r'" by (simp add: login_part_def as_bytes_inj)
  qed simp
  have "login_device_proof_payload l u d = login_device_proof_payload l' u' d' \<longleftrightarrow> l = l' \<and> u = u' \<and> d = d'"
    using part [of l l'] part [of u u'] part [of d d' "[]" "[]"] assms by (simp add: login_device_proof_payload_def)
  moreover have "as_bytes ''hybridcipher/device-action/v1'' @ [10] @ b \<noteq> login_device_proof_payload l u d" for b
    by (simp add: login_device_proof_payload_def as_bytes_def of_char_def)
  ultimately show ?thesis by (auto simp: action_signing_payload_def result_simps)
qed

theorem login_proof_unambiguous_witness:
  "login_device_proof_payload ''l'' ''ab'' ''c'' \<noteq> login_device_proof_payload ''l'' ''a'' ''bc''"
  using login_proof_unambiguous [of "''l''" "''ab''" "''c''" "''l''" "''a''" "''bc''"] by simp

text \<open>
  An accepted join card expired at most five minutes ago, has an invitation key of one of the two lengths,
  and its signature by the identity key it carries covers all other fields.
\<close>

theorem join_card_accepted:
  assumes "validate_complete me clock c = Ok ()"
  shows "\<exists>now b. clock = Some now \<and> unat now \<le> unat (jc_expires c) + 300 \<and>
     length (jc_invitation_public c) \<in> {32, HYBRID_PUBLIC_KEY_LEN} \<and>
     me_join_cbor me (signable_join_card.truncate c) = Ok b \<and>
     dalek_verify (me_ed me) (jc_identity_public c) b (jc_signature c) = Ok ()"
proof -
  obtain now where now: "clock = Some now" "\<not> jc_expires c < (if 300 \<le> now then now - 300 else 0)"
    using assms by (auto simp: validate_complete_def join_card_validate_def validate_expiration_def result_simps)
  have "unat now \<le> unat (jc_expires c) + 300"
  proof (cases "300 \<le> now")
    case True
    then have "unat (now - 300) = unat now - 300" by (simp add: unat_sub word_le_nat_alt)
    with now True show ?thesis by (simp add: word_less_nat_alt)
  qed (simp add: word_le_nat_alt)
  then show ?thesis
    using assms now by (auto simp: validate_complete_def join_card_validate_def join_verify_signature_def
        join_canonical_message_def result_simps)
qed

text \<open>
  Identifiers of members are not unique: whenever the colon can be read in two places, a member that
  stays in the roster blocks the removal of another one.
\<close>

theorem removal_blocked_by_other_member:
  assumes "m \<in> set (gu_updated_roster u)" and "um_user_id m = user @ '':'' @ mid" and "device = mid @ '':'' @ um_device_id m"
  shows "validate_action u (URemoveMember user device reason) = Err (MsgInvalidFormat ''Removed member must not be in updated roster'') \<and>
     um_user_id m \<noteq> user"
proof -
  have "member_id m = user @ '':'' @ device" using assms by (simp add: member_id_def)
  then have "list_ex (\<lambda>x. member_id x = user @ '':'' @ device) (gu_updated_roster u)"
    using assms(1) by (auto simp: list_ex_iff)
  then show ?thesis using assms(2) by simp
qed

text \<open>What a device attests verifies under its identity key, and under no other statement's fields.\<close>

theorem pin_attestation_verifies:
  assumes "ed25519_correct (me_ed me)"
    and "pin_sign me identity vu vd su sd key at = Some (Ok a)"
  shows "pin_verify me a (sk_verifying_key (me_ed me) identity) = Ok () \<and>
     pin_signable.truncate a = \<lparr>pa_version = 1, pa_verifier_user_id = vu, pa_verifier_device_id = vd,
       pa_subject_user_id = su, pa_subject_device_id = sd, pa_subject_identity_public_key = key, pa_verified_at = at\<rparr>"
proof -
  let ?a = "\<lparr>pa_version = 1, pa_verifier_user_id = vu, pa_verifier_device_id = vd, pa_subject_user_id = su,
     pa_subject_device_id = sd, pa_subject_identity_public_key = key, pa_verified_at = at, pa_signature = []\<rparr>"
  obtain sb sig where v: "validate_fields ?a = Ok ()" and sb: "pin_signable_bytes me ?a = Ok sb"
    and sig: "sk_sign (me_ed me) identity sb = Ok sig" and a: "a = ?a\<lparr>pa_signature := sig\<rparr>"
    using assms(2) by (auto simp: pin_sign_def Let_def result_simps split: result.splits)
  from sk_sign_verifies [OF assms(1), of identity sb]
  have "length sig = 64" "vk_verify (me_ed me) (sk_verifying_key (me_ed me) identity) sb sig = Ok ()"
    using sig by auto
  moreover have "verifying_key_from_bytes (me_ed me) (sk_verifying_key (me_ed me) identity) = Ok (sk_verifying_key (me_ed me) identity)"
    using assms(1) by (simp add: result_simps sk_verifying_key_def ed25519_correct_def)
  moreover have "signature_from_bytes sig = Ok sig" using calculation(1) by (simp add: result_simps)
  moreover have "validate_fields a = Ok ()" using v by (simp add: validate_fields_def a)
  moreover have "pin_signable_bytes me a = Ok sb"
    using sb by (simp add: pin_signable_bytes_def a pin_signable.truncate_def)
  ultimately show ?thesis by (simp add: pin_verify_def a pin_signable.truncate_def)
qed

text \<open>The commitment to a backup envelope depends on its five fields only.\<close>

theorem envelope_commitment:
  assumes "\<And>f. f \<in> set envelope_fields \<Longrightarrow> json_get artifact f = json_get artifact' f"
  shows "recovery_envelope_sha256 me artifact = recovery_envelope_sha256 me artifact'"
proof -
  have "collect_fields artifact fs = collect_fields artifact' fs" if "set fs \<subseteq> set envelope_fields" for fs
    using that by (induction fs) (auto simp: assms)
  then show ?thesis by (simp add: recovery_envelope_sha256_def)
qed

end
