(* ===== verification/FileContent.thy ===== *)
theory FileContent
  imports Crypto
begin

text \<open>
  How file contents are encrypted (\<open>crates/client/src/file/encrypt.rs\<close>, \<open>decrypt.rs\<close> and
  \<open>content_manifest.rs\<close>): wrapping of the file key, single-record and chunked ciphertexts, sparse layouts and
  the authenticated content manifest of version 3.

  Sizes and lengths are natural numbers; the checked operations of the code test for \<open>2 ^ 64\<close>, and \<open>usize\<close>
  has 64 bits, so conversions between the two succeed. Chunk indices, which enter nonces, are 64 bit words.
  A reader is the list of results its successive reads deliver, then end of file; a writer is any
  \<open>write_all\<close> function on a state of its own. Random bytes and the success of a reservation of memory are
  arguments.
\<close>

subsection \<open>Data\<close>

datatype encryption_error =
    EeNoEpochAvailable
  | EeEpochKeyUnavailable string
  | EeKeyGenerationFailure string
  | EeEncryptionFailure string
  | EeCoverageUpdateFailure string
  | EeStorage string
  | EeCrypto string

fun encryption_error_display :: "encryption_error \<Rightarrow> string" where
  "encryption_error_display EeNoEpochAvailable = ''No suitable epoch available for encryption''"
| "encryption_error_display (EeEpochKeyUnavailable m) = ''Epoch key unavailable: '' @ m"
| "encryption_error_display (EeKeyGenerationFailure m) = ''File key generation failed: '' @ m"
| "encryption_error_display (EeEncryptionFailure m) = ''Encryption operation failed: '' @ m"
| "encryption_error_display (EeCoverageUpdateFailure m) = ''Coverage update failed: '' @ m"
| "encryption_error_display (EeStorage m) = ''Storage operation failed: '' @ m"
| "encryption_error_display (EeCrypto m) = ''Crypto operation failed: '' @ m"

datatype decryption_error =
    DeFileNotFound string
  | DeInvalidMetadata string
  | DeKeyUnwrappingFailure string
  | DeDecryptionFailure string
  | DeIntegrityCheckFailure string
  | DeNoValidEpochKey string
  | DeStorage string
  | DeCrypto string

text \<open>The errors of the client that the handling of files reports; the others, which callees return, are one case.\<close>

datatype client_error =
    ClInvalidState string
  | ClStorage string
  | ClEncryptionError string
  | ClDecryptionError string
  | ClLegacyCompatibilityRequired
  | ClEpochKeyUnavailable u64
  | ClFileIntegrity string
  | ClUnauthorized string
  | ClInvalidInput string
  | ClSerializationError string
  | ClOther string

record file_encryption_metadata =
  fm_file_id :: string
  fm_file_path :: string
  fm_group_id :: "bytes option"
  fm_epoch_id :: u64
  fm_header_version :: "32 word"
  fm_wrapped_file_key :: bytes
  fm_key_wrap_nonce :: bytes
  fm_key_wrap_aad_hash :: bytes
  fm_content_nonce :: bytes
  fm_content_chunk_size :: "nat option"
  fm_original_size :: nat
  fm_file_size :: nat
  fm_integrity_hash :: bytes

record sparse_extent =
  sp_offset :: nat
  sp_length :: nat

record sparse_metadata =
  sm_logical_size :: nat
  sm_extents :: "sparse_extent list"

text \<open>\<open>u64::checked_add\<close> and \<open>u64::checked_mul\<close>.\<close>

definition checked_add :: "nat \<Rightarrow> nat \<Rightarrow> nat option" where
  "checked_add a b = (if a + b < 2 ^ 64 then Some (a + b) else None)"

definition checked_mul :: "nat \<Rightarrow> nat \<Rightarrow> nat option" where
  "checked_mul a b = (if a * b < 2 ^ 64 then Some (a * b) else None)"

abbreviation (input) MAX_CONTENT_CHUNK_SIZE :: nat where
  "MAX_CONTENT_CHUNK_SIZE \<equiv> 64 * 1024 * 1024"

abbreviation (input) MAX_IN_MEMORY_PLAINTEXT_BYTES :: nat where
  "MAX_IN_MEMORY_PLAINTEXT_BYTES \<equiv> 256 * 1024 * 1024"

abbreviation (input) AEAD_TAG_SIZE :: nat where
  "AEAD_TAG_SIZE \<equiv> 16"

subsection \<open>Identifiers and key wrapping\<close>

text \<open>\<open>str::split\<close> at a character.\<close>

fun split_char :: "char \<Rightarrow> string \<Rightarrow> string list" where
  "split_char c [] = [[]]"
| "split_char c (d # s) =
     (if d = c then [] # split_char c s
      else case split_char c s of [] \<Rightarrow> [[d]] | p # ps \<Rightarrow> (d # p) # ps)"

definition normalize_file_identifier :: "string \<Rightarrow> string" where
  "normalize_file_identifier path =
     (let trimmed = trim path in
      if trimmed = [] then ''/''
      else
        let replaced = map (\<lambda>c. if c = CHR 0x5C then CHR ''/'' else c) trimmed;
            segments = filter (\<lambda>part. \<not> (part = [] \<or> part = ''.'')) (split_char CHR ''/'' replaced);
            normalized = concat (case segments of [] \<Rightarrow> [] | s # ss \<Rightarrow> s # map (\<lambda>t. ''/'' @ t) ss)
        in if take 1 replaced = ''/'' then (if normalized = [] then ''/'' else ''/'' @ normalized)
           else if normalized = [] then ''/'' else normalized)"

definition aad_label_from_path :: "string \<Rightarrow> string" where
  "aad_label_from_path path =
     (case find (\<lambda>segment. segment \<noteq> []) (rev (split_char CHR ''/'' (normalize_file_identifier path))) of
        Some segment \<Rightarrow> segment
      | None \<Rightarrow> ''/'')"

definition build_wrap_aad :: "crypto_prims \<Rightarrow> string \<Rightarrow> string \<Rightarrow> bytes option \<Rightarrow> u64 \<Rightarrow> 32 word \<Rightarrow> bytes" where
  "build_wrap_aad pr file_id normalized_file_path group_id epoch_id header_version =
     pr_sha256 pr (as_bytes ''dek-wrap:v1:'' @ as_bytes file_id @ as_bytes (aad_label_from_path normalized_file_path) @
       (case group_id of Some g \<Rightarrow> g | None \<Rightarrow> []) @ to_le_bytes epoch_id @ le_bytes 4 (ucast header_version))"

definition hash_wrap_aad :: "crypto_prims \<Rightarrow> bytes \<Rightarrow> bytes" where
  "hash_wrap_aad pr wrap_aad = pr_sha256 pr wrap_aad"

definition wrap_file_key ::
  "crypto_prims \<Rightarrow> bytes \<Rightarrow> bytes \<Rightarrow> bytes \<Rightarrow> bytes \<Rightarrow> (bytes \<times> bytes, encryption_error) result" where
  "wrap_file_key pr nonce_bytes file_key kek wrap_aad =
     rbind (map_err (\<lambda>e. EeEncryptionFailure (''Failed to create nonce: '' @ crypto_error_display e)) (nonce_from_bytes nonce_bytes)) (\<lambda>nonce.
     rbind (map_err (\<lambda>e. EeEncryptionFailure (''Key wrapping failed: '' @ crypto_error_display e))
             (seal pr kek nonce AcFileData wrap_aad file_key)) (\<lambda>wrapped.
     Ok (wrapped, nonce_bytes)))"

definition unwrap_file_key :: "crypto_prims \<Rightarrow> file_encryption_metadata \<Rightarrow> bytes \<Rightarrow> (bytes, decryption_error) result" where
  "unwrap_file_key pr md epoch_key =
     (let wrap_aad = build_wrap_aad pr (fm_file_id md) (fm_file_path md) (fm_group_id md) (fm_epoch_id md) (fm_header_version md);
          actual = hash_wrap_aad pr wrap_aad in
      rbind (guard (actual = fm_key_wrap_aad_hash md) (DeKeyUnwrappingFailure ''Key wrap AAD hash mismatch'')) (\<lambda>_.
      rbind (map_err (\<lambda>e. DeKeyUnwrappingFailure (''Invalid nonce: '' @ crypto_error_display e))
              (nonce_from_bytes (fm_key_wrap_nonce md))) (\<lambda>nonce.
      rbind (map_err (\<lambda>e. DeKeyUnwrappingFailure (''HKDF failed: '' @ crypto_error_display e))
              (hkdf_expand pr epoch_key HcKeyWrapping 32)) (\<lambda>kek_bytes.
      rbind (map_err (\<lambda>e. DeKeyUnwrappingFailure (''Invalid KEK: '' @ crypto_error_display e)) (key_from_bytes kek_bytes)) (\<lambda>kek.
      rbind (map_err (\<lambda>e. DeKeyUnwrappingFailure (''Key unwrapping failed: '' @ crypto_error_display e))
              (open_sealed pr kek nonce AcFileData wrap_aad (fm_wrapped_file_key md))) (\<lambda>file_key_bytes.
      map_err (\<lambda>e. DeKeyUnwrappingFailure (''Invalid unwrapped key: '' @ crypto_error_display e))
        (key_from_bytes file_key_bytes)))))))"

definition encrypt_content :: "crypto_prims \<Rightarrow> bytes \<Rightarrow> bytes \<Rightarrow> bytes \<Rightarrow> string \<Rightarrow> (bytes \<times> bytes, encryption_error) result" where
  "encrypt_content pr nonce_bytes content file_key file_id =
     rbind (guard (\<not> MAX_IN_MEMORY_PLAINTEXT_BYTES < length content)
             (EeEncryptionFailure ''Plaintext exceeds the 256 MiB in-memory limit; use chunked encryption'')) (\<lambda>_.
     rbind (map_err (\<lambda>e. EeEncryptionFailure (''Failed to create content nonce: '' @ crypto_error_display e))
             (nonce_from_bytes nonce_bytes)) (\<lambda>nonce.
     rbind (map_err (\<lambda>e. EeEncryptionFailure (''Content encryption failed: '' @ crypto_error_display e))
             (seal pr file_key nonce AcFileData (as_bytes file_id) content)) (\<lambda>encrypted_content.
     Ok (encrypted_content, nonce_bytes))))"

subsection \<open>Chunks\<close>

definition derive_chunk_nonce :: "bytes \<Rightarrow> u64 \<Rightarrow> bytes" where
  "derive_chunk_nonce base_nonce chunk_index = take 4 base_nonce @ map2 xor (drop 4 base_nonce) (to_le_bytes chunk_index)"

definition build_chunk_aad :: "string \<Rightarrow> u64 \<Rightarrow> bytes" where
  "build_chunk_aad file_id chunk_index = as_bytes file_id @ to_le_bytes chunk_index"

definition chunked_encrypted_size :: "nat \<Rightarrow> nat \<Rightarrow> (nat, encryption_error) result" where
  "chunked_encrypted_size content_size chunk_size =
     rbind (guard (\<not> (chunk_size = 0 \<or> MAX_CONTENT_CHUNK_SIZE < chunk_size))
             (EeEncryptionFailure ''chunk_size must be between 1 and 64 MiB'')) (\<lambda>_.
     rbind (ok_or (EeEncryptionFailure ''chunked size overflow'') (checked_add content_size (sat_sub chunk_size 1))) (\<lambda>padded.
     let chunks = padded div chunk_size in
     rbind (ok_or (EeEncryptionFailure ''chunked size overflow'') (checked_mul chunks AEAD_TAG_SIZE)) (\<lambda>overhead.
     ok_or (EeEncryptionFailure ''chunked size overflow'') (checked_add content_size overhead))))"

definition encrypt_chunk :: "crypto_prims \<Rightarrow> bytes \<Rightarrow> string \<Rightarrow> bytes \<Rightarrow> u64 \<Rightarrow> bytes \<Rightarrow> (bytes, encryption_error) result" where
  "encrypt_chunk pr file_key file_id base_nonce chunk_index chunk =
     rbind (map_err (\<lambda>e. EeEncryptionFailure (''Invalid chunk nonce: '' @ crypto_error_display e))
             (nonce_from_bytes (derive_chunk_nonce base_nonce chunk_index))) (\<lambda>nonce.
     map_err (\<lambda>e. EeEncryptionFailure (''Chunk encryption failed: '' @ crypto_error_display e))
       (seal pr file_key nonce AcFileData (build_chunk_aad file_id chunk_index) chunk))"

fun encrypt_chunks ::
  "crypto_prims \<Rightarrow> (bytes \<Rightarrow> 'w \<Rightarrow> 'w \<times> (unit, string) result) \<Rightarrow> bytes \<Rightarrow> string \<Rightarrow> bytes \<Rightarrow>
   bytes \<Rightarrow> nat \<Rightarrow> u64 \<Rightarrow> (bytes, string) result list \<Rightarrow> 'w \<Rightarrow> 'w \<times> (nat \<times> bytes, encryption_error) result" where
  "encrypt_chunks pr write_all file_key file_id base_nonce hashed total_read chunk_index [] output = (output, Ok (total_read, hashed))"
| "encrypt_chunks pr write_all file_key file_id base_nonce hashed total_read chunk_index (Err e # reads) output =
     (output, Err (EeEncryptionFailure (''Failed to read plaintext: '' @ e)))"
| "encrypt_chunks pr write_all file_key file_id base_nonce hashed total_read chunk_index (Ok chunk # reads) output =
     (if chunk = [] then (output, Ok (total_read, hashed))
      else case encrypt_chunk pr file_key file_id base_nonce chunk_index chunk of
             Err e \<Rightarrow> (output, Err e)
           | Ok encrypted \<Rightarrow>
               (case write_all encrypted output of
                  (output', Err e) \<Rightarrow> (output', Err (EeEncryptionFailure (''Failed to write ciphertext: '' @ e)))
                | (output', Ok _) \<Rightarrow>
                    encrypt_chunks pr write_all file_key file_id base_nonce (hashed @ chunk)
                      (add_u64 total_read (length chunk)) (chunk_index + 1) reads output'))"

definition encrypt_content_chunked ::
  "crypto_prims \<Rightarrow> (bytes \<Rightarrow> 'w \<Rightarrow> 'w \<times> (unit, string) result) \<Rightarrow> (bytes, string) result list \<Rightarrow> 'w \<Rightarrow> bytes \<Rightarrow> string \<Rightarrow>
   bytes \<Rightarrow> nat \<Rightarrow> 'w \<times> (nat \<times> bytes, encryption_error) result" where
  "encrypt_content_chunked pr write_all input output file_key file_id base_nonce chunk_size =
     (if chunk_size = 0 \<or> MAX_CONTENT_CHUNK_SIZE < chunk_size
      then (output, Err (EeEncryptionFailure ''chunk_size must be between 1 and 64 MiB''))
      else case encrypt_chunks pr write_all file_key file_id base_nonce [] 0 0 input output of
             (output', r) \<Rightarrow> (output', rbind r (\<lambda>(total_read, hashed). Ok (total_read, pr_sha256 pr hashed))))"

text \<open>
  The loop of the decryption: rounds of at most \<open>chunk_size\<close> bytes until nothing remains. A round that
  decrypts from memory has the offset in the ciphertext and the output so far as its state.
\<close>

partial_function (option) chunk_loop ::
  "('s \<Rightarrow> nat \<Rightarrow> u64 \<Rightarrow> ('s, 'e) result) \<Rightarrow> nat \<Rightarrow> nat \<Rightarrow> u64 \<Rightarrow> 's \<Rightarrow> ('s, 'e) result option" where
  "chunk_loop round chunk_size remaining chunk_index st =
     (if remaining = 0 then Some (Ok st)
      else
        let plain_len = min chunk_size remaining
        in case round st plain_len chunk_index of
             Err e \<Rightarrow> Some (Err e)
           | Ok st' \<Rightarrow> chunk_loop round chunk_size (remaining - plain_len) (chunk_index + 1) st')"

definition decrypt_chunk ::
  "crypto_prims \<Rightarrow> bytes \<Rightarrow> string \<Rightarrow> bytes \<Rightarrow> bytes \<Rightarrow> nat \<times> bytes \<Rightarrow> nat \<Rightarrow> u64 \<Rightarrow> (nat \<times> bytes, decryption_error) result" where
  "decrypt_chunk pr file_key file_id base_nonce encrypted_content = (\<lambda>(offset, output) plain_len chunk_index.
     rbind (ok_or (DeDecryptionFailure ''Chunk length overflows'') (checked_add plain_len AEAD_TAG_SIZE)) (\<lambda>cipher_len.
     rbind (ok_or (DeDecryptionFailure ''Ciphertext offset overflows'') (checked_add offset cipher_len)) (\<lambda>next.
     rbind (guard (\<not> length encrypted_content < next) (DeDecryptionFailure ''Chunked ciphertext truncated'')) (\<lambda>_.
     let chunk_cipher = take (next - offset) (drop offset encrypted_content) in
     rbind (map_err (\<lambda>e. DeDecryptionFailure (''Invalid chunk nonce: '' @ crypto_error_display e))
             (nonce_from_bytes (derive_chunk_nonce base_nonce chunk_index))) (\<lambda>nonce.
     rbind (map_err (\<lambda>e. DeDecryptionFailure (''Chunk decrypt failed: '' @ crypto_error_display e))
             (open_sealed pr file_key nonce AcFileData (as_bytes file_id @ to_le_bytes chunk_index) chunk_cipher)) (\<lambda>plaintext.
     Ok (next, output @ plaintext)))))))"

definition decrypt_content_chunked ::
  "crypto_prims \<Rightarrow> (nat \<Rightarrow> bool) \<Rightarrow> bytes \<Rightarrow> bytes \<Rightarrow> file_encryption_metadata \<Rightarrow> nat \<Rightarrow> (bytes, decryption_error) result option" where
  "decrypt_content_chunked pr try_reserve encrypted_content file_key md chunk_size =
     (case
        rbind (guard (\<not> (chunk_size = 0 \<or> MAX_CONTENT_CHUNK_SIZE < chunk_size))
                (DeDecryptionFailure ''chunk_size must be between 1 and 64 MiB'')) (\<lambda>_.
        rbind (map_err (\<lambda>e. DeDecryptionFailure (encryption_error_display e))
                (chunked_encrypted_size (fm_file_size md) chunk_size)) (\<lambda>expected.
        rbind (guard (length encrypted_content = expected) (DeDecryptionFailure ''Chunked ciphertext size mismatch'')) (\<lambda>_.
        rbind (guard (length (fm_content_nonce md) = 12) (DeDecryptionFailure ''Invalid content nonce length'')) (\<lambda>_.
        guard (try_reserve (fm_file_size md)) (DeDecryptionFailure ''Unable to reserve plaintext''))))) of
       Err e \<Rightarrow> Some (Err e)
     | Ok _ \<Rightarrow>
         map_option (\<lambda>r. rbind r (\<lambda>(offset, output).
             rbind (guard (offset = length encrypted_content) (DeDecryptionFailure ''Chunked ciphertext size mismatch'')) (\<lambda>_.
             Ok output)))
           (chunk_loop (decrypt_chunk pr file_key (fm_file_id md) (fm_content_nonce md) encrypted_content) chunk_size (fm_file_size md) 0 (0, [])))"

definition decrypt_content ::
  "crypto_prims \<Rightarrow> (nat \<Rightarrow> bool) \<Rightarrow> bytes \<Rightarrow> bytes \<Rightarrow> file_encryption_metadata \<Rightarrow> (bytes, decryption_error) result option" where
  "decrypt_content pr try_reserve encrypted_content file_key md =
     (if MAX_IN_MEMORY_PLAINTEXT_BYTES < fm_file_size md
      then Some (Err (DeDecryptionFailure ''Plaintext exceeds the 256 MiB in-memory limit''))
      else case fm_content_chunk_size md of
        Some chunk_size \<Rightarrow> decrypt_content_chunked pr try_reserve encrypted_content file_key md chunk_size
      | None \<Rightarrow> Some (
          rbind (guard (\<not> MAX_IN_MEMORY_PLAINTEXT_BYTES + AEAD_TAG_SIZE < length encrypted_content)
                  (DeDecryptionFailure ''Single-record ciphertext exceeds the 256 MiB in-memory limit'')) (\<lambda>_.
          rbind (if 3 \<le> fm_header_version md then
                   rbind (ok_or (DeDecryptionFailure ''Ciphertext size overflow'') (checked_add (fm_original_size md) AEAD_TAG_SIZE)) (\<lambda>expected.
                   guard (length encrypted_content = expected) (DeDecryptionFailure ''Ciphertext size mismatch''))
                 else Ok ()) (\<lambda>_.
          rbind (map_err (\<lambda>e. DeDecryptionFailure (''Invalid content nonce: '' @ crypto_error_display e))
                  (nonce_from_bytes (fm_content_nonce md))) (\<lambda>nonce.
          map_err (\<lambda>e. DeDecryptionFailure (''Content decryption failed: '' @ crypto_error_display e))
            (open_sealed pr file_key nonce AcFileData (as_bytes (fm_file_id md)) encrypted_content)))))) "

definition verify_file_integrity :: "crypto_prims \<Rightarrow> bytes \<Rightarrow> file_encryption_metadata \<Rightarrow> bool" where
  "verify_file_integrity pr content md \<longleftrightarrow> pr_sha256 pr content = fm_integrity_hash md"

subsection \<open>Sparse layouts\<close>

fun packed_loop :: "nat \<Rightarrow> nat \<Rightarrow> nat \<Rightarrow> sparse_extent list \<Rightarrow> nat option" where
  "packed_loop logical_size stop packed [] = Some packed"
| "packed_loop logical_size stop packed (extent # extents) =
     (if sp_length extent = 0 \<or> sp_offset extent < stop then None
      else case checked_add (sp_offset extent) (sp_length extent) of
             None \<Rightarrow> None
           | Some stop' \<Rightarrow>
               if logical_size < stop' then None
               else case checked_add packed (sp_length extent) of
                      None \<Rightarrow> None
                    | Some packed' \<Rightarrow> packed_loop logical_size stop' packed' extents)"

definition validated_packed_size :: "sparse_metadata \<Rightarrow> nat \<Rightarrow> nat option" where
  "validated_packed_size sm expected_logical_size =
     (if sm_logical_size sm \<noteq> expected_logical_size then None
      else packed_loop (sm_logical_size sm) 0 0 (sm_extents sm))"

definition is_effectively_sparse :: "sparse_metadata \<Rightarrow> bool" where
  "is_effectively_sparse sm \<longleftrightarrow>
     sm_extents sm = [] \<or> 1 < length (sm_extents sm) \<or>
     (case sm_extents sm of
        [] \<Rightarrow> False
      | extent # _ \<Rightarrow> sp_offset extent \<noteq> 0 \<or> sp_length extent \<noteq> sm_logical_size sm)"

subsection \<open>The content manifest\<close>

text \<open>
  The fields of the client's \<open>EncryptedFileMetadata\<close> that decide how the content is read, and those that
  the header carries besides.
\<close>

record content_layout =
  ly_content_size :: nat
  ly_encrypted_size :: nat
  ly_content_chunk_size :: "nat option"
  ly_content_nonce :: "bytes option"
  ly_sparse_metadata :: "sparse_metadata option"

record encrypted_file_metadata = content_layout +
  ef_file_id :: string
  ef_file_path :: string
  ef_header_version :: "32 word option"
  ef_group_id :: "bytes option"
  ef_epoch_id :: u64
  ef_wrapped_file_key :: "bytes option"
  ef_key_wrap_nonce :: "bytes option"
  ef_key_wrap_aad_hash :: "bytes option"
  ef_created_at :: instant
  ef_encrypted_content :: bytes

definition le_nat :: "nat \<Rightarrow> bytes" where
  "le_nat n = to_le_bytes (of_nat n)"

definition sparse_bytes :: "sparse_metadata option \<Rightarrow> bytes" where
  "sparse_bytes sparse =
     (case sparse of
        None \<Rightarrow> [0]
      | Some sm \<Rightarrow> [1] @ le_nat (sm_logical_size sm) @ le_nat (length (sm_extents sm)) @
          concat (map (\<lambda>extent. le_nat (sp_offset extent) @ le_nat (sp_length extent)) (sm_extents sm)))"

definition manifest_input :: "nat \<Rightarrow> nat \<Rightarrow> nat option \<Rightarrow> bytes \<Rightarrow> sparse_metadata option \<Rightarrow> bytes" where
  "manifest_input content_size encrypted_size chunk nonce sparse =
     as_bytes ''hybridcipher/content-manifest/v3'' @ [0] @ le_nat content_size @ le_nat encrypted_size @
     [if chunk = None then 0 else 1] @ le_nat (case chunk of None \<Rightarrow> 0 | Some c \<Rightarrow> c) @
     le_nat (length nonce) @ nonce @ sparse_bytes sparse"

definition manifest_digest :: "crypto_prims \<Rightarrow> nat \<Rightarrow> nat \<Rightarrow> nat option \<Rightarrow> bytes \<Rightarrow> sparse_metadata option \<Rightarrow> bytes" where
  "manifest_digest pr content_size encrypted_size chunk nonce sparse =
     pr_sha256 pr (manifest_input content_size encrypted_size chunk nonce sparse)"

definition manifest_rewrap :: "crypto_prims \<Rightarrow> bytes \<Rightarrow> bytes \<Rightarrow> bytes \<Rightarrow> bytes \<Rightarrow> (bytes \<times> bytes, encryption_error) result" where
  "manifest_rewrap pr nonce envelope kek aad =
     rbind (guard (length envelope = 32 \<or> length envelope = 64) (EeEncryptionFailure ''Invalid key envelope'')) (\<lambda>_.
     rbind (map_err (\<lambda>e. EeEncryptionFailure (crypto_error_display e)) (nonce_from_bytes nonce)) (\<lambda>nonce_key.
     rbind (map_err (\<lambda>e. EeEncryptionFailure (crypto_error_display e)) (seal pr kek nonce_key AcFileData aad envelope)) (\<lambda>wrapped.
     Ok (wrapped, nonce))))"

definition manifest_wrap :: "crypto_prims \<Rightarrow> bytes \<Rightarrow> bytes \<Rightarrow> bytes \<Rightarrow> bytes \<Rightarrow> bytes \<Rightarrow> (bytes \<times> bytes, encryption_error) result" where
  "manifest_wrap pr nonce key kek aad manifest = manifest_rewrap pr nonce (key @ manifest) kek aad"

datatype legacy_read_policy = Strict | AllowLegacyUnverified

definition header_version_or_1 :: "'a encrypted_file_metadata_scheme \<Rightarrow> 32 word" where
  "header_version_or_1 md = (case ef_header_version md of None \<Rightarrow> 1 | Some v \<Rightarrow> v)"

definition content_nonce_or_empty :: "'a content_layout_scheme \<Rightarrow> bytes" where
  "content_nonce_or_empty md = (case ly_content_nonce md of None \<Rightarrow> [] | Some n \<Rightarrow> n)"

definition requires_legacy_compatibility :: "'a encrypted_file_metadata_scheme \<Rightarrow> bool" where
  "requires_legacy_compatibility md \<longleftrightarrow>
     header_version_or_1 md \<in> {1, 2} \<and>
     (ef_header_version md = Some 2 \<or> ly_content_chunk_size md \<noteq> None \<or> ly_sparse_metadata md \<noteq> None)"

definition policy_check :: "legacy_read_policy \<Rightarrow> 'a encrypted_file_metadata_scheme \<Rightarrow> (unit, client_error) result" where
  "policy_check policy md =
     (if policy = Strict \<and> requires_legacy_compatibility md then Err ClLegacyCompatibilityRequired else Ok ())"

definition manifest_verify :: "crypto_prims \<Rightarrow> 'a encrypted_file_metadata_scheme \<Rightarrow> bytes \<Rightarrow> bool \<Rightarrow> (bytes, client_error) result" where
  "manifest_verify pr md envelope allow_legacy =
     (if header_version_or_1 md = 3 then
        (if length envelope \<noteq> 64 \<or>
            drop 32 envelope \<noteq> manifest_digest pr (ly_content_size md) (ly_encrypted_size md) (ly_content_chunk_size md)
              (content_nonce_or_empty md) (ly_sparse_metadata md)
         then Err (ClFileIntegrity ''Authenticated content manifest mismatch; file may be incomplete or modified'')
         else map_err (\<lambda>e. ClFileIntegrity (crypto_error_display e)) (key_from_bytes (take 32 envelope)))
      else if header_version_or_1 md \<in> {1, 2} then
        (if \<not> allow_legacy \<and> (ef_header_version md = Some 2 \<or> ly_content_chunk_size md \<noteq> None \<or> ly_sparse_metadata md \<noteq> None)
         then Err ClLegacyCompatibilityRequired
         else map_err (\<lambda>e. ClFileIntegrity (crypto_error_display e)) (key_from_bytes envelope))
      else Err (ClFileIntegrity ''Unsupported encrypted-file version''))"

subsection \<open>Library\<close>

lemma checked_add_Some [simp]: "checked_add a b = Some c \<longleftrightarrow> c = a + b \<and> a + b < 2 ^ 64"
  by (auto simp: checked_add_def)

lemma checked_mul_Some [simp]: "checked_mul a b = Some c \<longleftrightarrow> c = a * b \<and> a * b < 2 ^ 64"
  by (auto simp: checked_mul_def)

lemma length_le_nat [simp]: "length (le_nat n) = 8"
  by (simp add: le_nat_def)

lemma le_nat_inj: "n < 2 ^ 64 \<Longrightarrow> m < 2 ^ 64 \<Longrightarrow> le_nat n = le_nat m \<longleftrightarrow> n = m"
  unfolding le_nat_def to_le_bytes_inj by (metis unat_of_nat_u64)

lemma length_derive_chunk_nonce [simp]: "length base = 12 \<Longrightarrow> length (derive_chunk_nonce base i) = 12"
  by (simp add: derive_chunk_nonce_def)

lemma map2_xor_cancel: "length a = length b \<Longrightarrow> map2 xor a (map2 xor a b) = (b :: bytes)"
  by (induction a b rule: list_induct2) (simp_all add: bit.xor_left_self)

lemma derive_chunk_nonce_inj:
  assumes "length base = 12"
  shows "derive_chunk_nonce base i = derive_chunk_nonce base j \<longleftrightarrow> i = j"
proof
  assume "derive_chunk_nonce base i = derive_chunk_nonce base j"
  then have "map2 xor (drop 4 base) (to_le_bytes i) = map2 xor (drop 4 base) (to_le_bytes j)"
    by (simp add: derive_chunk_nonce_def)
  moreover have "length (drop 4 base) = length (to_le_bytes x)" for x using assms by simp
  ultimately have "to_le_bytes i = to_le_bytes j" by (metis map2_xor_cancel)
  then show "i = j" by (simp add: to_le_bytes_inj)
qed simp

lemma chunked_encrypted_size_Ok_iff:
  "chunked_encrypted_size n c = Ok s \<longleftrightarrow>
     0 < c \<and> c \<le> MAX_CONTENT_CHUNK_SIZE \<and> n + (c - 1) < 2 ^ 64 \<and> s = n + 16 * ((n + (c - 1)) div c) \<and> s < 2 ^ 64"
  by (auto simp: chunked_encrypted_size_def result_simps Let_def sat_sub_def)

subsection \<open>Chunk by chunk\<close>

text \<open>The reads of a reader that fills the buffer each time, except for the last chunk.\<close>

fun full_chunks :: "nat \<Rightarrow> bytes list \<Rightarrow> bool" where
  "full_chunks cs [] \<longleftrightarrow> True"
| "full_chunks cs [c] \<longleftrightarrow> c \<noteq> [] \<and> length c \<le> cs"
| "full_chunks cs (c # d # r) \<longleftrightarrow> length c = cs \<and> full_chunks cs (d # r)"

fun sealed_chunks :: "crypto_prims \<Rightarrow> bytes \<Rightarrow> string \<Rightarrow> bytes \<Rightarrow> u64 \<Rightarrow> bytes list \<Rightarrow> bytes list \<Rightarrow> bool" where
  "sealed_chunks pr key fid base i [] [] \<longleftrightarrow> True"
| "sealed_chunks pr key fid base i (c # cs) (e # es) \<longleftrightarrow>
     encrypt_chunk pr key fid base i c = Ok e \<and> sealed_chunks pr key fid base (i + 1) cs es"
| "sealed_chunks pr key fid base i _ _ \<longleftrightarrow> False"

abbreviation append_writer :: "bytes \<Rightarrow> bytes \<Rightarrow> bytes \<times> (unit, string) result" where
  "append_writer b w \<equiv> (w @ b, Ok ())"

lemma full_chunks_Cons:
  "full_chunks cs (c # r) \<longleftrightarrow> (if r = [] then c \<noteq> [] \<and> length c \<le> cs else length c = cs \<and> full_chunks cs r)"
  by (cases r) auto

lemma div_step: "(x + Suc k) div Suc k = Suc (x div Suc k)"
  by (rule trans [OF div_add_self2]) auto

lemma full_chunks_count:
  assumes "0 < cs" and "full_chunks cs chunks"
  shows "(length (concat chunks) + (cs - 1)) div cs = length chunks"
proof -
  obtain k where k: "cs = Suc k" using assms(1) by (cases cs) auto
  from assms(2) have "(length (concat chunks) + k) div Suc k = length chunks"
  proof (induction chunks)
    case (Cons c r)
    show ?case
    proof (cases "r = []")
      case True
      then obtain x c' where "c = x # c'" "length c' < Suc k" using Cons.prems k by (cases c) auto
      then have "length (concat (c # r)) + k = length c' + Suc k" "length c' div Suc k = 0" using True by simp_all
      then show ?thesis using True by (simp only: div_step list.size add_0)
    next
      case False
      with Cons k have "length c = Suc k" "(length (concat r) + k) div Suc k = length r"
        by (auto simp: full_chunks_Cons)
      moreover from this have "length (concat (c # r)) + k = (length (concat r) + k) + Suc k" by simp
      ultimately show ?thesis by (metis div_step length_Cons)
    qed
  qed simp
  then show ?thesis by (simp add: k)
qed

lemma chunk_counts:
  assumes "0 < cs" and "\<forall>c \<in> set chunks. length c \<le> cs"
  shows "(length (concat chunks) + (cs - 1)) div cs \<le> length chunks"
proof -
  have "length (concat chunks) \<le> length chunks * cs"
    using assms(2) by (induction chunks) auto
  then have "(length (concat chunks) + (cs - 1)) div cs \<le> (length chunks * cs + (cs - 1)) div cs"
    by (intro div_le_mono) simp
  also have "\<dots> = length chunks + (cs - 1) div cs" using assms(1) by (intro div_mult_self3) simp
  also have "\<dots> = length chunks" using assms(1) by simp
  finally show ?thesis .
qed

lemma encrypt_chunks_append:
  assumes "[] \<notin> set chunks"
    and "encrypt_chunks pr append_writer key fid base hashed n i (map Ok chunks) out = (out', Ok (t, h))"
  shows "\<exists>es. sealed_chunks pr key fid base i chunks es \<and> out' = out @ concat es \<and> h = hashed @ concat chunks \<and>
     (n < 2 ^ 64 \<longrightarrow> t = (n + length (concat chunks)) mod 2 ^ 64)"
  using assms
proof (induction chunks arbitrary: hashed n i out)
  case Nil
  then show ?case by (auto intro!: exI [of _ "[]"])
next
  case (Cons c cs)
  then obtain e where e: "encrypt_chunk pr key fid base i c = Ok e"
    and rest: "encrypt_chunks pr append_writer key fid base (hashed @ c) (add_u64 n (length c)) (i + 1) (map Ok cs) (out @ e) = (out', Ok (t, h))"
    by (auto split: result.splits)
  from Cons.IH [OF _ rest] Cons.prems(1) obtain es where "sealed_chunks pr key fid base (i + 1) cs es"
    "out' = (out @ e) @ concat es" "h = (hashed @ c) @ concat cs"
    "add_u64 n (length c) < 2 ^ 64 \<longrightarrow> t = (add_u64 n (length c) + length (concat cs)) mod 2 ^ 64"
    by auto
  moreover have "(add_u64 n (length c) + length (concat cs)) mod 2 ^ 64 = (n + length (concat (c # cs))) mod 2 ^ 64"
    unfolding add_u64_mod mod_add_left_eq by (simp only: concat.simps length_append add.assoc)
  moreover have "add_u64 n (length c) < 2 ^ 64" unfolding add_u64_mod by simp
  ultimately show ?case using e by (intro exI [of _ "e # es"]) simp
qed

lemma encrypt_chunk_open:
  assumes aead: "aead_documented pr" and key: "length key = 32" and base: "length base = 12"
    and sealed: "encrypt_chunk pr key fid base i c = Ok e"
  shows "length e = length c + 16"
    and "open_sealed pr key (derive_chunk_nonce base i) AcFileData (build_chunk_aad fid i) e = Ok c"
proof -
  have s: "seal pr key (derive_chunk_nonce base i) AcFileData (build_chunk_aad fid i) c = Ok e"
    using sealed base by (auto simp: encrypt_chunk_def result_simps)
  then show "open_sealed pr key (derive_chunk_nonce base i) AcFileData (build_chunk_aad fid i) e = Ok c"
    using base by (simp add: open_sealed_iff [OF aead key])
  show "length e = length c + 16"
    using s aead_documentedD(2) [OF aead key length_derive_chunk_nonce [OF base]]
    by (simp add: seal_def result_simps del: domain_prefix.simps)
qed

lemma sealed_chunks_length:
  assumes "aead_documented pr" "length key = 32" "length base = 12"
  shows "sealed_chunks pr key fid base i chunks es \<Longrightarrow> length (concat es) = length (concat chunks) + 16 * length chunks"
proof (induction chunks arbitrary: i es)
  case (Cons c cs)
  then obtain e es' where "es = e # es'" "encrypt_chunk pr key fid base i c = Ok e" "sealed_chunks pr key fid base (i + 1) cs es'"
    by (cases es) auto
  then show ?case using Cons.IH [of "i + 1" es'] encrypt_chunk_open(1) [OF assms] by simp
qed (case_tac es; simp)

text \<open>With full chunks the loop runs one round for each of them.\<close>

fun run_rounds :: "('s \<Rightarrow> nat \<Rightarrow> u64 \<Rightarrow> ('s, 'e) result) \<Rightarrow> u64 \<Rightarrow> bytes list \<Rightarrow> 's \<Rightarrow> ('s, 'e) result" where
  "run_rounds round i [] st = Ok st"
| "run_rounds round i (c # cs) st = rbind (round st (length c) i) (\<lambda>st'. run_rounds round (i + 1) cs st')"

lemma chunk_loop_rounds:
  "full_chunks cs chunks \<Longrightarrow> 0 < cs \<Longrightarrow> chunk_loop round cs (length (concat chunks)) i st = Some (run_rounds round i chunks st)"
proof (induction chunks arbitrary: i st)
  case Nil
  then show ?case by (subst chunk_loop.simps) simp
next
  case (Cons c r)
  have len: "min cs (length (concat (c # r))) = length c" "length (concat (c # r)) - length c = length (concat r)"
    and "c \<noteq> []" and full: "full_chunks cs r"
    using Cons.prems by (auto simp: full_chunks_Cons split: if_splits)
  then have "length (concat (c # r)) \<noteq> 0" by simp
  then show ?case
    using Cons.IH [OF full Cons.prems(2)] by (subst chunk_loop.simps) (simp only: len Let_def if_False run_rounds.simps, simp split: result.split)
qed

lemma decrypt_sealed_chunks:
  assumes doc: "aead_documented pr" "length key = 32" "length base = 12"
  assumes "sealed_chunks pr key fid base i chunks es" and "length (pre @ concat es) < 2 ^ 64"
  shows "run_rounds (decrypt_chunk pr key fid base (pre @ concat es)) i chunks (length pre, out) =
     Ok (length (pre @ concat es), out @ concat chunks)"
  using assms(4-)
proof (induction chunks arbitrary: i es pre out)
  case Nil
  then show ?case by (cases es) simp_all
next
  case (Cons c r)
  then obtain e es' where es: "es = e # es'" and e: "encrypt_chunk pr key fid base i c = Ok e"
    and rest: "sealed_chunks pr key fid base (i + 1) r es'"
    by (cases es) auto
  note o = encrypt_chunk_open [OF doc e]
  let ?enc = "pre @ e @ concat es'"
  have "length pre + (length c + 16) < 2 ^ 64" "take (length c + 16) (drop (length pre) ?enc) = e"
    using o(1) Cons.prems(2) by (simp_all add: es)
  then have "decrypt_chunk pr key fid base ?enc (length pre, out) (length c) i = Ok (length (pre @ e), out @ c)"
    using o doc(3) by (simp add: decrypt_chunk_def checked_add_def build_chunk_aad_def)
  then show ?case using Cons.IH [OF rest, of "pre @ e" "out @ c"] Cons.prems(2) by (simp add: es)
qed

text \<open>The result of a chunked encryption that writes to memory.\<close>

lemma encrypt_content_chunked_memory:
  assumes doc: "aead_documented pr" "length key = 32" "length base = 12" and ne: "[] \<notin> set chunks"
    and enc: "encrypt_content_chunked pr append_writer (map Ok chunks) [] key fid base cs = (out, Ok (n, digest))"
    and fits: "length out < 2 ^ 64"
  obtains es where "sealed_chunks pr key fid base 0 chunks es" "out = concat es" "n = length (concat chunks)"
    "digest = pr_sha256 pr (concat chunks)" "length out = length (concat chunks) + 16 * length chunks"
    "0 < cs" "cs \<le> MAX_CONTENT_CHUNK_SIZE"
proof -
  have cs: "0 < cs" "cs \<le> MAX_CONTENT_CHUNK_SIZE"
    using enc by (auto simp: encrypt_content_chunked_def split: if_splits)
  then obtain h where run: "encrypt_chunks pr append_writer key fid base [] 0 0 (map Ok chunks) [] = (out, Ok (n, h))"
    and h: "digest = pr_sha256 pr h"
    using enc by (auto simp: encrypt_content_chunked_def result_simps split: prod.splits if_splits)
  from encrypt_chunks_append [OF ne run] obtain es where es: "sealed_chunks pr key fid base 0 chunks es"
    "out = concat es" "h = concat chunks" "n = length (concat chunks) mod 2 ^ 64" by auto
  moreover note len = sealed_chunks_length [OF doc es(1)]
  moreover have "length (concat chunks) < 2 ^ 64" using fits len es(2) by simp
  ultimately show thesis using cs h by (intro that [of es]) simp_all
qed

lemma full_chunks_nonempty: "0 < cs \<Longrightarrow> full_chunks cs chunks \<Longrightarrow> [] \<notin> set chunks"
  by (induction chunks) (auto simp: full_chunks_Cons split: if_splits)

subsection \<open>Properties\<close>

text \<open>
  C5. Chunked encryption is inverted by decryption when the reader fills the buffer: the plaintext length
  and hash are reported, the ciphertext has the announced size, the chunks decrypt to the content and its
  integrity hash matches.
\<close>

theorem chunked_content_round_trip:
  assumes doc: "aead_documented pr" "length key = 32" "length (fm_content_nonce md) = 12"
    and full: "full_chunks cs chunks"
    and enc: "encrypt_content_chunked pr append_writer (map Ok chunks) [] key (fm_file_id md) (fm_content_nonce md) cs =
      (out, Ok (fm_file_size md, fm_integrity_hash md))"
    and fits: "length out + cs \<le> 2 ^ 64" and memory: "try_reserve (fm_file_size md)"
  shows "fm_file_size md = length (concat chunks) \<and> chunked_encrypted_size (fm_file_size md) cs = Ok (length out) \<and>
     decrypt_content_chunked pr try_reserve out key md cs = Some (Ok (concat chunks)) \<and>
     verify_file_integrity pr (concat chunks) md"
proof -
  have cs: "0 < cs" using enc by (auto simp: encrypt_content_chunked_def split: if_splits)
  then have "length out < 2 ^ 64" using fits by linarith
  from encrypt_content_chunked_memory [OF doc full_chunks_nonempty [OF cs full] enc this]
  obtain es where es: "sealed_chunks pr key (fm_file_id md) (fm_content_nonce md) 0 chunks es" "out = concat es"
    and n: "fm_file_size md = length (concat chunks)" and h: "fm_integrity_hash md = pr_sha256 pr (concat chunks)"
    and len: "length out = length (concat chunks) + 16 * length chunks" and max: "cs \<le> MAX_CONTENT_CHUNK_SIZE"
    by blast
  have size: "chunked_encrypted_size (fm_file_size md) cs = Ok (length out)"
    unfolding chunked_encrypted_size_Ok_iff n full_chunks_count [OF cs full] using cs max fits len by simp
  have "chunk_loop (decrypt_chunk pr key (fm_file_id md) (fm_content_nonce md) out) cs (fm_file_size md) 0 (0, []) =
      Some (Ok (length out, concat chunks))"
    using decrypt_sealed_chunks [OF doc es(1), of "[]" "[]"] fits cs by (simp add: chunk_loop_rounds [OF full cs] es(2) n)
  then show ?thesis
    using size n h cs max doc(3) memory by (simp add: decrypt_content_chunked_def verify_file_integrity_def)
qed

definition sample_fm :: "bytes \<Rightarrow> nat \<Rightarrow> file_encryption_metadata" where
  "sample_fm content chunk_size =
     \<lparr>fm_file_id = ''f'', fm_file_path = ''/a'', fm_group_id = None, fm_epoch_id = 1, fm_header_version = 2,
      fm_wrapped_file_key = [], fm_key_wrap_nonce = [], fm_key_wrap_aad_hash = [], fm_content_nonce = replicate 12 3,
      fm_content_chunk_size = Some chunk_size, fm_original_size = length content, fm_file_size = length content,
      fm_integrity_hash = pr_sha256 sample_prims content\<rparr>"

lemma sample_encrypt_chunk:
  "length base = 12 \<Longrightarrow> encrypt_chunk sample_prims key fid base i c = Ok (c @ replicate 16 0)"
  by (simp add: encrypt_chunk_def seal_def sample_prims_def)

theorem chunked_content_round_trip_witness:
  "decrypt_content_chunked sample_prims (\<lambda>_. True) ([1, 2] @ replicate 16 0 @ [3] @ replicate 16 0) (replicate 32 7)
     (sample_fm [1, 2, 3] 2) 2 = Some (Ok [1, 2, 3])"
proof -
  let ?md = "sample_fm [1, 2, 3] 2" and ?out = "[1, 2] @ replicate 16 0 @ [3] @ replicate 16 0 :: bytes"
  have "encrypt_content_chunked sample_prims append_writer (map Ok [[1, 2], [3]]) [] (replicate 32 7) (fm_file_id ?md)
      (fm_content_nonce ?md) 2 = (?out, Ok (fm_file_size ?md, fm_integrity_hash ?md))"
    by (simp add: encrypt_content_chunked_def sample_encrypt_chunk sample_fm_def add_u64_mod)
  from chunked_content_round_trip [OF sample_aead _ _ _ this, of "\<lambda>_. True"] show ?thesis
    by (simp add: sample_fm_def)
qed

text \<open>
  C36. Each call of \<open>read\<close> becomes one chunk. When the reader delivered the content in more pieces than full
  buffers would take and encryption succeeded all the same, nothing that it wrote can be decrypted again:
  the ciphertext has more authentication tags than its size accounts for.
\<close>

theorem short_reads_undecryptable:
  assumes doc: "aead_documented pr" "length key = 32" "length (fm_content_nonce md) = 12"
    and reads: "[] \<notin> set chunks" "(length (concat chunks) + (cs - 1)) div cs < length chunks"
    and enc: "encrypt_content_chunked pr append_writer (map Ok chunks) [] key (fm_file_id md) (fm_content_nonce md) cs =
      (out, Ok (fm_file_size md, fm_integrity_hash md))"
    and fits: "length out + cs \<le> 2 ^ 64"
  shows "decrypt_content_chunked pr try_reserve out key md cs = Some (Err (DeDecryptionFailure ''Chunked ciphertext size mismatch''))"
proof -
  have cs: "0 < cs" using enc by (auto simp: encrypt_content_chunked_def split: if_splits)
  then have "length out < 2 ^ 64" using fits by linarith
  from encrypt_content_chunked_memory [OF doc reads(1) enc this]
  have n: "fm_file_size md = length (concat chunks)" and len: "length out = length (concat chunks) + 16 * length chunks"
    and max: "cs \<le> MAX_CONTENT_CHUNK_SIZE" by blast+
  let ?expected = "fm_file_size md + 16 * ((fm_file_size md + (cs - 1)) div cs)"
  have "chunked_encrypted_size (fm_file_size md) cs = Ok ?expected"
    unfolding chunked_encrypted_size_Ok_iff using cs max fits len reads(2) by (simp add: n)
  moreover have "length out \<noteq> ?expected" using len reads(2) by (simp add: n)
  ultimately show ?thesis
    using cs max by (simp add: decrypt_content_chunked_def)
qed

theorem short_reads_undecryptable_witness:
  "decrypt_content_chunked sample_prims (\<lambda>_. True) ([1] @ replicate 16 0 @ [2] @ replicate 16 0) (replicate 32 7)
     (sample_fm [1, 2] 2) 2 = Some (Err (DeDecryptionFailure ''Chunked ciphertext size mismatch''))"
proof -
  let ?md = "sample_fm [1, 2] 2" and ?out = "[1] @ replicate 16 0 @ [2] @ replicate 16 0 :: bytes"
  have "encrypt_content_chunked sample_prims append_writer (map Ok [[1], [2]]) [] (replicate 32 7) (fm_file_id ?md)
      (fm_content_nonce ?md) 2 = (?out, Ok (fm_file_size ?md, fm_integrity_hash ?md))"
    by (simp add: encrypt_content_chunked_def sample_encrypt_chunk sample_fm_def add_u64_mod)
  from short_reads_undecryptable [OF sample_aead _ _ _ _ this] show ?thesis
    by (simp add: sample_fm_def)
qed

text \<open>
  C27. No two chunks of a file use the same nonce, for as many chunks as the index can count, and the
  associated data of a chunk determine its index.
\<close>

theorem chunk_nonces_distinct:
  assumes "length base = 12" and "n \<le> 2 ^ 64"
  shows "distinct (map (\<lambda>k. derive_chunk_nonce base (of_nat k)) [0..<n]) \<and>
     (build_chunk_aad fid i = build_chunk_aad fid j \<longleftrightarrow> i = j)"
proof -
  have "inj_on (\<lambda>k. derive_chunk_nonce base (of_nat k)) {0..<n}"
  proof (rule inj_onI)
    fix k m assume "k \<in> {0..<n}" "m \<in> {0..<n}" "derive_chunk_nonce base (of_nat k) = derive_chunk_nonce base (of_nat m)"
    then have "(of_nat k :: u64) = of_nat m" "k < 2 ^ 64" "m < 2 ^ 64"
      using assms by (auto simp: derive_chunk_nonce_inj)
    then show "k = m" by (metis unat_of_nat_u64)
  qed
  then show ?thesis by (simp add: distinct_map build_chunk_aad_def to_le_bytes_inj)
qed

theorem chunk_nonces_distinct_witness:
  "distinct (map (\<lambda>k. derive_chunk_nonce (replicate 12 5) (of_nat k)) [0..<300])"
  using chunk_nonces_distinct [of "replicate 12 5" 300] by simp

text \<open>
  The layouts whose numbers fit into the 64 bits of the manifest.
\<close>

definition sparse_fits :: "sparse_metadata \<Rightarrow> bool" where
  "sparse_fits sm \<longleftrightarrow> sm_logical_size sm < 2 ^ 64 \<and> length (sm_extents sm) < 2 ^ 64 \<and>
     list_all (\<lambda>x. sp_offset x < 2 ^ 64 \<and> sp_length x < 2 ^ 64) (sm_extents sm)"

definition layout_fits :: "nat \<Rightarrow> nat \<Rightarrow> nat option \<Rightarrow> bytes \<Rightarrow> sparse_metadata option \<Rightarrow> bool" where
  "layout_fits content_size encrypted_size chunk nonce sparse \<longleftrightarrow>
     content_size < 2 ^ 64 \<and> encrypted_size < 2 ^ 64 \<and> length nonce < 2 ^ 64 \<and>
     (case chunk of None \<Rightarrow> True | Some c \<Rightarrow> c < 2 ^ 64) \<and>
     (case sparse of None \<Rightarrow> True | Some sm \<Rightarrow> sparse_fits sm)"

lemma extents_inj:
  assumes "length xs = length ys"
    and "list_all (\<lambda>x. sp_offset x < 2 ^ 64 \<and> sp_length x < 2 ^ 64) xs"
    and "list_all (\<lambda>x. sp_offset x < 2 ^ 64 \<and> sp_length x < 2 ^ 64) ys"
    and "concat (map (\<lambda>x. le_nat (sp_offset x) @ le_nat (sp_length x)) xs) =
      concat (map (\<lambda>x. le_nat (sp_offset x) @ le_nat (sp_length x)) ys)"
  shows "xs = (ys :: sparse_extent list)"
  using assms
proof (induction xs ys rule: list_induct2)
  case (Cons x xs y ys)
  then have "le_nat (sp_offset x) = le_nat (sp_offset y)" "le_nat (sp_length x) = le_nat (sp_length y)" "xs = ys" by simp_all
  moreover have "sp_offset x < 2 ^ 64" "sp_offset y < 2 ^ 64" "sp_length x < 2 ^ 64" "sp_length y < 2 ^ 64"
    using Cons.prems by simp_all
  ultimately have "sp_offset x = sp_offset y" "sp_length x = sp_length y" by (metis le_nat_inj)+
  with \<open>xs = ys\<close> show ?case by simp
qed simp

lemma sparse_bytes_inj:
  assumes "case m of None \<Rightarrow> True | Some sm \<Rightarrow> sparse_fits sm" and "case m' of None \<Rightarrow> True | Some sm \<Rightarrow> sparse_fits sm"
    and "sparse_bytes m = sparse_bytes m'"
  shows "m = m'"
proof (cases m)
  case None
  then show ?thesis using assms(3) by (cases m') (auto simp: sparse_bytes_def)
next
  case (Some sm)
  then obtain sm' where m': "m' = Some sm'" using assms(3) by (cases m') (auto simp: sparse_bytes_def)
  have "le_nat (sm_logical_size sm) = le_nat (sm_logical_size sm')" "le_nat (length (sm_extents sm)) = le_nat (length (sm_extents sm'))"
    and ext: "concat (map (\<lambda>x. le_nat (sp_offset x) @ le_nat (sp_length x)) (sm_extents sm)) =
      concat (map (\<lambda>x. le_nat (sp_offset x) @ le_nat (sp_length x)) (sm_extents sm'))"
    using assms(3) by (simp_all add: Some m' sparse_bytes_def)
  moreover have fits: "sparse_fits sm" "sparse_fits sm'" using assms(1,2) by (simp_all add: Some m')
  ultimately have "sm_logical_size sm = sm_logical_size sm'" and len: "length (sm_extents sm) = length (sm_extents sm')"
    unfolding sparse_fits_def by (metis le_nat_inj)+
  moreover have "sm_extents sm = sm_extents sm'"
    using extents_inj [OF len _ _ ext] fits unfolding sparse_fits_def by blast
  ultimately show ?thesis by (simp add: Some m')
qed

lemma manifest_input_inj:
  assumes fits: "layout_fits s e c n m" "layout_fits s' e' c' n' m'" and eq: "manifest_input s e c n m = manifest_input s' e' c' n' m'"
  shows "s = s' \<and> e = e' \<and> c = c' \<and> n = n' \<and> m = m'"
proof -
  let ?c = "\<lambda>c. case c of None \<Rightarrow> 0 | Some x \<Rightarrow> (x :: nat)"
  have parts: "le_nat s = le_nat s'" "le_nat e = le_nat e'" "(c = None) = (c' = None)" "le_nat (?c c) = le_nat (?c c')"
    "le_nat (length n) = le_nat (length n')" "n @ sparse_bytes m = n' @ sparse_bytes m'"
    using eq unfolding manifest_input_def same_append_eq
    by (simp_all split: if_splits)
  have "?c c < 2 ^ 64" "?c c' < 2 ^ 64" using fits by (auto simp: layout_fits_def split: option.splits)
  then have nums: "s = s'" "e = e'" "?c c = ?c c'" "length n = length n'"
    using parts fits unfolding layout_fits_def by (metis le_nat_inj)+
  have "c = c'" using nums(3) parts(3) by (cases c; cases c') auto
  moreover have "n = n'" "sparse_bytes m = sparse_bytes m'" using parts(6) nums(4) by auto
  moreover from this have "m = m'" using fits unfolding layout_fits_def by (intro sparse_bytes_inj) auto
  ultimately show ?thesis using nums by simp
qed

text \<open>
  C4. The manifest binds the layout: a version 3 header is accepted with an envelope exactly when sizes,
  chunking, nonce and sparse layout are those that were sealed into it, absent a digest collision between
  the two, and the envelope is never accepted under an older version.
\<close>

theorem manifest_binds_layout:
  assumes key: "length key = 32" and sha: "sha256_len (pr_sha256 pr)"
    and fits: "layout_fits s e c n m"
      "layout_fits (ly_content_size md) (ly_encrypted_size md) (ly_content_chunk_size md) (content_nonce_or_empty md) (ly_sparse_metadata md)"
    and inj: "inj_on (pr_sha256 pr) {manifest_input s e c n m, manifest_input (ly_content_size md) (ly_encrypted_size md)
      (ly_content_chunk_size md) (content_nonce_or_empty md) (ly_sparse_metadata md)}"
  shows "manifest_verify pr md (key @ manifest_digest pr s e c n m) allow_legacy = Ok k \<longleftrightarrow>
     k = key \<and> header_version_or_1 md = 3 \<and> s = ly_content_size md \<and> e = ly_encrypted_size md \<and>
     c = ly_content_chunk_size md \<and> n = content_nonce_or_empty md \<and> m = ly_sparse_metadata md"
proof -
  let ?d = "manifest_digest pr s e c n m"
  let ?d' = "manifest_digest pr (ly_content_size md) (ly_encrypted_size md) (ly_content_chunk_size md) (content_nonce_or_empty md) (ly_sparse_metadata md)"
  have len: "length ?d = 32"
    using sha by (simp add: manifest_digest_def sha256_len_def)
  have same: "?d = ?d' \<longleftrightarrow> s = ly_content_size md \<and> e = ly_encrypted_size md \<and> c = ly_content_chunk_size md \<and>
      n = content_nonce_or_empty md \<and> m = ly_sparse_metadata md"
  proof
    assume "?d = ?d'"
    with inj have "manifest_input s e c n m = manifest_input (ly_content_size md) (ly_encrypted_size md)
      (ly_content_chunk_size md) (content_nonce_or_empty md) (ly_sparse_metadata md)"
      unfolding manifest_digest_def inj_on_def by blast
    then show "s = ly_content_size md \<and> e = ly_encrypted_size md \<and> c = ly_content_chunk_size md \<and>
      n = content_nonce_or_empty md \<and> m = ly_sparse_metadata md"
      by (rule manifest_input_inj [OF fits])
  qed blast
  have k32: "key_from_bytes key = Ok key" and k64: "\<exists>x. key_from_bytes (key @ ?d) = Err x"
    using key len by (simp_all add: key_from_bytes_def sized_bytes_def)
  show ?thesis
  proof (cases "header_version_or_1 md = 3")
    case True
    then have "manifest_verify pr md (key @ ?d) allow_legacy =
        (if ?d \<noteq> ?d' then Err (ClFileIntegrity ''Authenticated content manifest mismatch; file may be incomplete or modified'') else Ok key)"
      unfolding manifest_verify_def using key len k32 by simp
    with same True show ?thesis by (cases "?d = ?d'") auto
  next
    case False
    with k64 have "manifest_verify pr md (key @ ?d) allow_legacy \<noteq> Ok k"
      unfolding manifest_verify_def by (auto simp: map_err_Ok_iff)
    with False show ?thesis by blast
  qed
qed

definition sample_md :: "nat \<Rightarrow> encrypted_file_metadata" where
  "sample_md content_size =
     \<lparr>ly_content_size = content_size, ly_encrypted_size = 40, ly_content_chunk_size = Some 4, ly_content_nonce = Some (replicate 12 3),
      ly_sparse_metadata = None, ef_file_id = ''f'', ef_file_path = ''/a'', ef_header_version = Some 3, ef_group_id = None,
      ef_epoch_id = 1, ef_wrapped_file_key = None, ef_key_wrap_nonce = None, ef_key_wrap_aad_hash = None, ef_created_at = 0,
      ef_encrypted_content = []\<rparr>"

theorem manifest_binds_layout_witness:
  "manifest_verify sample_prims (sample_md 8) (replicate 32 7 @ manifest_digest sample_prims 8 40 (Some 4) (replicate 12 3) None) False = Ok (replicate 32 7)"
proof -
  have "inj_on (pr_sha256 sample_prims) {manifest_input 8 40 (Some 4) (replicate 12 3) None}" by simp
  moreover have "sha256_len (pr_sha256 sample_prims)" by (simp add: sample_prims_def sample_sha_len)
  ultimately show ?thesis
    using manifest_binds_layout [of "replicate 32 7" sample_prims 8 40 "Some 4" "replicate 12 3" None "sample_md 8" False "replicate 32 7"]
    by (simp add: sample_md_def content_nonce_or_empty_def header_version_or_1_def layout_fits_def)
qed

text \<open>
  A file encrypted in one piece is read back with the epoch key: the wrapped key unwraps to the file
  key and the content decrypts to the plaintext.
\<close>

theorem single_record_round_trip:
  assumes doc: "aead_documented pr" "hkdf_documented pr" and file_key: "length file_key = 32"
    and kek: "hkdf_expand pr epoch_key HcKeyWrapping 32 = Ok kek"
    and aad: "aad = build_wrap_aad pr (fm_file_id md) (fm_file_path md) (fm_group_id md) (fm_epoch_id md) (fm_header_version md)"
    and wrap: "wrap_file_key pr rng file_key kek aad = Ok (fm_wrapped_file_key md, fm_key_wrap_nonce md)"
    and hash: "fm_key_wrap_aad_hash md = hash_wrap_aad pr aad"
    and content: "encrypt_content pr rng' content file_key (fm_file_id md) = Ok (encrypted, fm_content_nonce md)"
    and sizes: "fm_content_chunk_size md = None" "fm_file_size md = length content" "fm_original_size md = length content"
  shows "unwrap_file_key pr md epoch_key = Ok file_key \<and> decrypt_content pr try_reserve encrypted file_key md = Some (Ok content)"
proof
  have "length kek = 32" by (rule hkdf_expand_length [OF doc(2) kek])
  moreover have nonce: "length (fm_key_wrap_nonce md) = 12" "seal pr kek (fm_key_wrap_nonce md) AcFileData aad file_key = Ok (fm_wrapped_file_key md)"
    using wrap by (auto simp: wrap_file_key_def result_simps nonce_from_bytes_def)
  ultimately have "open_sealed pr kek (fm_key_wrap_nonce md) AcFileData aad (fm_wrapped_file_key md) = Ok file_key"
    by (simp add: open_sealed_iff [OF doc(1)])
  then show "unwrap_file_key pr md epoch_key = Ok file_key"
    using hash nonce(1) kek \<open>length kek = 32\<close> file_key unfolding unwrap_file_key_def aad [symmetric]
    by (simp add: key_from_bytes_def sized_bytes_def)
next
  have c: "length content \<le> MAX_IN_MEMORY_PLAINTEXT_BYTES" "length (fm_content_nonce md) = 12"
    "seal pr file_key (fm_content_nonce md) AcFileData (as_bytes (fm_file_id md)) content = Ok encrypted"
    using content by (auto simp: encrypt_content_def result_simps nonce_from_bytes_def)
  then have "open_sealed pr file_key (fm_content_nonce md) AcFileData (as_bytes (fm_file_id md)) encrypted = Ok content"
    by (simp add: open_sealed_iff [OF doc(1) file_key])
  moreover have "length encrypted = length content + 16"
    using c aead_documentedD(2) [OF doc(1) file_key c(2)] by (simp add: seal_def result_simps del: domain_prefix.simps)
  ultimately show "decrypt_content pr try_reserve encrypted file_key md = Some (Ok content)"
    using c sizes by (simp add: decrypt_content_def checked_add_def)
qed

theorem single_record_round_trip_witness:
  "\<exists>md. unwrap_file_key sample_prims md (replicate 32 9) = Ok (replicate 32 7) \<and>
     decrypt_content sample_prims (\<lambda>_. True) ([1, 2, 3] @ replicate 16 0) (replicate 32 7) md = Some (Ok [1, 2, 3])"
proof -
  let ?aad = "build_wrap_aad sample_prims ''f'' ''/a'' None 1 2"
  let ?md = "(sample_fm [1, 2, 3] 4)\<lparr>fm_content_chunk_size := None, fm_wrapped_file_key := replicate 32 7 @ replicate 16 0,
    fm_key_wrap_nonce := replicate 12 5, fm_key_wrap_aad_hash := hash_wrap_aad sample_prims ?aad\<rparr>"
  have seal: "seal sample_prims key nonce cx aad m = Ok (m @ replicate 16 0)" for key nonce cx aad m
    by (simp add: seal_def sample_prims_def)
  obtain kek where "hkdf_expand sample_prims (replicate 32 9) HcKeyWrapping 32 = Ok kek"
    using hkdf_expand_Ok [OF sample_hkdf, of "replicate 32 9" 32] by fastforce
  then show ?thesis
    using single_record_round_trip [OF sample_aead sample_hkdf, of "replicate 32 7" "replicate 32 9" kek ?aad ?md "replicate 12 5"
        "replicate 12 3" "[1, 2, 3]" "[1, 2, 3] @ replicate 16 0" "\<lambda>_. True"]
    by (intro exI [of _ ?md]) (simp add: sample_fm_def wrap_file_key_def encrypt_content_def seal)
qed

text \<open>
  A sparse layout is accepted exactly when its extents are non-empty, in order, disjoint and inside the
  logical size; the packed size is then the sum of their lengths and no larger than the logical size.
\<close>

definition extents_within :: "nat \<Rightarrow> sparse_extent list \<Rightarrow> bool" where
  "extents_within sz xs \<longleftrightarrow>
     sorted_wrt (\<lambda>x y. sp_offset x + sp_length x \<le> sp_offset y) xs \<and>
     list_all (\<lambda>x. 0 < sp_length x \<and> sp_offset x + sp_length x \<le> sz) xs"

lemma packed_loop_iff:
  assumes "sz < 2 ^ 64" and "packed \<le> stop" and "stop \<le> sz"
  shows "packed_loop sz stop packed xs = Some p \<longleftrightarrow>
     extents_within sz xs \<and> list_all (\<lambda>x. stop \<le> sp_offset x) xs \<and> p = packed + sum_list (map sp_length xs)"
  using assms(2,3)
proof (induction xs arbitrary: stop packed)
  case (Cons x xs)
  let ?stop = "sp_offset x + sp_length x"
  show ?case
  proof (cases "0 < sp_length x \<and> stop \<le> sp_offset x \<and> ?stop \<le> sz")
    case True
    then have "packed_loop sz stop packed (x # xs) = packed_loop sz ?stop (packed + sp_length x) xs"
      using assms(1) Cons.prems by (simp add: checked_add_def)
    also have "\<dots> = Some p \<longleftrightarrow> extents_within sz xs \<and> list_all (\<lambda>y. ?stop \<le> sp_offset y) xs \<and>
        p = packed + sp_length x + sum_list (map sp_length xs)"
      using True Cons.prems by (intro Cons.IH) auto
    finally show ?thesis using True by (fastforce simp: extents_within_def list_all_iff)
  next
    case False
    then show ?thesis using assms(1) by (auto simp: extents_within_def checked_add_def)
  qed
qed (auto simp: extents_within_def)

lemma packed_within:
  assumes "extents_within sz xs" and "list_all (\<lambda>x. stop \<le> sp_offset x) xs" and "stop \<le> sz"
  shows "stop + sum_list (map sp_length xs) \<le> sz"
  using assms
proof (induction xs arbitrary: stop)
  case (Cons x xs)
  then have "(sp_offset x + sp_length x) + sum_list (map sp_length xs) \<le> sz"
    by (intro Cons.IH) (auto simp: extents_within_def list_all_iff)
  with Cons.prems show ?case by simp
qed simp

theorem sparse_layout_validation:
  assumes "sm_logical_size sm < 2 ^ 64"
  shows "validated_packed_size sm sz = Some p \<longleftrightarrow>
     sm_logical_size sm = sz \<and> extents_within sz (sm_extents sm) \<and>
     p = sum_list (map sp_length (sm_extents sm)) \<and> p \<le> sz"
  using packed_loop_iff [OF assms, of 0 0] packed_within [of sz "sm_extents sm" 0]
  by (auto simp: validated_packed_size_def list_all_iff)

theorem sparse_layout_validation_witness:
  "validated_packed_size \<lparr>sm_logical_size = 100, sm_extents = [\<lparr>sp_offset = 10, sp_length = 5\<rparr>, \<lparr>sp_offset = 15, sp_length = 20\<rparr>]\<rparr> 100 = Some 25"
  using sparse_layout_validation [of "\<lparr>sm_logical_size = 100, sm_extents = [\<lparr>sp_offset = 10, sp_length = 5\<rparr>, \<lparr>sp_offset = 15, sp_length = 20\<rparr>]\<rparr>" 100 25]
  by (simp add: extents_within_def)

text \<open>
  Normalizing an identifier is not idempotent: white space is trimmed before the empty and dot segments
  are dropped, so that it can become visible at the front and be trimmed the next time.
\<close>

theorem normalize_not_idempotent:
  "normalize_file_identifier ''./ a'' = '' a'' \<and> normalize_file_identifier '' a'' = ''a''"
  by code_simp

end
