(* ===== verification/FileHeader.thy ===== *)
theory FileHeader
  imports FileContent SecureMessages "HOL-Library.Monad_Syntax"
begin

text \<open>
  The headers of encrypted files (\<open>serialize_encrypted_header\<close> and \<open>read_encrypted_header\<close> of
  \<open>crates/client/src/file/encrypt.rs\<close>) and the classification of files by name and by content
  (\<open>crates/client/src/file/ciphertext.rs\<close>).

  The record \<open>header_env\<close> has the parameters: the serializer and parser of JSON text, the text forms of time
  stamps and UUIDs, and the conversions of the two nested structures that are derived by serde. A reader is
  the bytes that are left to read. \<open>header_documented\<close> names what is used of them.
\<close>

subsection \<open>Data\<close>

record platform_xattr =
  px_name :: string
  px_value_base64 :: string

record macos_file_metadata =
  mf_xattrs :: "platform_xattr list"
  mf_acl_text :: "string option"

record platform_file_metadata =
  pf_unix_mode :: "32 word option"
  pf_macos :: "macos_file_metadata option"

definition macos_is_empty :: "macos_file_metadata \<Rightarrow> bool" where
  "macos_is_empty m \<longleftrightarrow> mf_xattrs m = [] \<and> (case mf_acl_text m of None \<Rightarrow> True | Some t \<Rightarrow> trim t = [])"

definition platform_is_empty :: "platform_file_metadata \<Rightarrow> bool" where
  "platform_is_empty m \<longleftrightarrow> pf_unix_mode m = None \<and> (case pf_macos m of None \<Rightarrow> True | Some x \<Rightarrow> macos_is_empty x)"

record serialized_header =
  sh_file_id :: string
  sh_file_path :: string
  sh_group_id :: "bytes option"
  sh_epoch_id :: u64
  sh_header_version :: "32 word"
  sh_wrapped_file_key :: bytes
  sh_key_wrap_nonce :: bytes
  sh_key_wrap_aad_hash :: bytes
  sh_content_nonce :: bytes
  sh_content_chunk_size :: "nat option"
  sh_original_size :: nat
  sh_encrypted_size :: nat
  sh_encrypted_at :: instant
  sh_original_name :: "string option"
  sh_platform_metadata :: "platform_file_metadata option"
  sh_sparse_metadata :: "sparse_metadata option"

text \<open>The metadata that a header is parsed to, with the platform metadata beside the fields used before.\<close>

record parsed_file_metadata = encrypted_file_metadata +
  ef_platform_metadata :: "platform_file_metadata option"

record header_identity =
  hi_file_id :: string
  hi_epoch_id :: u64
  hi_group_id :: "bytes option"

datatype content_kind = NotCiphertext | Damaged header_identity | Ciphertext parsed_file_metadata

datatype ciphertext_kind = CkFile | CkFolderRecord | CkNotEncrypted

record header_env =
  hv_prims :: crypto_prims
  hv_json :: "json \<Rightarrow> (bytes, string) result"
  hv_parse :: "bytes \<Rightarrow> json option"
  hv_rfc3339 :: "instant \<Rightarrow> string"
  hv_parse_rfc3339 :: "string \<Rightarrow> instant option"
  hv_uuid :: "bytes \<Rightarrow> string"
  hv_parse_uuid :: "string \<Rightarrow> bytes option"
  hv_sparse_value :: "sparse_metadata \<Rightarrow> json"
  hv_parse_sparse :: "json \<Rightarrow> sparse_metadata option"
  hv_platform_value :: "platform_file_metadata \<Rightarrow> json"
  hv_parse_platform :: "json \<Rightarrow> platform_file_metadata option"

subsection \<open>Writing a header\<close>

abbreviation json_or_null :: "('a \<Rightarrow> json) \<Rightarrow> 'a option \<Rightarrow> json" where
  "json_or_null f x \<equiv> (case x of None \<Rightarrow> JNull | Some y \<Rightarrow> f y)"

abbreviation json_nat :: "nat \<Rightarrow> json" where
  "json_nat n \<equiv> JNumber (dec_nat n)"

definition header_value :: "header_env \<Rightarrow> serialized_header \<Rightarrow> json" where
  "header_value hv h =
     (let base64 = (\<lambda>b. JString (pr_b64_encode (hv_prims hv) b)) in JObject
       [(''file_id'', JString (sh_file_id h)), (''original_name'', json_or_null JString (sh_original_name h)),
        (''original_size'', json_nat (sh_original_size h)), (''file_size'', json_nat (sh_original_size h)),
        (''encrypted_size'', json_nat (sh_encrypted_size h)), (''epoch_id'', json_nat (unat (sh_epoch_id h))),
        (''group_id'', json_or_null (\<lambda>g. JString (hv_uuid hv g)) (sh_group_id h)),
        (''encrypted_at'', JString (hv_rfc3339 hv (sh_encrypted_at h))), (''file_path'', JString (sh_file_path h)),
        (''header_version'', json_nat (unat (sh_header_version h))), (''wrapped_file_key'', base64 (sh_wrapped_file_key h)),
        (''key_wrap_nonce'', base64 (sh_key_wrap_nonce h)), (''key_wrap_aad_hash'', base64 (sh_key_wrap_aad_hash h)),
        (''content_nonce'', base64 (sh_content_nonce h)), (''chunk_size'', json_or_null json_nat (sh_content_chunk_size h)),
        (''platform_metadata'', json_or_null (hv_platform_value hv) (sh_platform_metadata h)),
        (''sparse_metadata'', json_or_null (hv_sparse_value hv) (sh_sparse_metadata h))])"

definition SEPARATOR_LINE :: bytes where
  "SEPARATOR_LINE = as_bytes ''---ENCRYPTED_DATA---''"

definition serialize_encrypted_header :: "header_env \<Rightarrow> serialized_header \<Rightarrow> (bytes, encryption_error) result" where
  "serialize_encrypted_header hv h =
     rbind (map_err (\<lambda>e. EeStorage (''Failed to serialize encrypted metadata: '' @ e)) (hv_json hv (header_value hv h))) (\<lambda>serialized.
     Ok (serialized @ [10] @ SEPARATOR_LINE @ [10]))"

subsection \<open>Reading a header\<close>

text \<open>\<open>read_until\<close> a new line, which is included.\<close>

fun read_line :: "bytes \<Rightarrow> bytes" where
  "read_line [] = []"
| "read_line (b # bs) = (if b = 10 then [b] else b # read_line bs)"

abbreviation (input) MAX_ENCRYPTED_HEADER_BYTES :: nat where
  "MAX_ENCRYPTED_HEADER_BYTES \<equiv> 16 * 1024 * 1024"

text \<open>The result also has the reader's position: what is left of the input.\<close>

function read_encrypted_header :: "(nat \<Rightarrow> bool) \<Rightarrow> bytes \<Rightarrow> bytes \<Rightarrow> (bytes \<times> bytes, string) result" where
  "read_encrypted_header try_reserve header reader =
     (if MAX_ENCRYPTED_HEADER_BYTES < length header then Err ''Encrypted header exceeds 16 MiB''
      else
        let remaining = MAX_ENCRYPTED_HEADER_BYTES - length header;
            limit = remaining + length (SEPARATOR_LINE @ [10]);
            line = read_line (take limit reader);
            rest = drop (length line) reader
        in if line = [] then Err ''Encrypted header separator not found''
           else if line = SEPARATOR_LINE @ [10] \<or> line = SEPARATOR_LINE then Ok (header, rest)
           else if remaining < length line then Err ''Encrypted header exceeds 16 MiB''
           else if \<not> try_reserve (length line) then Err ''Unable to reserve encrypted header''
           else read_encrypted_header try_reserve (header @ line) rest)"
  by pat_completeness auto
termination
proof (relation "measure (\<lambda>(_, _, reader). length reader)", goal_cases)
  case (2 try_reserve header reader remaining limit line rest)
  then have "0 < length line" "0 < length reader" by (cases reader; auto)+
  with 2 show ?case by simp
qed simp

declare read_encrypted_header.simps [simp del]

fun json_str :: "json \<Rightarrow> string option" where
  "json_str (JString s) = Some s"
| "json_str _ = None"

text \<open>\<open>Value::as_u64\<close>: integers are written in decimal digits.\<close>

fun json_u64 :: "json \<Rightarrow> nat option" where
  "json_u64 (JNumber s) =
     (if s \<noteq> [] \<and> list_all (\<lambda>c. c \<in> set ''0123456789'') s \<and> undec s < 2 ^ 64 then Some (undec s) else None)"
| "json_u64 _ = None"

text \<open>\<open>from_value::<Vec<u8>>\<close>: an array of numbers below 256.\<close>

fun json_bytes :: "json \<Rightarrow> bytes option" where
  "json_bytes (JArray vs) =
     those (map (\<lambda>v. Option.bind (json_u64 v) (\<lambda>n. if n < 256 then Some (of_nat n) else None)) vs)"
| "json_bytes _ = None"

definition decode_header_bytes :: "header_env \<Rightarrow> json option \<Rightarrow> bytes option" where
  "decode_header_bytes hv val =
     (case val of
        None \<Rightarrow> None
      | Some v \<Rightarrow>
          (case Option.bind (json_str v) (\<lambda>s. case pr_b64_decode (hv_prims hv) s of Ok b \<Rightarrow> Some b | Err _ \<Rightarrow> None) of
             Some b \<Rightarrow> Some b
           | None \<Rightarrow> json_bytes v))"

text \<open>A JSON field that is absent or null.\<close>

definition json_field :: "json \<Rightarrow> string \<Rightarrow> json option" where
  "json_field v name = (case json_get v name of Some JNull \<Rightarrow> None | r \<Rightarrow> r)"

definition check :: "bool \<Rightarrow> unit option" where
  "check b = (if b then Some () else None)"

definition parse_header_metadata :: "header_env \<Rightarrow> instant \<Rightarrow> json \<Rightarrow> nat \<Rightarrow> parsed_file_metadata option" where
  "parse_header_metadata hv now header encrypted_size = do {
     file_id \<leftarrow> Option.bind (json_get header ''file_id'') json_str;
     epoch_id \<leftarrow> Option.bind (json_get header ''epoch_id'') json_u64;
     header_version \<leftarrow> (case json_get header ''header_version'' of
         None \<Rightarrow> Some 1
       | Some value \<Rightarrow> Option.bind (json_u64 value) (\<lambda>n. if n < 2 ^ 32 then Some n else None));
     let group_id = Option.bind (Option.bind (json_get header ''group_id'') json_str) (hv_parse_uuid hv);
     wrapped_file_key \<leftarrow> decode_header_bytes hv (json_get header ''wrapped_file_key'');
     key_wrap_nonce \<leftarrow> decode_header_bytes hv (json_get header ''key_wrap_nonce'');
     key_wrap_aad_hash \<leftarrow> decode_header_bytes hv (json_get header ''key_wrap_aad_hash'');
     content_nonce \<leftarrow> decode_header_bytes hv (json_get header ''content_nonce'');
     let created_at = (case Option.bind (Option.bind (json_get header ''encrypted_at'') json_str) (hv_parse_rfc3339 hv) of
         Some t \<Rightarrow> t
       | None \<Rightarrow> now);
     let content_size_field = (case Option.bind (json_get header ''file_size'') json_u64 of
         Some n \<Rightarrow> Some n
       | None \<Rightarrow> Option.bind (json_get header ''original_size'') json_u64);
     check (\<not> (3 \<le> header_version \<and> content_size_field = None));
     let content_size = (case content_size_field of Some n \<Rightarrow> n | None \<Rightarrow> 0);
     content_chunk_size \<leftarrow> (case json_field header ''chunk_size'' of
         None \<Rightarrow> Some None
       | Some value \<Rightarrow> map_option Some (json_u64 value));
     let platform_metadata = (case Option.bind (json_get header ''platform_metadata'') (hv_parse_platform hv) of
         Some m \<Rightarrow> if platform_is_empty m then None else Some m
       | None \<Rightarrow> None);
     parsed_sparse_metadata \<leftarrow> (case json_field header ''sparse_metadata'' of
         None \<Rightarrow> Some None
       | Some value \<Rightarrow> map_option Some (hv_parse_sparse hv value));
     (case parsed_sparse_metadata of
        None \<Rightarrow> Some 0
      | Some layout \<Rightarrow> validated_packed_size layout content_size);
     let sparse_metadata = (case parsed_sparse_metadata of
         Some layout \<Rightarrow> if is_effectively_sparse layout then Some layout else None
       | None \<Rightarrow> None);
     packed_size \<leftarrow> (case sparse_metadata of
         Some layout \<Rightarrow> validated_packed_size layout content_size
       | None \<Rightarrow> Some content_size);
     (case content_chunk_size of
        Some chunk_size \<Rightarrow>
          check (\<not> (chunk_size = 0 \<or> MAX_CONTENT_CHUNK_SIZE < chunk_size) \<and>
                 chunked_encrypted_size packed_size chunk_size = Ok encrypted_size)
      | None \<Rightarrow>
          if content_size_field \<noteq> None
          then Option.bind (checked_add packed_size (12 + AEAD_TAG_SIZE)) (\<lambda>n. check (encrypted_size = n))
          else Some ());
     stored_file_path \<leftarrow> Option.bind (Option.bind (json_get header ''file_path'') json_str)
         (\<lambda>p. if trim p = [] then None else Some p);
     Some \<lparr>ly_content_size = content_size, ly_encrypted_size = encrypted_size, ly_content_chunk_size = content_chunk_size,
           ly_content_nonce = Some content_nonce, ly_sparse_metadata = sparse_metadata, ef_file_id = file_id,
           ef_file_path = normalize_file_identifier stored_file_path, ef_header_version = Some (of_nat header_version),
           ef_group_id = group_id, ef_epoch_id = of_nat epoch_id, ef_wrapped_file_key = Some wrapped_file_key,
           ef_key_wrap_nonce = Some key_wrap_nonce, ef_key_wrap_aad_hash = Some key_wrap_aad_hash, ef_created_at = created_at,
           ef_encrypted_content = [], ef_platform_metadata = platform_metadata\<rparr>
   }"

subsection \<open>Classification\<close>

definition classify_header :: "header_env \<Rightarrow> instant \<Rightarrow> json \<Rightarrow> nat \<Rightarrow> content_kind" where
  "classify_header hv now header encrypted_size =
     (case parse_header_metadata hv now header encrypted_size of
        Some metadata \<Rightarrow> Ciphertext metadata
      | None \<Rightarrow>
          (case (Option.bind (json_get header ''file_id'') json_str, Option.bind (json_get header ''epoch_id'') json_u64) of
             (Some file_id, Some epoch_id) \<Rightarrow>
               Damaged \<lparr>hi_file_id = file_id, hi_epoch_id = of_nat epoch_id,
                 hi_group_id = Option.bind (Option.bind (json_get header ''group_id'') json_str) (hv_parse_uuid hv)\<rparr>
           | _ \<Rightarrow> NotCiphertext))"

text \<open>The header value, which must be an object, and the ciphertext after it.\<close>

definition read_header :: "header_env \<Rightarrow> (nat \<Rightarrow> bool) \<Rightarrow> bytes \<Rightarrow> (json \<times> bytes) option" where
  "read_header hv try_reserve reader =
     (case read_encrypted_header try_reserve [] reader of
        Err _ \<Rightarrow> None
      | Ok (header, rest) \<Rightarrow>
          (case hv_parse hv header of
             Some (JObject kvs) \<Rightarrow> Some (JObject kvs, rest)
           | _ \<Rightarrow> None))"

definition inspect_bytes :: "header_env \<Rightarrow> (nat \<Rightarrow> bool) \<Rightarrow> instant \<Rightarrow> bytes \<Rightarrow> content_kind" where
  "inspect_bytes hv try_reserve now contents =
     (if take 1 contents \<noteq> as_bytes ''{'' then NotCiphertext
      else case read_header hv try_reserve contents of
             Some (header, rest) \<Rightarrow> classify_header hv now header (length rest)
           | None \<Rightarrow> NotCiphertext)"

fun identity :: "content_kind \<Rightarrow> header_identity option" where
  "identity NotCiphertext = None"
| "identity (Damaged i) = Some i"
| "identity (Ciphertext m) =
     Some \<lparr>hi_file_id = ef_file_id m, hi_epoch_id = ef_epoch_id m, hi_group_id = ef_group_id m\<rparr>"

definition to_ascii_lowercase :: "char \<Rightarrow> char" where
  "to_ascii_lowercase c = (let n = of_char c :: nat in if 65 \<le> n \<and> n \<le> 90 then char_of (n + 32) else c)"

definition eq_ignore_ascii_case :: "string \<Rightarrow> string \<Rightarrow> bool" where
  "eq_ignore_ascii_case s t \<longleftrightarrow> map to_ascii_lowercase s = map to_ascii_lowercase t"

text \<open>A position is a character boundary when no continuation byte of UTF-8 follows.\<close>

definition is_char_boundary :: "string \<Rightarrow> nat \<Rightarrow> bool" where
  "is_char_boundary s i \<longleftrightarrow>
     (case drop i s of [] \<Rightarrow> i = length s | c # _ \<Rightarrow> \<not> (0x80 \<le> (of_char c :: nat) \<and> (of_char c :: nat) < 0xC0))"

definition strip_encrypted_suffix :: "string \<Rightarrow> string option" where
  "strip_encrypted_suffix v =
     (if length v \<le> length ''.encrypted'' then None
      else
        let split = length v - length ''.encrypted''
        in if \<not> is_char_boundary v split then None
           else if eq_ignore_ascii_case (drop split v) ''.encrypted'' then Some (take split v) else None)"

definition classify_name :: "string \<Rightarrow> ciphertext_kind" where
  "classify_name name =
     (if eq_ignore_ascii_case name ''.hybridcipher_dir.encrypted'' then CkFolderRecord
      else if strip_encrypted_suffix name \<noteq> None then CkFile
      else CkNotEncrypted)"

definition classify_relative :: "string \<Rightarrow> ciphertext_kind" where
  "classify_relative relative_path =
     classify_name (rev (takeWhile (\<lambda>c. c \<noteq> CHR ''/'' \<and> c \<noteq> CHR 0x5C) (rev relative_path)))"

subsection \<open>What the libraries promise\<close>

text \<open>
  JSON text of an object, whose keys are distinct, is a single line that begins with a brace and parses to an
  object with the same members, also when a new line follows; the text forms of bytes, times and identifiers and the derived
  conversions can be read back, and none of the structures is written as null.
\<close>

definition header_documented :: "header_env \<Rightarrow> bool" where
  "header_documented hv \<longleftrightarrow>
     (\<forall>kvs b. distinct (map fst kvs) \<longrightarrow> hv_json hv (JObject kvs) = Ok b \<longrightarrow> 10 \<notin> set b \<and> take 1 b = as_bytes ''{'' \<and>
        (\<exists>kvs'. hv_parse hv (b @ [10]) = Some (JObject kvs') \<and> map_of kvs' = map_of kvs)) \<and>
     base64_documented (hv_prims hv) \<and>
     (\<forall>t. hv_parse_rfc3339 hv (hv_rfc3339 hv t) = Some t) \<and>
     (\<forall>g. length g = 16 \<longrightarrow> hv_parse_uuid hv (hv_uuid hv g) = Some g) \<and>
     (\<forall>m. hv_parse_sparse hv (hv_sparse_value hv m) = Some m \<and> hv_sparse_value hv m \<noteq> JNull) \<and>
     (\<forall>m. hv_parse_platform hv (hv_platform_value hv m) = Some m) \<and> hv_parse_platform hv JNull = None"

subsection \<open>Library\<close>

lemma digit_in: "d < 10 \<Longrightarrow> digit d \<in> set ''0123456789''"
proof -
  have "\<forall>d \<in> set [0..<10]. digit d \<in> set ''0123456789''" by code_simp
  then show "d < 10 \<Longrightarrow> digit d \<in> set ''0123456789''" by simp
qed

lemma dec_nat_nonempty: "dec_nat n \<noteq> []"
  by (subst dec_nat.simps) simp

lemma json_u64_nat [simp]: "n < 2 ^ 64 \<Longrightarrow> json_u64 (json_nat n) = Some n"
proof -
  assume "n < 2 ^ 64"
  moreover have "list_all (\<lambda>c. c \<in> set ''0123456789'') (dec_nat n)"
    unfolding list_all_iff using dec_nat_digits digit_in by blast
  ultimately show ?thesis
    unfolding json_u64.simps undec_dec_nat using dec_nat_nonempty by simp
qed

lemma read_line_append: "10 \<notin> set b \<Longrightarrow> read_line (b @ 10 # r) = b @ [10]"
  by (induction b) auto

lemma decode_header_bytes_base64 [simp]:
  "base64_documented (hv_prims hv) \<Longrightarrow> decode_header_bytes hv (Some (JString (pr_b64_encode (hv_prims hv) b))) = Some b"
  by (simp add: decode_header_bytes_def base64_documented_def)

lemma parse_header_cong:
  assumes "\<And>k. json_get v k = json_get w k"
  shows "parse_header_metadata hv now v n = parse_header_metadata hv now w n" "classify_header hv now v n = classify_header hv now w n"
proof -
  have "json_get v = json_get w" by (rule ext) (rule assms)
  then show "parse_header_metadata hv now v n = parse_header_metadata hv now w n" "classify_header hv now v n = classify_header hv now w n"
    by (simp_all only: parse_header_metadata_def classify_header_def json_field_def)
qed

text \<open>The members of a written header.\<close>

lemma header_value_get:
  "json_get (header_value hv h) ''file_id'' = Some (JString (sh_file_id h))"
  "json_get (header_value hv h) ''epoch_id'' = Some (json_nat (unat (sh_epoch_id h)))"
  "json_get (header_value hv h) ''header_version'' = Some (json_nat (unat (sh_header_version h)))"
  "json_get (header_value hv h) ''group_id'' = Some (json_or_null (\<lambda>g. JString (hv_uuid hv g)) (sh_group_id h))"
  "json_get (header_value hv h) ''wrapped_file_key'' = Some (JString (pr_b64_encode (hv_prims hv) (sh_wrapped_file_key h)))"
  "json_get (header_value hv h) ''key_wrap_nonce'' = Some (JString (pr_b64_encode (hv_prims hv) (sh_key_wrap_nonce h)))"
  "json_get (header_value hv h) ''key_wrap_aad_hash'' = Some (JString (pr_b64_encode (hv_prims hv) (sh_key_wrap_aad_hash h)))"
  "json_get (header_value hv h) ''content_nonce'' = Some (JString (pr_b64_encode (hv_prims hv) (sh_content_nonce h)))"
  "json_get (header_value hv h) ''encrypted_at'' = Some (JString (hv_rfc3339 hv (sh_encrypted_at h)))"
  "json_get (header_value hv h) ''file_size'' = Some (json_nat (sh_original_size h))"
  "json_get (header_value hv h) ''chunk_size'' = Some (json_or_null json_nat (sh_content_chunk_size h))"
  "json_get (header_value hv h) ''platform_metadata'' = Some (json_or_null (hv_platform_value hv) (sh_platform_metadata h))"
  "json_get (header_value hv h) ''sparse_metadata'' = Some (json_or_null (hv_sparse_value hv) (sh_sparse_metadata h))"
  "json_get (header_value hv h) ''file_path'' = Some (JString (sh_file_path h))"
  by (simp_all add: header_value_def Let_def)

lemma json_get_header_value: "\<exists>kvs. header_value hv h = JObject kvs \<and> distinct (map fst kvs)"
  by (simp add: header_value_def Let_def)

text \<open>Reading a header stops at the separator line and leaves the ciphertext.\<close>

lemma read_serialized_header:
  assumes "10 \<notin> set b" and "take 1 b = as_bytes ''{''" and "length b < MAX_ENCRYPTED_HEADER_BYTES"
  shows "read_encrypted_header (\<lambda>_. True) [] (b @ [10] @ SEPARATOR_LINE @ [10] @ ct) = Ok (b @ [10], ct)"
proof -
  let ?rest = "SEPARATOR_LINE @ [10] @ ct" and ?M = "MAX_ENCRYPTED_HEADER_BYTES"
  have sep: "length SEPARATOR_LINE = 20" "10 \<notin> set SEPARATOR_LINE" "take 1 SEPARATOR_LINE = as_bytes ''-''"
    by (simp_all add: SEPARATOR_LINE_def as_bytes_def of_char_def)
  have line: "read_line (take (length x + Suc k) (x @ [10] @ y)) = x @ [10]" if "10 \<notin> set x" for x y k
    using that by (simp add: read_line_append)
  have "take 1 (b @ [10]) = as_bytes ''{''" using assms(2) by (cases b) (auto simp: as_bytes_def)
  moreover have "as_bytes ''{'' \<noteq> as_bytes ''-''" by (simp add: as_bytes_inj)
  ultimately have differ: "b @ [10] \<noteq> SEPARATOR_LINE @ [10]" "b @ [10] \<noteq> SEPARATOR_LINE"
    using assms(2) sep(3) by (metis append_same_eq)+
  obtain k where k: "?M + length (SEPARATOR_LINE @ [10]) = length b + Suc k"
    using assms(3) less_imp_Suc_add [of "length b" "?M + length (SEPARATOR_LINE @ [10])"] by auto
  have "read_encrypted_header (\<lambda>_. True) [] (b @ [10] @ ?rest) = read_encrypted_header (\<lambda>_. True) (b @ [10]) ?rest"
    by (subst read_encrypted_header.simps) (use line [OF assms(1), of k ?rest] k differ assms(3) in \<open>simp add: Let_def\<close>)
  also have "\<dots> = Ok (b @ [10], ct)"
    by (subst read_encrypted_header.simps)
      (use assms(3) in \<open>simp add: Let_def sep(1) read_line_append [OF sep(2)]\<close>)
  finally show ?thesis .
qed

subsection \<open>Well-formed headers\<close>

text \<open>
  The headers that the clients write: numbers fit, UUIDs have sixteen bytes, the path is not blank, and
  optional structures are left out rather than written empty.
\<close>

definition wf_header :: "serialized_header \<Rightarrow> bool" where
  "wf_header h \<longleftrightarrow>
     sh_original_size h < 2 ^ 64 \<and> trim (sh_file_path h) \<noteq> [] \<and>
     (case sh_content_chunk_size h of None \<Rightarrow> True | Some c \<Rightarrow> c < 2 ^ 64) \<and>
     (case sh_group_id h of None \<Rightarrow> True | Some g \<Rightarrow> length g = 16) \<and>
     (case sh_platform_metadata h of None \<Rightarrow> True | Some m \<Rightarrow> \<not> platform_is_empty m) \<and>
     (case sh_sparse_metadata h of None \<Rightarrow> True | Some m \<Rightarrow> is_effectively_sparse m)"

text \<open>The ciphertext length that the sizes of a header call for, if they are consistent.\<close>

definition announced_size :: "serialized_header \<Rightarrow> nat option" where
  "announced_size h = do {
     packed \<leftarrow> (case sh_sparse_metadata h of
         None \<Rightarrow> Some (sh_original_size h)
       | Some layout \<Rightarrow> validated_packed_size layout (sh_original_size h));
     (case sh_content_chunk_size h of
        None \<Rightarrow> checked_add packed 28
      | Some c \<Rightarrow> (case chunked_encrypted_size packed c of Ok n \<Rightarrow> Some n | Err _ \<Rightarrow> None))
   }"

definition metadata_of_header :: "serialized_header \<Rightarrow> nat \<Rightarrow> parsed_file_metadata" where
  "metadata_of_header h n =
     \<lparr>ly_content_size = sh_original_size h, ly_encrypted_size = n, ly_content_chunk_size = sh_content_chunk_size h,
      ly_content_nonce = Some (sh_content_nonce h), ly_sparse_metadata = sh_sparse_metadata h, ef_file_id = sh_file_id h,
      ef_file_path = normalize_file_identifier (sh_file_path h), ef_header_version = Some (sh_header_version h),
      ef_group_id = sh_group_id h, ef_epoch_id = sh_epoch_id h, ef_wrapped_file_key = Some (sh_wrapped_file_key h),
      ef_key_wrap_nonce = Some (sh_key_wrap_nonce h), ef_key_wrap_aad_hash = Some (sh_key_wrap_aad_hash h),
      ef_created_at = sh_encrypted_at h, ef_encrypted_content = [], ef_platform_metadata = sh_platform_metadata h\<rparr>"

lemma json_field_value:
  "json_field (header_value hv h) ''chunk_size'' = map_option json_nat (sh_content_chunk_size h)"
  "header_documented hv \<Longrightarrow> json_field (header_value hv h) ''sparse_metadata'' = map_option (hv_sparse_value hv) (sh_sparse_metadata h)"
proof -
  show "json_field (header_value hv h) ''chunk_size'' = map_option json_nat (sh_content_chunk_size h)"
    by (simp add: json_field_def header_value_get split: option.splits)
  assume "header_documented hv"
  then have "hv_sparse_value hv m \<noteq> JNull" for m by (simp add: header_documented_def)
  then show "json_field (header_value hv h) ''sparse_metadata'' = map_option (hv_sparse_value hv) (sh_sparse_metadata h)"
    by (auto simp: json_field_def header_value_get split: option.splits json.splits)
qed

lemma header_value_fields:
  assumes doc: "header_documented hv" and wf: "wf_header h"
  shows "Option.bind (Option.bind (json_get (header_value hv h) ''group_id'') json_str) (hv_parse_uuid hv) = sh_group_id h"
    and "Option.bind (Option.bind (json_get (header_value hv h) ''encrypted_at'') json_str) (hv_parse_rfc3339 hv) = Some (sh_encrypted_at h)"
    and "Option.bind (json_get (header_value hv h) ''epoch_id'') json_u64 = Some (unat (sh_epoch_id h))"
    and "Option.bind (json_get (header_value hv h) ''file_size'') json_u64 = Some (sh_original_size h)"
    and "(case Option.bind (json_get (header_value hv h) ''platform_metadata'') (hv_parse_platform hv) of
        Some m \<Rightarrow> if platform_is_empty m then None else Some m | None \<Rightarrow> None) = sh_platform_metadata h"
    and "(case json_get (header_value hv h) ''header_version'' of None \<Rightarrow> Some 1
      | Some value \<Rightarrow> Option.bind (json_u64 value) (\<lambda>n. if n < 2 ^ 32 then Some n else None)) = Some (unat (sh_header_version h))"
proof -
  have uuid: "hv_parse_uuid hv (hv_uuid hv g) = Some g" if "sh_group_id h = Some g" for g
    using doc wf that by (simp add: header_documented_def wf_header_def)
  then show "Option.bind (Option.bind (json_get (header_value hv h) ''group_id'') json_str) (hv_parse_uuid hv) = sh_group_id h"
    by (cases "sh_group_id h") (simp_all add: header_value_get)
  show "Option.bind (Option.bind (json_get (header_value hv h) ''encrypted_at'') json_str) (hv_parse_rfc3339 hv) = Some (sh_encrypted_at h)"
    using doc by (simp add: header_value_get header_documented_def)
  have "unat (sh_epoch_id h) < 2 ^ 64" using unsigned_less [of "sh_epoch_id h", where 'a = nat] by simp
  from json_u64_nat [OF this] show "Option.bind (json_get (header_value hv h) ''epoch_id'') json_u64 = Some (unat (sh_epoch_id h))"
    by (simp only: header_value_get Option.bind.simps)
  have "sh_original_size h < 2 ^ 64" using wf by (simp add: wf_header_def)
  from json_u64_nat [OF this] show "Option.bind (json_get (header_value hv h) ''file_size'') json_u64 = Some (sh_original_size h)"
    by (simp only: header_value_get Option.bind.simps)
  have "hv_parse_platform hv (hv_platform_value hv m) = Some m \<and> \<not> platform_is_empty m" if "sh_platform_metadata h = Some m" for m
    using doc wf that by (simp add: header_documented_def wf_header_def)
  moreover have "hv_parse_platform hv JNull = None" using doc by (simp add: header_documented_def)
  ultimately show "(case Option.bind (json_get (header_value hv h) ''platform_metadata'') (hv_parse_platform hv) of
        Some m \<Rightarrow> if platform_is_empty m then None else Some m | None \<Rightarrow> None) = sh_platform_metadata h"
    by (cases "sh_platform_metadata h") (simp_all add: header_value_get)
  have v: "unat (sh_header_version h) < 2 ^ 32" using unsigned_less [of "sh_header_version h", where 'a = nat] by simp
  then have "unat (sh_header_version h) < 2 ^ 64" by simp
  from json_u64_nat [OF this] v show "(case json_get (header_value hv h) ''header_version'' of None \<Rightarrow> Some 1
      | Some value \<Rightarrow> Option.bind (json_u64 value) (\<lambda>n. if n < 2 ^ 32 then Some n else None)) = Some (unat (sh_header_version h))"
    by (simp only: header_value_get option.case Option.bind.simps if_True)
qed

lemma parse_written_header:
  assumes doc: "header_documented hv" and wf: "wf_header h"
  shows "parse_header_metadata hv now (header_value hv h) n =
     (if announced_size h = Some n then Some (metadata_of_header h n) else None)"
proof -
  let ?sp = "case sh_sparse_metadata h of None \<Rightarrow> Some (sh_original_size h) | Some layout \<Rightarrow> validated_packed_size layout (sh_original_size h)"
  note F = header_value_fields [OF assms] json_field_value(1) json_field_value(2) [OF doc]
  have b64: "base64_documented (hv_prims hv)" using doc by (simp add: header_documented_def)
  have chunk: "(case map_option json_nat (sh_content_chunk_size h) of None \<Rightarrow> Some None | Some value \<Rightarrow> map_option Some (json_u64 value)) =
      Some (sh_content_chunk_size h)"
    using wf by (cases "sh_content_chunk_size h") (simp_all add: wf_header_def del: json_u64.simps)
  have parse: "hv_parse_sparse hv (hv_sparse_value hv m) = Some m" for m using doc by (simp add: header_documented_def)
  then have sparse: "(case map_option (hv_sparse_value hv) (sh_sparse_metadata h) of None \<Rightarrow> Some None
      | Some value \<Rightarrow> map_option Some (hv_parse_sparse hv value)) = Some (sh_sparse_metadata h)"
    by (cases "sh_sparse_metadata h") simp_all
  have filter: "(case sh_sparse_metadata h of Some layout \<Rightarrow> if is_effectively_sparse layout then Some layout else None | None \<Rightarrow> None) =
      sh_sparse_metadata h"
    using wf by (cases "sh_sparse_metadata h") (simp_all add: wf_header_def)
  have path: "Option.bind (Option.bind (json_get (header_value hv h) ''file_path'') json_str) (\<lambda>p. if trim p = [] then None else Some p) =
      Some (sh_file_path h)"
    using wf by (simp add: header_value_get wf_header_def)
  have check_chunk: "check (\<not> (c = 0 \<or> MAX_CONTENT_CHUNK_SIZE < c) \<and> chunked_encrypted_size p c = Ok n) =
      (if (case chunked_encrypted_size p c of Ok k \<Rightarrow> Some k | Err _ \<Rightarrow> None) = Some n then Some () else None)" for c p
    using chunked_encrypted_size_Ok_iff [of p c n] by (auto simp: check_def split: result.splits)
  have check_plain: "Option.bind (checked_add p (12 + AEAD_TAG_SIZE)) (\<lambda>k. check (n = k)) =
      (if checked_add p 28 = Some n then Some () else None)" for p
    by (auto simp: check_def checked_add_def)
  have size: "(case sh_content_chunk_size h of
        Some c \<Rightarrow> check (\<not> (c = 0 \<or> MAX_CONTENT_CHUNK_SIZE < c) \<and> chunked_encrypted_size p c = Ok n)
      | None \<Rightarrow> if Some (sh_original_size h) \<noteq> None then Option.bind (checked_add p (12 + AEAD_TAG_SIZE)) (\<lambda>k. check (n = k)) else Some ()) =
      (if (case sh_content_chunk_size h of
        None \<Rightarrow> checked_add p 28
      | Some c \<Rightarrow> (case chunked_encrypted_size p c of Ok k \<Rightarrow> Some k | Err _ \<Rightarrow> None)) = Some n then Some () else None)" for p
    unfolding check_chunk check_plain by (cases "sh_content_chunk_size h") simp_all
  let ?r = "(if announced_size h = Some n then Some (metadata_of_header h n) else None)"
  have "parse_header_metadata hv now (header_value hv h) n =
      Option.bind (case sh_sparse_metadata h of None \<Rightarrow> Some 0 | Some l \<Rightarrow> validated_packed_size l (sh_original_size h)) (\<lambda>_.
      Option.bind (case sh_sparse_metadata h of None \<Rightarrow> Some (sh_original_size h) | Some l \<Rightarrow> validated_packed_size l (sh_original_size h)) (\<lambda>p.
      Option.bind (if (case sh_content_chunk_size h of None \<Rightarrow> checked_add p 28
        | Some c \<Rightarrow> (case chunked_encrypted_size p c of Ok k \<Rightarrow> Some k | Err _ \<Rightarrow> None)) = Some n then Some () else None) (\<lambda>_.
      Some (metadata_of_header h n))))"
    unfolding parse_header_metadata_def F chunk sparse Let_def Option.bind.simps filter path
    by (simp only: header_value_get Option.bind.simps json_str.simps decode_header_bytes_base64 [OF b64] option.case size)
      (cases "sh_sparse_metadata h"; simp add: metadata_of_header_def check_def)
  also have "\<dots> = ?r"
  proof (cases "case sh_sparse_metadata h of None \<Rightarrow> Some (sh_original_size h) | Some l \<Rightarrow> validated_packed_size l (sh_original_size h)")
    case None
    then show ?thesis by (cases "sh_sparse_metadata h") (simp_all add: announced_size_def)
  next
    case (Some p)
    then show ?thesis by (cases "sh_sparse_metadata h") (simp_all add: announced_size_def)
  qed
  finally show ?thesis .
qed

lemma read_written_header:
  assumes doc: "header_documented hv" and ser: "serialize_encrypted_header hv h = Ok bytes"
    and short: "length bytes \<le> MAX_ENCRYPTED_HEADER_BYTES"
  shows "\<exists>header. read_encrypted_header (\<lambda>_. True) [] (bytes @ ciphertext) = Ok (header, ciphertext)"
proof -
  obtain kvs where kvs: "header_value hv h = JObject kvs" "distinct (map fst kvs)" using json_get_header_value by blast
  from ser obtain b where b: "hv_json hv (JObject kvs) = Ok b" and bytes: "bytes = b @ [10] @ SEPARATOR_LINE @ [10]"
    by (auto simp: serialize_encrypted_header_def kvs(1) result_simps)
  with doc kvs(2) have "10 \<notin> set b" "take 1 b = as_bytes ''{''"
    unfolding header_documented_def by blast+
  moreover have "length b < MAX_ENCRYPTED_HEADER_BYTES" using short by (simp add: bytes)
  ultimately show ?thesis using read_serialized_header [of b ciphertext] by (simp add: bytes)
qed

lemma inspect_written_file:
  assumes doc: "header_documented hv" and ser: "serialize_encrypted_header hv h = Ok bytes"
    and short: "length bytes \<le> MAX_ENCRYPTED_HEADER_BYTES"
  shows "inspect_bytes hv (\<lambda>_. True) now (bytes @ ciphertext) = classify_header hv now (header_value hv h) (length ciphertext)"
proof -
  obtain kvs where kvs: "header_value hv h = JObject kvs" and keys: "distinct (map fst kvs)" using json_get_header_value by blast
  from ser obtain b where b: "hv_json hv (JObject kvs) = Ok b" and bytes: "bytes = b @ [10] @ SEPARATOR_LINE @ [10]"
    by (auto simp: serialize_encrypted_header_def kvs result_simps)
  with doc keys obtain kvs' where nl: "10 \<notin> set b" and brace: "take 1 b = as_bytes ''{''"
    and parse: "hv_parse hv (b @ [10]) = Some (JObject kvs')" "map_of kvs' = map_of kvs"
    unfolding header_documented_def by blast
  have len: "length b < MAX_ENCRYPTED_HEADER_BYTES" using short by (simp add: bytes)
  have "read_header hv (\<lambda>_. True) (bytes @ ciphertext) = Some (JObject kvs', ciphertext)"
    using read_serialized_header [OF nl brace len, of ciphertext] parse(1) by (simp add: read_header_def bytes)
  moreover have "take 1 (bytes @ ciphertext) = as_bytes ''{''"
    using brace by (cases b) (auto simp: bytes as_bytes_def)
  moreover have "json_get (JObject kvs') k = json_get (header_value hv h) k" for k
    by (simp add: kvs parse(2))
  ultimately show ?thesis
    by (simp add: inspect_bytes_def parse_header_cong(2) [of "JObject kvs'" "header_value hv h"])
qed

subsection \<open>A concrete environment\<close>

text \<open>Encodings that satisfy the laws, with a serializer that knows one header.\<close>

fun sparse_of_json :: "json \<Rightarrow> sparse_metadata option" where
  "sparse_of_json (JArray [JNumber l, JArray es]) =
     map_option (\<lambda>xs. \<lparr>sm_logical_size = undec l, sm_extents = xs\<rparr>)
       (those (map (\<lambda>e. case e of JArray [JNumber a, JNumber b] \<Rightarrow> Some \<lparr>sp_offset = undec a, sp_length = undec b\<rparr> | _ \<Rightarrow> None) es))"
| "sparse_of_json _ = None"

definition json_of_sparse :: "sparse_metadata \<Rightarrow> json" where
  "json_of_sparse m = JArray [json_nat (sm_logical_size m),
     JArray (map (\<lambda>e. JArray [json_nat (sp_offset e), json_nat (sp_length e)]) (sm_extents m))]"

fun platform_of_json :: "json \<Rightarrow> platform_file_metadata option" where
  "platform_of_json (JArray [mode, mac]) = Some
     \<lparr>pf_unix_mode = (case mode of JNumber n \<Rightarrow> Some (of_nat (undec n)) | _ \<Rightarrow> None),
      pf_macos = (case mac of JArray [JArray xs, acl] \<Rightarrow>
        Some \<lparr>mf_xattrs = map (\<lambda>x. case x of JArray [JString a, JString b] \<Rightarrow> \<lparr>px_name = a, px_value_base64 = b\<rparr> | _ \<Rightarrow> \<lparr>px_name = [], px_value_base64 = []\<rparr>) xs,
              mf_acl_text = json_str acl\<rparr> | _ \<Rightarrow> None)\<rparr>"
| "platform_of_json _ = None"

definition json_of_platform :: "platform_file_metadata \<Rightarrow> json" where
  "json_of_platform m = JArray [json_or_null (\<lambda>w. json_nat (unat w)) (pf_unix_mode m),
     json_or_null (\<lambda>x. JArray [JArray (map (\<lambda>a. JArray [JString (px_name a), JString (px_value_base64 a)]) (mf_xattrs x)),
       json_or_null JString (mf_acl_text x)]) (pf_macos m)]"

definition sample_encodings :: header_env where
  "sample_encodings =
     \<lparr>hv_prims = sample_prims, hv_json = (\<lambda>_. Err ''unknown value''), hv_parse = (\<lambda>_. None),
      hv_rfc3339 = (\<lambda>t. (if t < 0 then ''-'' else ''+'') @ dec_nat (nat \<bar>t\<bar>)),
      hv_parse_rfc3339 = (\<lambda>s. Some ((if take 1 s = ''-'' then - 1 else 1) * int (undec (drop 1 s)))),
      hv_uuid = pr_b64_encode sample_prims,
      hv_parse_uuid = (\<lambda>s. case pr_b64_decode sample_prims s of Ok b \<Rightarrow> Some b | Err _ \<Rightarrow> None),
      hv_sparse_value = json_of_sparse, hv_parse_sparse = sparse_of_json,
      hv_platform_value = json_of_platform, hv_parse_platform = platform_of_json\<rparr>"

definition sample_header :: serialized_header where
  "sample_header =
     \<lparr>sh_file_id = ''f'', sh_file_path = ''a'', sh_group_id = None, sh_epoch_id = 7, sh_header_version = 3,
      sh_wrapped_file_key = [1], sh_key_wrap_nonce = [2], sh_key_wrap_aad_hash = [3], sh_content_nonce = [4],
      sh_content_chunk_size = None, sh_original_size = 2, sh_encrypted_size = 30, sh_encrypted_at = 0,
      sh_original_name = None, sh_platform_metadata = None, sh_sparse_metadata = None\<rparr>"

text \<open>An environment that writes and reads one header.\<close>

definition header_env_for :: "serialized_header \<Rightarrow> header_env" where
  "header_env_for h = sample_encodings\<lparr>
     hv_json := (\<lambda>v. if v = header_value sample_encodings h then Ok (as_bytes ''{}'') else Err ''unknown value''),
     hv_parse := (\<lambda>b. if b = as_bytes ''{}'' @ [10] then Some (header_value sample_encodings h) else None)\<rparr>"

abbreviation sample_header_env :: header_env where
  "sample_header_env \<equiv> header_env_for sample_header"

lemma sparse_of_json_of_sparse: "sparse_of_json (json_of_sparse m) = Some m"
proof -
  have "those (map (\<lambda>e. Some e) xs) = Some xs" for xs :: "sparse_extent list" by (induction xs) simp_all
  moreover have x: "\<lparr>sp_offset = sp_offset x, sp_length = sp_length x\<rparr> = x" for x by (cases x) simp
  ultimately show ?thesis by (cases m) (simp add: json_of_sparse_def undec_dec_nat comp_def x)
qed

lemma platform_of_json_of_platform: "platform_of_json (json_of_platform m) = Some m"
proof -
  have x: "\<lparr>px_name = px_name a, px_value_base64 = px_value_base64 a\<rparr> = a" for a by (cases a) simp
  have "\<lparr>mf_xattrs = mf_xattrs y, mf_acl_text = json_str (json_or_null JString (mf_acl_text y))\<rparr> = y" for y
    by (cases y) (simp split: option.splits)
  then show ?thesis by (cases m) (simp add: json_of_platform_def undec_dec_nat comp_def x split: option.splits)
qed

lemma header_env_for_documented: "header_documented (header_env_for h)"
proof -
  have "hv_parse_rfc3339 (header_env_for h) (hv_rfc3339 (header_env_for h) t) = Some t" for t
    by (simp add: header_env_for_def sample_encodings_def undec_dec_nat)
  moreover have "hv_parse_uuid (header_env_for h) (hv_uuid (header_env_for h) g) = Some g" for g
    using sample_base64 by (simp add: header_env_for_def sample_encodings_def base64_documented_def)
  moreover obtain kvs where "header_value sample_encodings h = JObject kvs" using json_get_header_value by blast
  ultimately show ?thesis
    using sample_base64 sparse_of_json_of_sparse platform_of_json_of_platform
    unfolding header_documented_def
    by (intro conjI allI impI) (auto simp: header_env_for_def sample_encodings_def json_of_sparse_def as_bytes_def of_char_def split: if_splits)
qed

lemma header_env_for_written: "serialize_encrypted_header (header_env_for h) h = Ok (as_bytes ''{}'' @ [10] @ SEPARATOR_LINE @ [10])"
proof -
  have "hv_prims (header_env_for h) = hv_prims sample_encodings" "hv_uuid (header_env_for h) = hv_uuid sample_encodings"
    "hv_rfc3339 (header_env_for h) = hv_rfc3339 sample_encodings" "hv_platform_value (header_env_for h) = hv_platform_value sample_encodings"
    "hv_sparse_value (header_env_for h) = hv_sparse_value sample_encodings"
    by (simp_all add: header_env_for_def)
  then have "header_value (header_env_for h) h = header_value sample_encodings h" by (simp only: header_value_def)
  then show ?thesis by (simp add: serialize_encrypted_header_def header_env_for_def)
qed

lemma sample_wf: "wf_header sample_header"
proof -
  have "trim ''a'' = ''a''" by code_simp
  then show ?thesis by (simp add: wf_header_def sample_header_def)
qed

lemma sample_short: "length (as_bytes ''{}'' @ [10] @ SEPARATOR_LINE @ [10]) \<le> MAX_ENCRYPTED_HEADER_BYTES"
  by (simp add: as_bytes_def SEPARATOR_LINE_def)

subsection \<open>Files that were written\<close>

text \<open>
  C11. A written file is recognized: inspecting a well-formed header of at most 16 MiB followed by a ciphertext of
  the announced size gives back every field that readers use, with the path normalized once more, and with a ciphertext of any other length the file is reported as
  damaged with the identity of the header, never as plaintext.
\<close>

theorem written_file_recognized:
  assumes doc: "header_documented hv" and wf: "wf_header h" and ser: "serialize_encrypted_header hv h = Ok bytes"
    and short: "length bytes \<le> MAX_ENCRYPTED_HEADER_BYTES"
  shows "inspect_bytes hv (\<lambda>_. True) now (bytes @ ciphertext) =
     (if announced_size h = Some (length ciphertext) then Ciphertext (metadata_of_header h (length ciphertext))
      else Damaged \<lparr>hi_file_id = sh_file_id h, hi_epoch_id = sh_epoch_id h, hi_group_id = sh_group_id h\<rparr>)"
  using inspect_written_file [OF doc ser short, of now ciphertext]
  unfolding classify_header_def parse_written_header [OF doc wf] header_value_fields [OF doc wf]
  by (simp add: header_value_get)

theorem written_file_recognized_witness:
  "let bytes = as_bytes ''{}'' @ [10] @ SEPARATOR_LINE @ [10] in
   inspect_bytes sample_header_env (\<lambda>_. True) 5 (bytes @ replicate 30 0) = Ciphertext (metadata_of_header sample_header 30) \<and>
   inspect_bytes sample_header_env (\<lambda>_. True) 5 (bytes @ replicate 29 0) = Damaged \<lparr>hi_file_id = ''f'', hi_epoch_id = 7, hi_group_id = None\<rparr>"
proof -
  have "announced_size sample_header = Some 30" by (simp add: announced_size_def sample_header_def)
  then show ?thesis
    using written_file_recognized [OF header_env_for_documented sample_wf header_env_for_written sample_short, of 5 "replicate 30 0"]
      written_file_recognized [OF header_env_for_documented sample_wf header_env_for_written sample_short, of 5 "replicate 29 0"]
    by (simp add: sample_header_def del: append.simps)
qed

subsection \<open>What a recognized file looks like\<close>

text \<open>The typing of parsed metadata: every field of the envelope is there, and the sizes agree.\<close>

definition well_typed_metadata :: "parsed_file_metadata \<Rightarrow> bool" where
  "well_typed_metadata m \<longleftrightarrow>
     ef_header_version m \<noteq> None \<and> ef_wrapped_file_key m \<noteq> None \<and> ef_key_wrap_nonce m \<noteq> None \<and>
     ef_key_wrap_aad_hash m \<noteq> None \<and> ly_content_nonce m \<noteq> None \<and> ly_content_size m < 2 ^ 64 \<and>
     (case ef_platform_metadata m of None \<Rightarrow> True | Some p \<Rightarrow> \<not> platform_is_empty p) \<and>
     (case ly_sparse_metadata m of None \<Rightarrow> True | Some layout \<Rightarrow> is_effectively_sparse layout) \<and>
     (\<exists>packed \<le> ly_content_size m.
        (case ly_sparse_metadata m of
           None \<Rightarrow> packed = ly_content_size m
         | Some layout \<Rightarrow> validated_packed_size layout (ly_content_size m) = Some packed) \<and>
        (case ly_content_chunk_size m of
           Some c \<Rightarrow> 0 < c \<and> c \<le> MAX_CONTENT_CHUNK_SIZE \<and> chunked_encrypted_size packed c = Ok (ly_encrypted_size m)
         | None \<Rightarrow> 3 \<le> the (ef_header_version m) \<or> 0 < ly_content_size m \<longrightarrow> ly_encrypted_size m = packed + 28))"

lemma json_u64_bound: "json_u64 v = Some n \<Longrightarrow> n < 18446744073709551616"
  by (cases v rule: json_u64.cases) (auto split: if_splits)

lemma read_line_take: "read_line (take n xs) @ drop (length (read_line (take n xs))) xs = xs"
  by (induction xs arbitrary: n) (simp_all add: take_Cons split: nat.split)

lemma read_encrypted_header_step:
  fixes header reader :: bytes
  defines "remaining \<equiv> MAX_ENCRYPTED_HEADER_BYTES - length header"
  defines "line \<equiv> read_line (take (remaining + length (SEPARATOR_LINE @ [10])) reader)"
  assumes "read_encrypted_header try_reserve header reader = Ok (h, rest)"
  shows "\<not> MAX_ENCRYPTED_HEADER_BYTES < length header \<and> line \<noteq> [] \<and>
     (if line = SEPARATOR_LINE @ [10] \<or> line = SEPARATOR_LINE then h = header \<and> rest = drop (length line) reader
      else \<not> remaining < length line \<and> try_reserve (length line) \<and>
        read_encrypted_header try_reserve (header @ line) (drop (length line) reader) = Ok (h, rest))"
  using assms(3) unfolding read_encrypted_header.simps [of try_reserve header reader] Let_def remaining_def [symmetric] line_def [symmetric]
  by (cases "line = SEPARATOR_LINE @ [10] \<or> line = SEPARATOR_LINE") (auto split: if_splits)

text \<open>A header that is read is a bounded prefix of the input.\<close>

lemma read_encrypted_header_prefix:
  "read_encrypted_header try_reserve header reader = Ok (h, rest) \<Longrightarrow>
   length h \<le> MAX_ENCRYPTED_HEADER_BYTES \<and>
   (\<exists>body sep. h = header @ body \<and> reader = body @ sep @ rest \<and> sep \<in> {SEPARATOR_LINE, SEPARATOR_LINE @ [10]})"
proof (induction try_reserve header reader rule: read_encrypted_header.induct)
  case (1 try_reserve header reader)
  let ?remaining = "MAX_ENCRYPTED_HEADER_BYTES - length header"
  let ?line = "read_line (take (?remaining + length (SEPARATOR_LINE @ [10])) reader)"
  let ?rest = "drop (length ?line) reader"
  have split: "reader = ?line @ ?rest" by (simp only: read_line_take)
  note step = read_encrypted_header_step [OF "1.prems"]
  show ?case
  proof (cases "?line = SEPARATOR_LINE @ [10] \<or> ?line = SEPARATOR_LINE")
    case True
    with step have "h = header" "rest = ?rest" "length header \<le> MAX_ENCRYPTED_HEADER_BYTES" by simp_all
    with True split show ?thesis by (metis append_Nil append_Nil2 insertCI)
  next
    case False
    from step [unfolded if_not_P [OF False]] have rec: "read_encrypted_header try_reserve (header @ ?line) ?rest = Ok (h, rest)"
      and c: "\<not> MAX_ENCRYPTED_HEADER_BYTES < length header" "?line \<noteq> []" "\<not> ?remaining < length ?line" "\<not> \<not> try_reserve (length ?line)"
      by blast+
    from "1.IH" [OF c(1) refl refl refl refl c(2) False c(3,4) rec] obtain body sep where
      "length h \<le> MAX_ENCRYPTED_HEADER_BYTES" "h = (header @ ?line) @ body" "?rest = body @ sep @ rest"
      "sep \<in> {SEPARATOR_LINE, SEPARATOR_LINE @ [10]}" by blast
    then show ?thesis using split by (intro conjI exI [of _ "?line @ body"] exI [of _ sep]) (simp_all only: append_assoc)
  qed
qed


lemma validated_packed_within: "sz < 2 ^ 64 \<Longrightarrow> validated_packed_size layout sz = Some p \<Longrightarrow> p \<le> sz"
  using packed_loop_iff [of sz 0 0 "sm_extents layout" p] packed_within [of sz "sm_extents layout" 0]
  by (auto simp: validated_packed_size_def split: if_splits)

text \<open>What the parser checks of a header.\<close>

lemma parsed_metadata_well_typed:
  assumes "parse_header_metadata hv now header n = Some m"
  shows "well_typed_metadata m \<and> ly_encrypted_size m = n"
proof -
  define sf where "sf = (case Option.bind (json_get header ''file_size'') json_u64 of
         Some k \<Rightarrow> Some k
       | None \<Rightarrow> Option.bind (json_get header ''original_size'') json_u64)"
  define sz where "sz = (case sf of Some k \<Rightarrow> k | None \<Rightarrow> 0)"
  define keep where "keep ps = (case ps of Some layout \<Rightarrow> if is_effectively_sparse layout then Some layout else None | None \<Rightarrow> None)" for ps
  from assms obtain v chunk ps packed content_nonce file_id path group_id epoch_id wrapped_file_key key_wrap_nonce key_wrap_aad_hash created_at
      and u u' :: unit where
    v: "(case json_get header ''header_version'' of
         None \<Rightarrow> Some 1
       | Some value \<Rightarrow> Option.bind (json_u64 value) (\<lambda>n. if n < 2 ^ 32 then Some n else None)) = Some v"
    and sized: "check (\<not> (3 \<le> v \<and> sf = None)) = Some u"
    and packed: "(case keep ps of Some layout \<Rightarrow> validated_packed_size layout sz | None \<Rightarrow> Some sz) = Some packed"
    and agree: "(case chunk of
        Some c \<Rightarrow> check (\<not> (c = 0 \<or> MAX_CONTENT_CHUNK_SIZE < c) \<and> chunked_encrypted_size packed c = Ok n)
      | None \<Rightarrow>
          if sf \<noteq> None
          then Option.bind (checked_add packed (12 + AEAD_TAG_SIZE)) (\<lambda>k. check (n = k))
          else Some ()) = Some u'"
    and m: "Some \<lparr>ly_content_size = sz, ly_encrypted_size = n, ly_content_chunk_size = chunk,
       ly_content_nonce = Some content_nonce, ly_sparse_metadata = keep ps, ef_file_id = file_id,
       ef_file_path = normalize_file_identifier path, ef_header_version = Some (of_nat v),
       ef_group_id = group_id, ef_epoch_id = of_nat epoch_id, ef_wrapped_file_key = Some wrapped_file_key,
       ef_key_wrap_nonce = Some key_wrap_nonce, ef_key_wrap_aad_hash = Some key_wrap_aad_hash, ef_created_at = created_at,
       ef_encrypted_content = [], ef_platform_metadata = (case Option.bind (json_get header ''platform_metadata'') (hv_parse_platform hv) of
         Some m \<Rightarrow> if platform_is_empty m then None else Some m
       | None \<Rightarrow> None)\<rparr> = Some m"
    unfolding parse_header_metadata_def Let_def sf_def [symmetric] sz_def [symmetric] keep_def [symmetric]
    unfolding Option.bind_eq_Some_conv by (elim exE conjE) (rule that)
  have small: "sz < 2 ^ 64"
    by (auto simp: sz_def sf_def Option.bind_eq_Some_conv dest: json_u64_bound split: option.splits)
  have bound: "v < 2 ^ 32" using v by (auto simp: Option.bind_eq_Some_conv split: option.splits if_splits)
  then have "unat (of_nat v :: 32 word) = v" by (simp add: unat_of_nat take_bit_eq_mod)
  then have three: "3 \<le> (of_nat v :: 32 word) \<longleftrightarrow> 3 \<le> v" by (simp add: word_le_nat_alt)
  have "packed \<le> sz \<and> (case keep ps of None \<Rightarrow> packed = sz | Some l \<Rightarrow> validated_packed_size l sz = Some packed)"
    using packed validated_packed_within [OF small] by (auto split: option.splits)
  moreover have "case chunk of
         Some c \<Rightarrow> 0 < c \<and> c \<le> MAX_CONTENT_CHUNK_SIZE \<and> chunked_encrypted_size packed c = Ok n
       | None \<Rightarrow> 3 \<le> (of_nat v :: 32 word) \<or> 0 < sz \<longrightarrow> n = packed + 28"
    using agree sized unfolding three by (auto simp: sz_def check_def Option.bind_eq_Some_conv split: option.splits if_splits)
  moreover have "case keep ps of None \<Rightarrow> True | Some l \<Rightarrow> is_effectively_sparse l"
    by (simp add: keep_def split: option.splits)
  moreover have "case ef_platform_metadata m of None \<Rightarrow> True | Some p \<Rightarrow> \<not> platform_is_empty p"
    using m by (auto split: option.splits if_splits)
  moreover have "ly_content_size m = sz" "ly_encrypted_size m = n" "ly_content_chunk_size m = chunk" "ly_sparse_metadata m = keep ps"
      "ef_header_version m = Some (of_nat v)" "ly_content_nonce m \<noteq> None" "ef_wrapped_file_key m \<noteq> None"
      "ef_key_wrap_nonce m \<noteq> None" "ef_key_wrap_aad_hash m \<noteq> None"
    using m by auto
  ultimately show ?thesis unfolding well_typed_metadata_def
    by (simp only: option.sel small option.distinct not_False_eq_True simp_thms) blast
qed

text \<open>
  C22. Whatever bytes a file holds, if it is classified as a ciphertext then its metadata is well typed (the whole
  key envelope is present, the version fits, the sparse layout is valid and not trivial, and the recorded sizes
  are consistent with the chunking, or with a single record; only a header of an older version that declares no
  content size is exempt from the latter), the recorded size is that of the bytes after the separator, and the header
  takes at most sixteen megabytes and the separator line.
\<close>

theorem ciphertext_well_typed:
  assumes "inspect_bytes hv try_reserve now contents = Ciphertext m"
  shows "well_typed_metadata m \<and>
    (\<exists>header content. contents = header @ content \<and> length content = ly_encrypted_size m \<and>
       length header \<le> MAX_ENCRYPTED_HEADER_BYTES + 21)"
proof -
  from assms obtain v rest where header: "read_header hv try_reserve contents = Some (v, rest)"
    and "classify_header hv now v (length rest) = Ciphertext m"
    unfolding inspect_bytes_def by (cases "read_header hv try_reserve contents") (auto split: if_splits)
  then have parse: "parse_header_metadata hv now v (length rest) = Some m"
    unfolding classify_header_def by (cases "parse_header_metadata hv now v (length rest)") (auto split: option.splits)
  obtain h where read: "read_encrypted_header try_reserve [] contents = Ok (h, rest)"
  proof (cases "read_encrypted_header try_reserve [] contents")
    case (Ok x)
    with header that show ?thesis by (cases x) (simp add: read_header_def split: option.splits json.splits)
  qed (use header in \<open>simp add: read_header_def\<close>)
  from read_encrypted_header_prefix [OF read, unfolded append_Nil] obtain sep where h: "length h \<le> MAX_ENCRYPTED_HEADER_BYTES"
    "contents = h @ sep @ rest" "sep \<in> {SEPARATOR_LINE, SEPARATOR_LINE @ [10]}" by blast
  from h(3) have "length sep \<le> 21" by (elim insertE) (simp_all add: SEPARATOR_LINE_def as_bytes_def)
  with h(1) have "length (h @ sep) \<le> MAX_ENCRYPTED_HEADER_BYTES + 21" by simp
  moreover have "contents = (h @ sep) @ rest" using h(2) by simp
  ultimately show ?thesis using parsed_metadata_well_typed [OF parse] by (intro conjI exI [of _ "h @ sep"] exI [of _ rest]) simp_all
qed

theorem ciphertext_well_typed_witness:
  "\<exists>m. inspect_bytes sample_header_env (\<lambda>_. True) 5 ((as_bytes ''{}'' @ [10] @ SEPARATOR_LINE @ [10]) @ replicate 30 0) = Ciphertext m \<and>
     well_typed_metadata m"
proof -
  have "announced_size sample_header = Some 30" by (simp add: announced_size_def sample_header_def)
  then have "parse_header_metadata sample_header_env 5 (header_value sample_header_env sample_header) 30 = Some (metadata_of_header sample_header 30)"
    by (simp add: parse_written_header [OF header_env_for_documented sample_wf])
  then have "inspect_bytes sample_header_env (\<lambda>_. True) 5 ((as_bytes ''{}'' @ [10] @ SEPARATOR_LINE @ [10]) @ replicate 30 0) =
      Ciphertext (metadata_of_header sample_header 30)"
    using inspect_written_file [OF header_env_for_documented header_env_for_written sample_short, of sample_header 5 "replicate 30 0"] by (simp add: classify_header_def)
  then show ?thesis using ciphertext_well_typed by blast
qed

subsection \<open>Names\<close>

text \<open>
  The suffix is recognized in any case of its letters, and the name before it is recovered unchanged.
\<close>

lemma lowercase_dot: "to_ascii_lowercase c = CHR ''.'' \<longleftrightarrow> c = CHR ''.''"
proof (cases "65 \<le> (of_char c :: nat) \<and> (of_char c :: nat) \<le> 90")
  case True
  then have "(of_char (to_ascii_lowercase c) :: nat) = of_char c + 32" by (simp add: to_ascii_lowercase_def Let_def)
  then have "to_ascii_lowercase c \<noteq> CHR ''.''" using True by auto
  moreover have "c \<noteq> CHR ''.''" using True by auto
  ultimately show ?thesis by simp
next
  case False
  then show ?thesis by (auto simp: to_ascii_lowercase_def Let_def)
qed

lemma strip_encrypted_suffix_append:
  assumes "eq_ignore_ascii_case suffix ''.encrypted''" and "name \<noteq> []"
  shows "strip_encrypted_suffix (name @ suffix) = Some name"
proof -
  have len: "length suffix = length ''.encrypted''"
    using assms(1) unfolding eq_ignore_ascii_case_def by (metis length_map)
  then obtain c cs where suffix: "suffix = c # cs" by (cases suffix) auto
  have "map to_ascii_lowercase suffix = CHR ''.'' # map to_ascii_lowercase ''encrypted''"
    using assms(1) by (simp add: eq_ignore_ascii_case_def lowercase_dot)
  then have "c = CHR ''.''" by (simp add: suffix lowercase_dot)
  then have "is_char_boundary (name @ suffix) (length name)" by (simp add: is_char_boundary_def suffix)
  moreover have "length (name @ suffix) - length ''.encrypted'' = length name" using len by simp
  ultimately show ?thesis using assms len unfolding strip_encrypted_suffix_def Let_def by simp
qed

lemma classify_encrypted_name:
  "eq_ignore_ascii_case suffix ''.encrypted'' \<Longrightarrow> name \<noteq> [] \<Longrightarrow>
   classify_name (name @ suffix) =
     (if eq_ignore_ascii_case (name @ suffix) ''.hybridcipher_dir.encrypted'' then CkFolderRecord else CkFile)"
  by (simp add: classify_name_def strip_encrypted_suffix_append)

text \<open>A file that was written keeps its identity, also when its content has another length.\<close>

lemma written_file_identity:
  assumes "header_documented hv" "wf_header h" "serialize_encrypted_header hv h = Ok bytes" "length bytes \<le> MAX_ENCRYPTED_HEADER_BYTES"
  shows "identity (inspect_bytes hv (\<lambda>_. True) now (bytes @ ciphertext)) =
    Some \<lparr>hi_file_id = sh_file_id h, hi_epoch_id = sh_epoch_id h, hi_group_id = sh_group_id h\<rparr>"
  using inspect_written_file [OF assms(1,3,4), of now ciphertext]
  unfolding classify_header_def parse_written_header [OF assms(1,2)] header_value_fields [OF assms(1,2)]
  by (simp add: header_value_get metadata_of_header_def)

end
