(* ===== verification/PlaintextOutput.thy ===== *)
theory PlaintextOutput
  imports FileContent
begin

text \<open>
  Where decrypted contents go: the temporary file that is filled chunk by chunk and published at the end
  (\<open>crates/client/src/file/plaintext_output.rs\<close>), and the expansion of packed contents in memory
  (\<open>rehydrate_sparse_plaintext\<close> of \<open>crates/client/src/state/client/files.rs\<close>).

  The temporary file is the list of its bytes. The record \<open>out_ops\<close> has the calls of the operating system:
  creating a file of a given length, writing at a position, and publishing; \<open>out_documented\<close> says what they
  do when they succeed.
\<close>

subsection \<open>The output file\<close>

definition write_at :: "bytes \<Rightarrow> nat \<Rightarrow> bytes \<Rightarrow> bytes" where
  "write_at f offset b = take offset (f @ replicate (offset - length f) 0) @ b @ drop (offset + length b) f"

record out_ops =
  oo_create :: "nat \<Rightarrow> (bytes, client_error) result"
  oo_write :: "nat \<Rightarrow> bytes \<Rightarrow> bytes \<Rightarrow> (bytes, string) result"
  oo_publish :: "bytes \<Rightarrow> (bytes, string) result"

definition out_documented :: "out_ops \<Rightarrow> bool" where
  "out_documented oo \<longleftrightarrow>
     (\<forall>n f. oo_create oo n = Ok f \<longrightarrow> f = replicate n 0) \<and>
     (\<forall>offset b f f'. oo_write oo offset b f = Ok f' \<longrightarrow> f' = write_at f offset b) \<and>
     (\<forall>f f'. oo_publish oo f = Ok f' \<longrightarrow> f' = f)"

record plaintext_output =
  po_temporary :: bytes
  po_extents :: "sparse_extent list"
  po_extent :: nat
  po_extent_written :: nat
  po_remaining :: nat

definition output_error :: "string \<Rightarrow> client_error" where
  "output_error e = ClDecryptionError (''Unable to write authenticated temporary output: '' @ e)"

fun check_extents :: "nat \<Rightarrow> nat \<Rightarrow> nat \<Rightarrow> sparse_extent list \<Rightarrow> nat option" where
  "check_extents len stop remaining [] = Some remaining"
| "check_extents len stop remaining (extent # extents) =
     (if sp_offset extent < stop then None
      else case checked_add (sp_offset extent) (sp_length extent) of
             None \<Rightarrow> None
           | Some stop' \<Rightarrow>
               if len < stop' then None
               else case checked_add remaining (sp_length extent) of
                      None \<Rightarrow> None
                    | Some remaining' \<Rightarrow> check_extents len stop' remaining' extents)"

definition output_new :: "out_ops \<Rightarrow> nat \<Rightarrow> sparse_metadata option \<Rightarrow> (plaintext_output, client_error) result" where
  "output_new oo len sparse =
     (let invalid = ClFileIntegrity ''Invalid sparse layout'' in
      rbind (case sparse of
               Some layout \<Rightarrow> if sm_logical_size layout = len then Ok (sm_extents layout) else Err invalid
             | None \<Rightarrow> Ok [\<lparr>sp_offset = 0, sp_length = len\<rparr>]) (\<lambda>extents.
      rbind (ok_or invalid (check_extents len 0 0 extents)) (\<lambda>remaining.
      rbind (oo_create oo len) (\<lambda>temporary.
      Ok \<lparr>po_temporary = temporary, po_extents = extents, po_extent = 0, po_extent_written = 0, po_remaining = remaining\<rparr>))))"

function write_chunk :: "out_ops \<Rightarrow> bytes \<Rightarrow> plaintext_output \<Rightarrow> plaintext_output \<times> (unit, client_error) result" where
  "write_chunk oo bytes out =
     (if bytes = [] then (out, Ok ())
      else if length (po_extents out) \<le> po_extent out
      then (out, Err (ClFileIntegrity ''Plaintext exceeds declared layout''))
      else
        let extent = po_extents out ! po_extent out;
            available = sp_length extent - po_extent_written out
        in if available = 0
           then write_chunk oo bytes (out\<lparr>po_extent := po_extent out + 1, po_extent_written := 0\<rparr>)
           else
             let count = min available (length bytes)
             in case oo_write oo (sp_offset extent + po_extent_written out) (take count bytes) (po_temporary out) of
                  Err e \<Rightarrow> (out, Err (output_error e))
                | Ok temporary \<Rightarrow>
                    write_chunk oo (drop count bytes)
                      (out\<lparr>po_temporary := temporary, po_extent_written := po_extent_written out + count,
                           po_remaining := po_remaining out - count\<rparr>))"
  by pat_completeness auto
termination
  by (relation "measure (\<lambda>(_, bytes, out). length bytes + (length (po_extents out) - po_extent out))")
    (auto simp: min_def simp flip: length_greater_0_conv)

declare write_chunk.simps [simp del]

definition output_finish :: "out_ops \<Rightarrow> plaintext_output \<Rightarrow> (bytes, client_error) result" where
  "output_finish oo out =
     rbind (guard (po_remaining out = 0) (ClFileIntegrity ''Plaintext is shorter than declared layout'')) (\<lambda>_.
     map_err output_error (oo_publish oo (po_temporary out)))"

text \<open>How a caller uses it: a new output, a number of chunks, and the end.\<close>

fun write_chunks :: "out_ops \<Rightarrow> bytes list \<Rightarrow> plaintext_output \<Rightarrow> (plaintext_output, client_error) result" where
  "write_chunks oo [] out = Ok out"
| "write_chunks oo (b # bs) out =
     (case write_chunk oo b out of (out', r) \<Rightarrow> rbind r (\<lambda>_. write_chunks oo bs out'))"

definition stream_output :: "out_ops \<Rightarrow> nat \<Rightarrow> sparse_metadata option \<Rightarrow> bytes list \<Rightarrow> (bytes, client_error) result" where
  "stream_output oo len sparse chunks =
     rbind (output_new oo len sparse) (\<lambda>out. rbind (write_chunks oo chunks out) (output_finish oo))"

subsection \<open>Expansion in memory\<close>

fun rehydrate_loop :: "bytes \<Rightarrow> bytes \<Rightarrow> nat \<Rightarrow> sparse_extent list \<Rightarrow> (bytes, client_error) result" where
  "rehydrate_loop packed output packed_offset [] = Ok output"
| "rehydrate_loop packed output packed_offset (extent # extents) =
     rbind (ok_or (ClDecryptionError ''Sparse extent overflow'') (checked_add (sp_offset extent) (sp_length extent))) (\<lambda>stop.
     rbind (ok_or (ClDecryptionError ''Sparse packed offset overflow'') (checked_add packed_offset (sp_length extent))) (\<lambda>packed_end.
     rbind (guard (\<not> (length output < stop \<or> length packed < packed_end))
             (ClDecryptionError ''Sparse extent layout is inconsistent with plaintext size'')) (\<lambda>_.
     rehydrate_loop packed
       (take (sp_offset extent) output @ take (sp_length extent) (drop packed_offset packed) @ drop stop output)
       packed_end extents)))"

definition rehydrate_sparse_plaintext :: "(nat \<Rightarrow> bool) \<Rightarrow> bytes \<Rightarrow> sparse_metadata \<Rightarrow> (bytes, client_error) result" where
  "rehydrate_sparse_plaintext try_reserve packed sm =
     rbind (ok_or (ClFileIntegrity ''Invalid sparse extent layout'') (validated_packed_size sm (sm_logical_size sm))) (\<lambda>packed_size.
     rbind (guard (length packed = packed_size)
             (ClDecryptionError (''Sparse packed-size mismatch (expected '' @ dec_nat packed_size @ '', found '' @ dec_nat (length packed) @ '')''))) (\<lambda>_.
     rbind (guard (\<not> MAX_IN_MEMORY_PLAINTEXT_BYTES < sm_logical_size sm)
             (ClInvalidInput ''Sparse plaintext exceeds the 256 MiB in-memory limit'')) (\<lambda>_.
     rbind (guard (try_reserve (sm_logical_size sm)) (ClDecryptionError ''Unable to reserve sparse plaintext'')) (\<lambda>_.
     rehydrate_loop packed (replicate (sm_logical_size sm) 0) 0 (sm_extents sm)))))"

subsection \<open>Library\<close>

lemma length_write_at [simp]: "offset + length b \<le> length f \<Longrightarrow> length (write_at f offset b) = length f"
  by (simp add: write_at_def)

lemma write_at_Nil [simp]: "offset \<le> length f \<Longrightarrow> write_at f offset [] = f"
  by (simp add: write_at_def)

lemma write_at_append:
  assumes "offset + length b + length c \<le> length f"
  shows "write_at (write_at f offset b) (offset + length b) c = write_at f offset (b @ c)"
proof -
  have "write_at (write_at f offset b) (offset + length b) c =
      take (offset + length b) (take offset f @ b @ drop (offset + length b) f) @ c @
      drop (offset + length b + length c) (take offset f @ b @ drop (offset + length b) f)"
    using assms by (simp add: write_at_def)
  also have "\<dots> = take offset f @ b @ c @ drop (offset + length b + length c) f"
    using assms by (simp add: ac_simps)
  finally show ?thesis using assms by (simp add: write_at_def ac_simps)
qed

text \<open>Extents that lie in a file, and the bytes that they hold.\<close>

abbreviation extents_fit :: "bytes \<Rightarrow> sparse_extent list \<Rightarrow> bool" where
  "extents_fit f es \<equiv> list_all (\<lambda>e. sp_offset e + sp_length e \<le> length f) es"

abbreviation room :: "sparse_extent list \<Rightarrow> nat" where
  "room es \<equiv> sum_list (map sp_length es)"

fun spread :: "sparse_extent list \<Rightarrow> bytes \<Rightarrow> bytes \<Rightarrow> (sparse_extent list \<times> bytes) option" where
  "spread es f [] = Some (es, f)"
| "spread [] f (b # bs) = None"
| "spread (e # es) f (b # bs) =
     (if length (b # bs) \<le> sp_length e
      then Some (\<lparr>sp_offset = sp_offset e + length (b # bs), sp_length = sp_length e - length (b # bs)\<rparr> # es,
                 write_at f (sp_offset e) (b # bs))
      else spread es (write_at f (sp_offset e) (take (sp_length e) (b # bs))) (drop (sp_length e) (b # bs)))"

fun scatter :: "bytes \<Rightarrow> sparse_extent list \<Rightarrow> bytes \<Rightarrow> bytes" where
  "scatter f [] b = f"
| "scatter f (e # es) b = scatter (write_at f (sp_offset e) (take (sp_length e) b)) es (drop (sp_length e) b)"

lemma spread_Cons:
  assumes "sp_offset e + sp_length e \<le> length f" and "bs \<noteq> []"
  shows "spread (e # es) f bs =
    (if length bs \<le> sp_length e
     then Some (\<lparr>sp_offset = sp_offset e + length bs, sp_length = sp_length e - length bs\<rparr> # es, write_at f (sp_offset e) bs)
     else spread es (write_at f (sp_offset e) (take (sp_length e) bs)) (drop (sp_length e) bs))"
  using assms by (cases bs) simp_all

lemma spread_append:
  "extents_fit f es \<Longrightarrow> spread es f (b @ c) = Option.bind (spread es f b) (\<lambda>(es', f'). spread es' f' c)"
proof (induction es arbitrary: f b)
  case Nil
  then show ?case by (cases b) simp_all
next
  case (Cons e es)
  show ?case
  proof (cases "b = [] \<or> c = []")
    case True
    then show ?thesis by (cases "spread (e # es) f b") auto
  next
    case False
    then have ne: "b \<noteq> []" "c \<noteq> []" "b @ c \<noteq> []" by auto
    have fit: "sp_offset e + sp_length e \<le> length f" and es: "extents_fit f es" using Cons.prems by simp_all
    show ?thesis
    proof (cases "length b \<le> sp_length e")
      case False
      then have "spread (e # es) f (b @ c) = spread es (write_at f (sp_offset e) (take (sp_length e) b)) (drop (sp_length e) b @ c)"
        using ne by (simp add: spread_Cons [OF fit])
      also have "\<dots> = Option.bind (spread es (write_at f (sp_offset e) (take (sp_length e) b)) (drop (sp_length e) b)) (\<lambda>(es', f'). spread es' f' c)"
        using fit es by (intro Cons.IH) simp
      finally show ?thesis using False ne by (simp add: spread_Cons [OF fit])
    next
      case True
      let ?e = "\<lparr>sp_offset = sp_offset e + length b, sp_length = sp_length e - length b\<rparr>"
      have "spread (?e # es) (write_at f (sp_offset e) b) c = spread (e # es) f (b @ c)"
        using True fit ne write_at_append [of "sp_offset e" b c f] write_at_append [of "sp_offset e" b "take (sp_length e - length b) c" f]
          le_diff_conv2 [OF True, of "length c"]
        by (cases "length b + length c \<le> sp_length e") (simp_all add: spread_Cons add.commute)
      with True ne show ?thesis by (simp add: spread_Cons [OF fit])
    qed
  qed
qed

lemma spread_scatter:
  "extents_fit f es \<Longrightarrow> list_all (\<lambda>e. 0 < sp_length e) es \<Longrightarrow> length b = room es \<Longrightarrow>
   \<exists>es'. spread es f b = Some (es', scatter f es b) \<and> room es' = 0"
proof (induction es arbitrary: f b)
  case (Cons e es)
  then have fit: "sp_offset e + sp_length e \<le> length f" and ne: "b \<noteq> []" by auto
  show ?case
  proof (cases "es = []")
    case True
    then show ?thesis using Cons.prems ne by (simp add: spread_Cons [OF fit])
  next
    case False
    then have "0 < room es" using Cons.prems(2) by (cases es) auto
    moreover have "length b = sp_length e + room es" using Cons.prems(3) by simp
    ultimately have "\<not> length b \<le> sp_length e" by linarith
    then show ?thesis using Cons.prems Cons.IH [of "write_at f (sp_offset e) (take (sp_length e) b)" "drop (sp_length e) b"] ne fit
      unfolding spread_Cons [OF fit ne] by (simp only: if_False scatter.simps) simp
  qed
qed simp

lemma spread_room: "extents_fit f es \<Longrightarrow> spread es f b = Some (es', f') \<Longrightarrow>
   room es = room es' + length b \<and> extents_fit f' es' \<and> length f' = length f"
proof (induction es arbitrary: f b)
  case Nil
  then show ?case by (cases b) auto
next
  case (Cons e es)
  then have fit: "sp_offset e + sp_length e \<le> length f" by simp
  show ?case
  proof (cases "b = []")
    case True
    then show ?thesis using Cons.prems by auto
  next
    case False
    show ?thesis
    proof (cases "length b \<le> sp_length e")
      case True
      then show ?thesis using Cons.prems False by (auto simp: spread_Cons [OF fit])
    next
      case long: False
      then have "spread es (write_at f (sp_offset e) (take (sp_length e) b)) (drop (sp_length e) b) = Some (es', f')"
        using Cons.prems(2) False by (simp add: spread_Cons [OF fit])
      from Cons.IH [OF _ this] have "room es = room es' + length (drop (sp_length e) b)" "extents_fit f' es'" "length f' = length f"
        using Cons.prems(1) by auto
      then show ?thesis using long by auto
    qed
  qed
qed

subsection \<open>The output as a writer of extents\<close>

definition out_reliable :: "out_ops \<Rightarrow> bool" where
  "out_reliable oo \<longleftrightarrow>
     (\<forall>n. oo_create oo n = Ok (replicate n 0)) \<and> (\<forall>offset b f. oo_write oo offset b f = Ok (write_at f offset b)) \<and>
     (\<forall>f. oo_publish oo f = Ok f)"

definition open_extents :: "plaintext_output \<Rightarrow> sparse_extent list" where
  "open_extents out =
     (if po_extent out < length (po_extents out)
      then \<lparr>sp_offset = sp_offset (po_extents out ! po_extent out) + po_extent_written out,
            sp_length = sp_length (po_extents out ! po_extent out) - po_extent_written out\<rparr> # drop (Suc (po_extent out)) (po_extents out)
      else [])"

definition output_inv :: "plaintext_output \<Rightarrow> bool" where
  "output_inv out \<longleftrightarrow> extents_fit (po_temporary out) (po_extents out) \<and> po_remaining out = room (open_extents out) \<and>
     (po_extent out < length (po_extents out) \<longrightarrow> po_extent_written out \<le> sp_length (po_extents out ! po_extent out))"

lemma open_extents_at:
  assumes "po_extent_written out = 0"
  shows "open_extents out = drop (po_extent out) (po_extents out)"
proof -
  have e: "\<lparr>sp_offset = sp_offset e, sp_length = sp_length e\<rparr> = e" for e by (cases e) simp
  show ?thesis using assms by (simp add: open_extents_def e Cons_nth_drop_Suc)
qed

lemma open_extents_fit: "output_inv out \<Longrightarrow> extents_fit (po_temporary out) (open_extents out)"
  unfolding output_inv_def open_extents_def list_all_iff by (auto dest: in_set_dropD nth_mem)

text \<open>The two ways in which the loop continues.\<close>

lemma write_chunk_skip:
  assumes inv: "output_inv out" and b: "b \<noteq> []" and k: "po_extent out < length (po_extents out)"
    and full: "sp_length (po_extents out ! po_extent out) - po_extent_written out = 0"
  defines "out2 \<equiv> out\<lparr>po_extent := po_extent out + 1, po_extent_written := 0\<rparr>"
  shows "write_chunk oo b out = write_chunk oo b out2" and "output_inv out2"
    and "spread (open_extents out) (po_temporary out) b = spread (open_extents out2) (po_temporary out2) b"
proof -
  let ?e = "\<lparr>sp_offset = sp_offset (po_extents out ! po_extent out) + po_extent_written out, sp_length = 0\<rparr>"
  show "write_chunk oo b out = write_chunk oo b out2"
    using b k full by (subst write_chunk.simps) (simp add: out2_def)
  have open2: "open_extents out2 = drop (Suc (po_extent out)) (po_extents out)"
    by (subst open_extents_at) (simp_all add: out2_def)
  have open1: "open_extents out = ?e # open_extents out2"
    unfolding open2 using k full by (simp add: open_extents_def)
  then show "output_inv out2" using inv by (auto simp: output_inv_def out2_def)
  have "sp_offset ?e + sp_length ?e \<le> length (po_temporary out)"
    using open_extents_fit [OF inv] by (simp add: open1)
  then show "spread (open_extents out) (po_temporary out) b = spread (open_extents out2) (po_temporary out2) b"
    unfolding open1 using b by (subst spread_Cons) (simp_all add: out2_def)
qed

lemma write_chunk_write:
  assumes inv: "output_inv out" and b: "b \<noteq> []" and k: "po_extent out < length (po_extents out)"
    and room: "sp_length (po_extents out ! po_extent out) - po_extent_written out \<noteq> 0"
  defines "count \<equiv> min (sp_length (po_extents out ! po_extent out) - po_extent_written out) (length b)"
  defines "offset \<equiv> sp_offset (po_extents out ! po_extent out) + po_extent_written out"
  defines "out2 \<equiv> out\<lparr>po_temporary := write_at (po_temporary out) offset (take count b),
    po_extent_written := po_extent_written out + count, po_remaining := po_remaining out - count\<rparr>"
  shows "oo_write oo offset (take count b) (po_temporary out) = Ok (write_at (po_temporary out) offset (take count b)) \<Longrightarrow>
       write_chunk oo b out = write_chunk oo (drop count b) out2" and "output_inv out2"
    and "spread (open_extents out) (po_temporary out) b = spread (open_extents out2) (po_temporary out2) (drop count b)"
proof -
  let ?e = "\<lparr>sp_offset = offset, sp_length = sp_length (po_extents out ! po_extent out) - po_extent_written out\<rparr>"
  show "write_chunk oo b out = write_chunk oo (drop count b) out2"
    if "oo_write oo offset (take count b) (po_temporary out) = Ok (write_at (po_temporary out) offset (take count b))"
    using b k room that by (subst write_chunk.simps) (simp add: out2_def Let_def count_def offset_def)
  have open1: "open_extents out = ?e # drop (Suc (po_extent out)) (po_extents out)"
    using k by (simp add: open_extents_def offset_def)
  have open2: "open_extents out2 = \<lparr>sp_offset = offset + count, sp_length = sp_length ?e - count\<rparr> # drop (Suc (po_extent out)) (po_extents out)"
    using k by (simp add: open_extents_def out2_def offset_def)
  have fit: "extents_fit (po_temporary out) (open_extents out)" by (rule open_extents_fit [OF inv])
  then have e: "sp_offset ?e + sp_length ?e \<le> length (po_temporary out)" by (simp add: open1)
  have count: "0 < count" "count \<le> sp_length ?e" "length (take count b) = count" "take count b \<noteq> []"
    using b room by (auto simp: count_def)
  have "spread (open_extents out) (po_temporary out) (take count b) = Some (open_extents out2, po_temporary out2)"
    unfolding open1 open2 using count by (subst spread_Cons [OF e]) (simp_all add: out2_def)
  then show "spread (open_extents out) (po_temporary out) b = spread (open_extents out2) (po_temporary out2) (drop count b)"
    using spread_append [OF fit, of "take count b" "drop count b"] by simp
  show "output_inv out2"
    using inv count e k unfolding output_inv_def open1 open2 by (auto simp: out2_def)
qed

lemma write_chunk_spread:
  "out_documented oo \<Longrightarrow> write_chunk oo b out = (out', r) \<Longrightarrow> output_inv out \<Longrightarrow>
     (r = Ok () \<longrightarrow> output_inv out' \<and> spread (open_extents out) (po_temporary out) b = Some (open_extents out', po_temporary out')) \<and>
     (out_reliable oo \<longrightarrow> spread (open_extents out) (po_temporary out) b \<noteq> None \<longrightarrow> r = Ok ())"
proof (induction oo b out rule: write_chunk.induct)
  case (1 oo b out)
  let ?e = "po_extents out ! po_extent out"
  show ?case
  proof (cases "b = [] \<or> length (po_extents out) \<le> po_extent out")
    case True
    with 1 show ?thesis
      by (subst (asm) (3) write_chunk.simps) (auto simp: open_extents_def neq_Nil_conv split: if_splits)
  next
    case False
    then have b: "b \<noteq> []" and k: "\<not> length (po_extents out) \<le> po_extent out" by auto
    then have k': "po_extent out < length (po_extents out)" by simp
    show ?thesis
    proof (cases "sp_length ?e - po_extent_written out = 0")
      case True
      note skip = write_chunk_skip [OF "1.prems"(3) b k' True]
      show ?thesis
        using "1.IH"(1) [OF b k refl refl True "1.prems"(1) _ skip(2)] "1.prems"(2) skip(1) [of oo] skip(3) by simp
    next
      case room: False
      let ?count = "min (sp_length ?e - po_extent_written out) (length b)"
      let ?offset = "sp_offset ?e + po_extent_written out"
      note put = write_chunk_write [OF "1.prems"(3) b k' room]
      show ?thesis
      proof (cases "oo_write oo ?offset (take ?count b) (po_temporary out)")
        case (Ok f)
        then have f: "f = write_at (po_temporary out) ?offset (take ?count b)"
          using "1.prems"(1) by (simp add: out_documented_def)
        note ok = Ok [unfolded f]
        show ?thesis
          using "1.IH"(2) [OF b k refl refl room refl ok "1.prems"(1) _ put(2)] "1.prems"(2) put(1) [OF ok] put(3) by simp
      next
        case (Err e)
        moreover from this have "\<not> out_reliable oo" by (auto simp: out_reliable_def)
        ultimately show ?thesis using "1.prems"(2) b k room by (subst (asm) write_chunk.simps) (auto simp: Let_def)
      qed
    qed
  qed
qed

lemma write_chunks_spread:
  assumes doc: "out_documented oo"
  shows "output_inv out \<Longrightarrow>
     (write_chunks oo bs out = Ok out' \<longrightarrow>
        output_inv out' \<and> spread (open_extents out) (po_temporary out) (concat bs) = Some (open_extents out', po_temporary out')) \<and>
     (out_reliable oo \<longrightarrow> spread (open_extents out) (po_temporary out) (concat bs) \<noteq> None \<longrightarrow> (\<exists>out'. write_chunks oo bs out = Ok out'))"
proof (induction bs arbitrary: out)
  case (Cons b bs)
  obtain out2 r where run: "write_chunk oo b out = (out2, r)" by fastforce
  note step = write_chunk_spread [OF doc run Cons.prems]
  have split: "spread (open_extents out) (po_temporary out) (concat (b # bs)) =
      Option.bind (spread (open_extents out) (po_temporary out) b) (\<lambda>(es, f). spread es f (concat bs))"
    using spread_append [OF open_extents_fit [OF Cons.prems]] by simp
  show ?case
  proof (cases r)
    case (Ok u)
    then show ?thesis using step run split Cons.IH [of out2] by simp
  next
    case (Err e)
    then show ?thesis using step run split by (auto simp: Option.bind_eq_Some_conv)
  qed
qed auto

lemma check_extents_packed_loop:
  "list_all (\<lambda>e. 0 < sp_length e) es \<Longrightarrow> check_extents sz stop packed es = packed_loop sz stop packed es"
  by (induction es arbitrary: stop packed) (auto simp del: checked_add_Some split: option.split)

lemma rehydrate_loop_scatter:
  "extents_fit f0 es \<Longrightarrow> length f0 < 2 ^ 64 \<Longrightarrow> length packed < 2 ^ 64 \<Longrightarrow> offset + room es \<le> length packed \<Longrightarrow>
   rehydrate_loop packed f0 offset es = Ok (scatter f0 es (drop offset packed))"
proof (induction es arbitrary: f0 offset)
  case (Cons e es)
  let ?f = "take (sp_offset e) f0 @ take (sp_length e) (drop offset packed) @ drop (sp_offset e + sp_length e) f0"
  have e: "sp_offset e + sp_length e \<le> length f0" "offset + sp_length e + room es \<le> length packed"
    using Cons.prems by simp_all
  then have "?f = write_at f0 (sp_offset e) (take (sp_length e) (drop offset packed))" by (simp add: write_at_def)
  moreover have "rehydrate_loop packed f0 offset (e # es) = rehydrate_loop packed ?f (offset + sp_length e) es"
    using e Cons.prems by (simp add: checked_add_def)
  moreover have "rehydrate_loop packed ?f (offset + sp_length e) es = Ok (scatter ?f es (drop (offset + sp_length e) packed))"
    using e Cons.prems by (intro Cons.IH) simp_all
  ultimately show ?case by (simp add: add.commute)
qed simp

text \<open>What both ways produce.\<close>

lemma rehydrate_Ok_iff:
  assumes "sm_logical_size l = sz" and "sz \<le> MAX_IN_MEMORY_PLAINTEXT_BYTES" and "try_reserve sz"
  shows "rehydrate_sparse_plaintext try_reserve packed l = Ok x \<longleftrightarrow>
    validated_packed_size l sz = Some (length packed) \<and> x = scatter (replicate sz 0) (sm_extents l) packed"
proof -
  have "rehydrate_loop packed (replicate sz 0) 0 (sm_extents l) = Ok (scatter (replicate sz 0) (sm_extents l) packed)"
    if "validated_packed_size l sz = Some (length packed)"
  proof -
    have loop: "packed_loop sz 0 0 (sm_extents l) = Some (length packed)"
      using that assms(1) by (simp add: validated_packed_size_def)
    have sz: "sz < 2 ^ 64" using assms(2) by simp
    have w: "extents_within sz (sm_extents l)" "length packed = room (sm_extents l)"
      using loop packed_loop_iff [OF sz, of 0 0] by auto
    then have "length packed \<le> sz" using packed_within [of sz "sm_extents l" 0] by (simp add: list_all_iff)
    then show ?thesis using rehydrate_loop_scatter [of "replicate sz 0" "sm_extents l" packed 0] w sz
      by (simp add: extents_within_def list_all_iff)
  qed
  then show ?thesis using assms by (auto simp: rehydrate_sparse_plaintext_def result_simps)
qed

lemma stream_output_scatter:
  assumes doc: "out_documented oo" and l: "sm_logical_size l = sz" "list_all (\<lambda>e. 0 < sp_length e) (sm_extents l)" and sz: "sz < 2 ^ 64"
  shows "stream_output oo sz (Some l) chunks = Ok x \<Longrightarrow>
      validated_packed_size l sz = Some (length (concat chunks)) \<and> x = scatter (replicate sz 0) (sm_extents l) (concat chunks)"
    and "out_reliable oo \<Longrightarrow> validated_packed_size l sz = Some (length (concat chunks)) \<Longrightarrow>
      stream_output oo sz (Some l) chunks = Ok (scatter (replicate sz 0) (sm_extents l) (concat chunks))"
proof -
  let ?es = "sm_extents l" and ?f = "replicate sz (0 :: byte)"
  let ?out = "\<lambda>p. \<lparr>po_temporary = ?f, po_extents = ?es, po_extent = 0, po_extent_written = 0, po_remaining = p\<rparr>"
  have valid: "check_extents sz 0 0 ?es = validated_packed_size l sz"
    using l by (simp add: check_extents_packed_loop validated_packed_size_def)
  have new: "output_new oo sz (Some l) = Ok out \<longleftrightarrow> (\<exists>p. validated_packed_size l sz = Some p \<and> oo_create oo sz = Ok ?f \<and> out = ?out p)" for out
    using doc l(1) valid by (auto simp: output_new_def result_simps out_documented_def)
  have start: "output_inv (?out p) \<and> open_extents (?out p) = ?es \<and> p = room ?es" if "validated_packed_size l sz = Some p" for p
  proof -
    have "extents_within sz ?es" "p = room ?es"
      using that l(1) packed_loop_iff [OF sz, of 0 0 ?es p] by (auto simp: validated_packed_size_def)
    moreover have "open_extents (?out p) = ?es" by (subst open_extents_at) simp_all
    ultimately show ?thesis by (simp add: output_inv_def extents_within_def list_all_iff)
  qed
  have full: "\<exists>es'. spread ?es ?f (concat chunks) = Some (es', scatter ?f ?es (concat chunks)) \<and> room es' = 0"
    if "validated_packed_size l sz = Some (length (concat chunks))"
    using start [OF that] l(2) by (intro spread_scatter) (auto simp: output_inv_def)
  {
    assume "stream_output oo sz (Some l) chunks = Ok x"
    then obtain p out' where p: "validated_packed_size l sz = Some p" and run: "write_chunks oo chunks (?out p) = Ok out'"
      and fin: "output_finish oo out' = Ok x"
      by (auto simp: stream_output_def result_simps new)
    from write_chunks_spread [OF doc, of "?out p" chunks out'] run start [OF p]
    have inv: "output_inv out'" and sp: "spread ?es ?f (concat chunks) = Some (open_extents out', po_temporary out')" by auto
    have x: "room (open_extents out') = 0" "x = po_temporary out'"
      using fin inv doc by (auto simp: output_finish_def result_simps output_inv_def out_documented_def)
    have "extents_fit ?f ?es" using start [OF p] by (simp add: output_inv_def)
    from spread_room [OF this sp] x(1) start [OF p] have "p = length (concat chunks)" by simp
    with full p sp x(2) show "validated_packed_size l sz = Some (length (concat chunks)) \<and> x = scatter ?f ?es (concat chunks)" by auto
  }
  {
    assume rel: "out_reliable oo" and p: "validated_packed_size l sz = Some (length (concat chunks))"
    let ?o = "?out (length (concat chunks))"
    obtain es' where sp: "spread ?es ?f (concat chunks) = Some (es', scatter ?f ?es (concat chunks))" "room es' = 0" using full [OF p] by blast
    with write_chunks_spread [OF doc, of ?o chunks ?o] start [OF p] rel obtain out' where run: "write_chunks oo chunks ?o = Ok out'" by auto
    with write_chunks_spread [OF doc, of ?o chunks out'] start [OF p] sp(1)
    have "output_inv out'" "open_extents out' = es'" "po_temporary out' = scatter ?f ?es (concat chunks)" by auto
    with sp(2) rel have "output_finish oo out' = Ok (scatter ?f ?es (concat chunks))"
      by (simp add: output_finish_def output_inv_def out_reliable_def)
    moreover have "output_new oo sz (Some l) = Ok ?o" using p rel by (simp add: new out_reliable_def)
    ultimately show "stream_output oo sz (Some l) chunks = Ok (scatter ?f ?es (concat chunks))"
      using run by (simp add: stream_output_def)
  }
qed

lemma write_chunk_Nil: "write_chunk oo [] out = (out, Ok ())"
  by (subst write_chunk.simps) simp

text \<open>The output of contents without holes.\<close>

lemma stream_output_plain:
  assumes doc: "out_documented oo" and n: "length (concat chunks) < 2 ^ 64"
  shows "stream_output oo (length (concat chunks)) None chunks = Ok x \<Longrightarrow> x = concat chunks"
    and "out_reliable oo \<Longrightarrow> stream_output oo (length (concat chunks)) None chunks = Ok (concat chunks)"
proof -
  let ?n = "length (concat chunks)"
  let ?l = "\<lparr>sm_logical_size = ?n, sm_extents = [\<lparr>sp_offset = 0, sp_length = ?n\<rparr>]\<rparr>"
  have same: "stream_output oo ?n None chunks = stream_output oo ?n (Some ?l) chunks"
    by (simp add: stream_output_def output_new_def)
  have "(stream_output oo ?n None chunks = Ok x \<longrightarrow> x = concat chunks) \<and>
      (out_reliable oo \<longrightarrow> stream_output oo ?n None chunks = Ok (concat chunks))"
  proof (cases "?n = 0")
    case True
    then have chunks: "write_chunks oo chunks out = Ok out" for out
      by (induction chunks) (auto simp: write_chunk_Nil)
    have empty: "concat chunks = []" using True by (simp only: length_0_conv)
    have "stream_output oo ?n None chunks = rbind (oo_create oo 0) (\<lambda>f. map_err output_error (oo_publish oo f))"
      unfolding empty stream_output_def output_new_def
      by (cases "oo_create oo 0") (simp_all add: chunks output_finish_def checked_add_def)
    then show ?thesis
      using doc unfolding empty by (fastforce simp: result_simps out_documented_def out_reliable_def)
  next
    case False
    then have "validated_packed_size ?l ?n = Some ?n" using n by (simp add: validated_packed_size_def checked_add_def)
    moreover have "scatter (replicate ?n 0) (sm_extents ?l) (concat chunks) = concat chunks" by (simp add: write_at_def)
    ultimately show ?thesis
      using stream_output_scatter [OF doc, of ?l ?n chunks] False n unfolding same by (auto simp del: scatter.simps)
  qed
  then show "stream_output oo ?n None chunks = Ok x \<Longrightarrow> x = concat chunks"
    and "out_reliable oo \<Longrightarrow> stream_output oo ?n None chunks = Ok (concat chunks)" by blast+
qed

text \<open>
  C23. Streaming agrees with expansion in memory. However the packed contents are cut into chunks, a published
  output has exactly the bytes that \<open>rehydrate_sparse_plaintext\<close> computes, whatever operations of the file
  system fail before; and when none fails, every file that can be expanded in memory is published.
\<close>

theorem streaming_matches_rehydration:
  assumes "out_documented oo" and "sm_logical_size l = sz" and "list_all (\<lambda>e. 0 < sp_length e) (sm_extents l)"
    and "sz \<le> MAX_IN_MEMORY_PLAINTEXT_BYTES" and "try_reserve sz"
  shows "(stream_output oo sz (Some l) chunks = Ok x \<longrightarrow> rehydrate_sparse_plaintext try_reserve (concat chunks) l = Ok x) \<and>
    (out_reliable oo \<and> rehydrate_sparse_plaintext try_reserve (concat chunks) l = Ok x \<longrightarrow> stream_output oo sz (Some l) chunks = Ok x)"
proof -
  have sz: "sz < 2 ^ 64" using assms(4) by simp
  note S = stream_output_scatter [OF assms(1-3) sz, of chunks]
  show ?thesis unfolding rehydrate_Ok_iff [of l sz try_reserve, OF assms(2,4,5)] using S by blast
qed

definition sample_out :: out_ops where
  "sample_out = \<lparr>oo_create = (\<lambda>n. Ok (replicate n 0)), oo_write = (\<lambda>offset b f. Ok (write_at f offset b)), oo_publish = Ok\<rparr>"

lemma sample_out_documented: "out_documented sample_out" "out_reliable sample_out"
  by (simp_all add: out_documented_def out_reliable_def sample_out_def)

theorem streaming_matches_rehydration_witness:
  "stream_output sample_out 6
     (Some \<lparr>sm_logical_size = 6, sm_extents = [\<lparr>sp_offset = 1, sp_length = 2\<rparr>, \<lparr>sp_offset = 4, sp_length = 1\<rparr>]\<rparr>)
     [[7], [8, 9]] = Ok [0, 7, 8, 0, 9, 0]"
proof -
  let ?l = "\<lparr>sm_logical_size = 6, sm_extents = [\<lparr>sp_offset = 1, sp_length = 2\<rparr>, \<lparr>sp_offset = 4, sp_length = 1\<rparr>]\<rparr>"
  have s: "[0, 7, 8, 0, 9, 0] = scatter (replicate 6 0) (sm_extents ?l) (concat [[7], [8, 9]])" by code_simp
  have v: "validated_packed_size ?l 6 = Some (length (concat [[7], [8, 9 :: byte]]))" by (simp add: validated_packed_size_def checked_add_def)
  have l: "sm_logical_size ?l = 6" "list_all (\<lambda>e. 0 < sp_length e) (sm_extents ?l)" "(6 :: nat) \<le> MAX_IN_MEMORY_PLAINTEXT_BYTES" by simp_all
  have "rehydrate_sparse_plaintext (\<lambda>_. True) (concat [[7], [8, 9]]) ?l = Ok [0, 7, 8, 0, 9, 0]"
    using rehydrate_Ok_iff [of ?l 6 "\<lambda>_. True", OF l(1,3) TrueI] v s by blast
  then show ?thesis
    using streaming_matches_rehydration [OF sample_out_documented(1) l(1,2,3), of "\<lambda>_. True", OF TrueI] sample_out_documented(2) by blast
qed

end
