(* ===== verification/ClientFiles.thy ===== *)
theory ClientFiles
  imports FileHeader PlaintextOutput
begin

text \<open>
  How the client writes and reads encrypted files (\<open>crates/client/src/state/client/files.rs\<close>): sealing a
  file in chunks under the group's epoch key, unwrapping its key, and decryption of a whole file, of a file
  on disk to an output, and of a range.

  The record \<open>client_env\<close> has the cryptographic functions, the debug form of their errors, the success of memory
  reservations, and the operations of the client that readers call without looking into them: loading and
  synchronising its state, fetching missing epoch keys, looking up coverage for a log message, and scheduling
  rewraps. They may change the client's state, of any type, in any way. A file on disk is the list of its
  bytes, or the error of opening it; it does not change while it is read.
\<close>

subsection \<open>The client\<close>

record 's client_env =
  ce_prims :: crypto_prims
  ce_debug :: "crypto_error \<Rightarrow> string"
  ce_reserve :: "nat \<Rightarrow> bool"
  ce_uuid :: "bytes \<Rightarrow> string"
  ce_load :: "('s, unit, client_error) action"
  ce_sync :: "('s, unit, client_error) action"
  ce_active_group :: "'s \<Rightarrow> bytes option"
  ce_epochs :: "'s \<Rightarrow> u64 \<Rightarrow> (bytes option \<times> bytes) list"
  ce_fetch :: "bytes \<Rightarrow> u64 \<Rightarrow> ('s, unit, client_error) action"
  ce_coverage :: "string \<Rightarrow> ('s, u64, client_error) action"
  ce_rewrap :: "string \<Rightarrow> u64 \<Rightarrow> 's \<Rightarrow> 's"

text \<open>The key of an epoch that the client holds for a group.\<close>

definition get_epoch_state :: "'s client_env \<Rightarrow> 's \<Rightarrow> bytes \<Rightarrow> u64 \<Rightarrow> bytes option" where
  "get_epoch_state ce s group_id epoch_id = map_option snd (find (\<lambda>(g, _). g = Some group_id) (ce_epochs ce s epoch_id))"

definition file_epoch_key :: "'s client_env \<Rightarrow> bytes \<Rightarrow> u64 \<Rightarrow> ('s, bytes, client_error) action" where
  "file_epoch_key ce group_id epoch_id =
     sbind (sgets (\<lambda>s. get_epoch_state ce s group_id epoch_id = None)) (\<lambda>missing.
     sbind (if missing
            then scatch (ce_fetch ce group_id epoch_id) (\<lambda>_. sres (Ok ()))
                   (\<lambda>e. sres (Err (case e of ClUnauthorized _ \<Rightarrow> e | _ \<Rightarrow> ClEpochKeyUnavailable epoch_id)))
            else sres (Ok ())) (\<lambda>_.
     sbind (sgets (\<lambda>s. get_epoch_state ce s group_id epoch_id)) (\<lambda>key.
     sres (ok_or (ClEpochKeyUnavailable epoch_id) key))))"

text \<open>The part of \<open>unwrap_verified_file_key\<close> after the epoch key is there.\<close>

definition unwrap_with_epoch_key ::
  "'s client_env \<Rightarrow> 'a encrypted_file_metadata_scheme \<Rightarrow> bytes \<Rightarrow> bool \<Rightarrow> bytes \<Rightarrow> (bytes, client_error) result" where
  "unwrap_with_epoch_key ce encrypted_file file_group_id allow_legacy epoch_key_bytes =
     rbind (ok_or (ClDecryptionError ''Encrypted file missing wrapped_file_key (legacy format unsupported)'')
             (ef_wrapped_file_key encrypted_file)) (\<lambda>wrapped_key.
     rbind (ok_or (ClDecryptionError ''Missing key wrap nonce in encrypted metadata'') (ef_key_wrap_nonce encrypted_file)) (\<lambda>wrap_nonce_bytes.
     rbind (map_err (\<lambda>e. ClDecryptionError (''Invalid key wrap nonce: '' @ ce_debug ce e)) (nonce_from_bytes wrap_nonce_bytes)) (\<lambda>wrap_nonce.
     let wrap_aad = build_wrap_aad (ce_prims ce) (ef_file_id encrypted_file) (ef_file_path encrypted_file) (Some file_group_id)
           (ef_epoch_id encrypted_file) (header_version_or_1 encrypted_file) in
     rbind (case ef_key_wrap_aad_hash encrypted_file of
              Some expected_hash \<Rightarrow> guard (hash_wrap_aad (ce_prims ce) wrap_aad = expected_hash) (ClDecryptionError ''Key wrap AAD hash mismatch'')
            | None \<Rightarrow> Ok ()) (\<lambda>_.
     rbind (map_err (\<lambda>e. ClDecryptionError (''HKDF(KeyWrapping) failed: '' @ ce_debug ce e))
             (hkdf_expand (ce_prims ce) epoch_key_bytes HcKeyWrapping 32)) (\<lambda>kek_bytes.
     rbind (map_err (\<lambda>e. ClDecryptionError (''Invalid KEK: '' @ ce_debug ce e)) (key_from_bytes kek_bytes)) (\<lambda>kek.
     rbind (map_err (\<lambda>e. ClFileIntegrity (''Key unwrap failed: '' @ ce_debug ce e))
             (open_sealed (ce_prims ce) kek wrap_nonce AcFileData wrap_aad wrapped_key)) (\<lambda>file_key_bytes.
     manifest_verify (ce_prims ce) encrypted_file file_key_bytes allow_legacy)))))))"

definition unwrap_verified_file_key ::
  "'s client_env \<Rightarrow> 'a encrypted_file_metadata_scheme \<Rightarrow> bytes \<Rightarrow> bool \<Rightarrow> ('s, bytes, client_error) action" where
  "unwrap_verified_file_key ce encrypted_file file_group_id allow_legacy =
     sbind (file_epoch_key ce file_group_id (ef_epoch_id encrypted_file)) (\<lambda>epoch_key_bytes.
     sres (unwrap_with_epoch_key ce encrypted_file file_group_id allow_legacy epoch_key_bytes))"

text \<open>
  What the three ways of decryption do first: load and synchronise the state, check that the file belongs to the
  active group, look up its coverage for a warning, and unwrap its key.
\<close>

definition open_for_reading ::
  "'s client_env \<Rightarrow> 'a encrypted_file_metadata_scheme \<Rightarrow> bool \<Rightarrow> ('s, bytes, client_error) action" where
  "open_for_reading ce encrypted_file allow_legacy =
     sbind (ce_load ce) (\<lambda>_.
     sbind (scatch (ce_sync ce) (\<lambda>_. sres (Ok ())) (\<lambda>_. sres (Ok ()))) (\<lambda>_.
     sbind (sgets (ce_active_group ce)) (\<lambda>active.
     sbind (sres (ok_or (ClInvalidState
         ''No active group selected. Run 'hybridcipher switch-group <group-id>' before decrypting.'') active)) (\<lambda>active_group.
     sbind (sres (ok_or (ClInvalidState
         ''Encrypted file metadata is missing group information. Please re-encrypt the file with an updated client.'')
         (ef_group_id encrypted_file))) (\<lambda>file_group_id.
     sbind (sres (guard (file_group_id = active_group) (ClInvalidState
         (''File belongs to group '' @ ce_uuid ce file_group_id @ '', but the active group is '' @ ce_uuid ce active_group @
          ''. Run 'hybridcipher switch-group '' @ ce_uuid ce file_group_id @ [CHR 0x27] @ '' and retry.'')))) (\<lambda>_.
     sbind (scatch (ce_coverage ce (ef_file_path encrypted_file)) (\<lambda>_. sres (Ok ())) (\<lambda>_. sres (Ok ()))) (\<lambda>_.
     unwrap_verified_file_key ce encrypted_file file_group_id allow_legacy)))))))"

subsection \<open>Decryption in memory\<close>

definition sat_add :: "nat \<Rightarrow> nat \<Rightarrow> nat" where
  "sat_add a b = min (a + b) (2 ^ 64 - 1)"

definition packed_size :: "sparse_metadata \<Rightarrow> nat" where
  "packed_size sm = fold (\<lambda>extent sum. sat_add sum (sp_length extent)) (sm_extents sm) 0"

definition effective_packed_content_size :: "'a encrypted_file_metadata_scheme \<Rightarrow> nat" where
  "effective_packed_content_size encrypted_file =
     (case ly_sparse_metadata encrypted_file of Some sm \<Rightarrow> packed_size sm | None \<Rightarrow> ly_content_size encrypted_file)"

definition client_chunk ::
  "'s client_env \<Rightarrow> bytes \<Rightarrow> string \<Rightarrow> bytes \<Rightarrow> bytes \<Rightarrow> nat \<times> bytes \<Rightarrow> nat \<Rightarrow> u64 \<Rightarrow> (nat \<times> bytes, client_error) result" where
  "client_chunk ce file_key file_id base_nonce encrypted_content = (\<lambda>(offset, output) plain_len chunk_index.
     rbind (ok_or (ClDecryptionError ''Chunk length overflows'') (checked_add plain_len AEAD_TAG_SIZE)) (\<lambda>cipher_len.
     rbind (ok_or (ClDecryptionError ''Ciphertext offset overflows'') (checked_add offset cipher_len)) (\<lambda>next.
     rbind (guard (\<not> length encrypted_content < next) (ClDecryptionError ''Chunked ciphertext truncated'')) (\<lambda>_.
     rbind (map_err (\<lambda>e. ClDecryptionError (''Invalid chunk nonce: '' @ ce_debug ce e))
             (nonce_from_bytes (derive_chunk_nonce base_nonce chunk_index))) (\<lambda>nonce.
     rbind (map_err (\<lambda>e. ClDecryptionError (''Chunk decrypt failed: '' @ ce_debug ce e))
             (open_sealed (ce_prims ce) file_key nonce AcFileData (as_bytes file_id @ to_le_bytes chunk_index)
                (take (next - offset) (drop offset encrypted_content)))) (\<lambda>plaintext.
     Ok (next, output @ plaintext)))))))"

definition decrypt_chunked_bytes ::
  "'s client_env \<Rightarrow> bytes \<Rightarrow> string \<Rightarrow> bytes \<Rightarrow> nat \<Rightarrow> nat \<Rightarrow> bytes \<Rightarrow> (bytes, client_error) result option" where
  "decrypt_chunked_bytes ce file_key file_id content_nonce chunk_size content_size encrypted_content =
     (case
        rbind (guard (\<not> (chunk_size = 0 \<or> MAX_CONTENT_CHUNK_SIZE < chunk_size))
                (ClDecryptionError ''chunk_size must be between 1 and 64 MiB'')) (\<lambda>_.
        rbind (guard (\<not> MAX_IN_MEMORY_PLAINTEXT_BYTES < content_size)
                (ClInvalidInput ''Plaintext exceeds the 256 MiB in-memory limit'')) (\<lambda>_.
        rbind (map_err (\<lambda>e. ClDecryptionError (encryption_error_display e)) (chunked_encrypted_size content_size chunk_size)) (\<lambda>expected.
        rbind (guard (length encrypted_content = expected) (ClFileIntegrity ''Ciphertext size mismatch'')) (\<lambda>_.
        rbind (guard (length content_nonce = 12) (ClDecryptionError ''Invalid content nonce length'')) (\<lambda>_.
        guard (ce_reserve ce content_size) (ClDecryptionError ''Unable to reserve plaintext'')))))) of
       Err e \<Rightarrow> Some (Err e)
     | Ok _ \<Rightarrow>
         map_option (\<lambda>r. rbind r (\<lambda>(offset, output).
             rbind (guard (offset = length encrypted_content) (ClDecryptionError ''Chunked ciphertext size mismatch'')) (\<lambda>_.
             Ok output)))
           (chunk_loop (client_chunk ce file_key file_id content_nonce encrypted_content) chunk_size content_size 0 (0, [])))"

text \<open>The checks of the declared sizes, before anything is loaded.\<close>

definition is_chunked :: "'a encrypted_file_metadata_scheme \<Rightarrow> bool" where
  "is_chunked encrypted_file \<longleftrightarrow> ef_header_version encrypted_file = Some 2 \<or> ly_content_chunk_size encrypted_file \<noteq> None"

definition declared_packed_size :: "'a encrypted_file_metadata_scheme \<Rightarrow> bool \<Rightarrow> (nat, client_error) result" where
  "declared_packed_size encrypted_file allow_large_single_record =
     (let actual = length (ef_encrypted_content encrypted_file); mismatch = ClFileIntegrity ''Ciphertext size mismatch'' in
      rbind (case ly_sparse_metadata encrypted_file of
               Some layout \<Rightarrow> ok_or (ClFileIntegrity ''Invalid sparse extent layout'') (validated_packed_size layout (ly_content_size encrypted_file))
             | None \<Rightarrow> Ok (ly_content_size encrypted_file)) (\<lambda>packed_content_size.
      rbind (guard (\<not> (allow_large_single_record \<and> is_chunked encrypted_file))
              (ClInvalidInput ''Large-record recovery only supports older single-record files'')) (\<lambda>_.
      rbind (guard (\<not> (\<not> allow_large_single_record \<and>
                 (MAX_IN_MEMORY_PLAINTEXT_BYTES < ly_content_size encrypted_file \<or> MAX_IN_MEMORY_PLAINTEXT_BYTES < packed_content_size)))
              (ClInvalidInput ''Plaintext exceeds the 256 MiB in-memory limit; use streaming decryption'')) (\<lambda>_.
      rbind (if is_chunked encrypted_file then
               rbind (map_err (\<lambda>e. ClDecryptionError (encryption_error_display e))
                 (chunked_encrypted_size packed_content_size
                   (case ly_content_chunk_size encrypted_file of Some c \<Rightarrow> c | None \<Rightarrow> 0))) (\<lambda>expected.
               guard (\<not> (ly_encrypted_size encrypted_file \<noteq> expected \<or> actual \<noteq> expected)) mismatch)
             else
               rbind (guard (\<not> (actual \<noteq> ly_encrypted_size encrypted_file \<or> actual < 12 + AEAD_TAG_SIZE)) mismatch) (\<lambda>_.
               rbind (if 3 \<le> header_version_or_1 encrypted_file then
                        rbind (ok_or (ClFileIntegrity ''Ciphertext size overflow'') (checked_add packed_content_size (12 + AEAD_TAG_SIZE))) (\<lambda>expected.
                        guard (actual = expected) mismatch)
                      else Ok ()) (\<lambda>_.
               guard (\<not> (\<not> allow_large_single_record \<and> MAX_IN_MEMORY_PLAINTEXT_BYTES + 12 + AEAD_TAG_SIZE < actual))
                 (ClInvalidInput ''Single-record plaintext exceeds the 256 MiB in-memory limit'')))) (\<lambda>_.
      Ok packed_content_size)))))"

definition decrypt_packed ::
  "'s client_env \<Rightarrow> 'a encrypted_file_metadata_scheme \<Rightarrow> nat \<Rightarrow> bytes \<Rightarrow> (bytes, client_error) result option" where
  "decrypt_packed ce encrypted_file packed_content_size file_key =
     (if header_version_or_1 encrypted_file = 2 \<or> ly_content_chunk_size encrypted_file \<noteq> None then
        (case (ly_content_chunk_size encrypted_file, ly_content_nonce encrypted_file) of
           (None, _) \<Rightarrow> Some (Err (ClDecryptionError ''Missing chunk_size in metadata''))
         | (Some _, None) \<Rightarrow> Some (Err (ClDecryptionError ''Missing content nonce in metadata''))
         | (Some chunk_size, Some content_nonce) \<Rightarrow>
             decrypt_chunked_bytes ce file_key (ef_file_id encrypted_file) content_nonce chunk_size packed_content_size
               (ef_encrypted_content encrypted_file))
      else Some (
        rbind (guard (\<not> length (ef_encrypted_content encrypted_file) < 12) (ClDecryptionError ''Invalid encrypted content length'')) (\<lambda>_.
        rbind (map_err (\<lambda>e. ClDecryptionError (''Invalid content nonce: '' @ ce_debug ce e))
                (nonce_from_bytes (take 12 (ef_encrypted_content encrypted_file)))) (\<lambda>content_nonce.
        map_err (\<lambda>e. ClDecryptionError (''Decryption failed: '' @ ce_debug ce e))
          (open_sealed (ce_prims ce) file_key content_nonce AcFileData (as_bytes (ef_file_id encrypted_file))
            (drop 12 (ef_encrypted_content encrypted_file)))))))"

text \<open>\<open>None\<close> is a decryption that does not return.\<close>

definition decrypt_file_with_legacy_policy ::
  "'s client_env \<Rightarrow> 'a encrypted_file_metadata_scheme \<Rightarrow> bool \<Rightarrow> bool \<Rightarrow> 's \<Rightarrow> ('s \<times> (bytes, client_error) result) option" where
  "decrypt_file_with_legacy_policy ce encrypted_file allow_legacy allow_large_single_record s =
     (case declared_packed_size encrypted_file allow_large_single_record of
        Err e \<Rightarrow> Some (s, Err e)
      | Ok packed_content_size \<Rightarrow>
          (case open_for_reading ce encrypted_file allow_legacy s of
             (s', Err e) \<Rightarrow> Some (s', Err e)
           | (s', Ok file_key) \<Rightarrow>
               map_option (\<lambda>r.
                 (case rbind r (\<lambda>packed_plaintext.
                         case ly_sparse_metadata encrypted_file of
                           Some sm \<Rightarrow> rehydrate_sparse_plaintext (ce_reserve ce) packed_plaintext sm
                         | None \<Rightarrow> Ok packed_plaintext) of
                    Err e \<Rightarrow> (s', Err e)
                  | Ok plaintext \<Rightarrow>
                      if ly_content_size encrypted_file = 0 \<or> length plaintext = ly_content_size encrypted_file
                      then (if requires_legacy_compatibility encrypted_file then s'
                            else ce_rewrap ce (ef_file_path encrypted_file) (ef_epoch_id encrypted_file) s', Ok plaintext)
                      else (s', Err (ClDecryptionError ''Decryption failed (length mismatch)''))))
                 (decrypt_packed ce encrypted_file packed_content_size file_key)))"

definition decrypt_file :: "'s client_env \<Rightarrow> 'a encrypted_file_metadata_scheme \<Rightarrow> 's \<Rightarrow> ('s \<times> (bytes, client_error) result) option" where
  "decrypt_file ce encrypted_file = decrypt_file_with_legacy_policy ce encrypted_file False False"

definition recover_legacy_file_unverified :: "'s client_env \<Rightarrow> 'a encrypted_file_metadata_scheme \<Rightarrow> 's \<Rightarrow> ('s \<times> (bytes, client_error) result) option" where
  "recover_legacy_file_unverified ce encrypted_file = decrypt_file_with_legacy_policy ce encrypted_file True False"

definition recover_large_single_record_unverified ::
  "'s client_env \<Rightarrow> 'a encrypted_file_metadata_scheme \<Rightarrow> 's \<Rightarrow> ('s \<times> (bytes, client_error) result) option" where
  "recover_large_single_record_unverified ce encrypted_file = decrypt_file_with_legacy_policy ce encrypted_file True True"

subsection \<open>Decryption from disk\<close>

text \<open>The length of the header of a file on disk and the ciphertext after it.\<close>

definition locate_ciphertext :: "'s client_env \<Rightarrow> string \<Rightarrow> (bytes, string) result \<Rightarrow> (nat \<times> bytes, client_error) result" where
  "locate_ciphertext ce encrypted_path contents =
     rbind (map_err (\<lambda>e. ClDecryptionError (''Failed to open encrypted file '' @ encrypted_path @ '': '' @ e)) contents) (\<lambda>file.
     rbind (map_err (\<lambda>e. ClDecryptionError (''Failed to read encrypted header '' @ encrypted_path @ '': '' @ e))
             (read_encrypted_header (ce_reserve ce) [] file)) (\<lambda>(header, rest).
     Ok (length file - length rest, rest)))"

fun layout_loop :: "nat \<Rightarrow> nat \<Rightarrow> nat \<Rightarrow> sparse_extent list \<Rightarrow> (nat, client_error) result" where
  "layout_loop logical_size stop packed [] = Ok packed"
| "layout_loop logical_size stop packed (extent # extents) =
     rbind (guard (\<not> (sp_length extent = 0 \<or> sp_offset extent < stop)) (ClFileIntegrity ''Overlapping sparse extents'')) (\<lambda>_.
     rbind (ok_or (ClFileIntegrity ''Sparse extent overflow'') (checked_add (sp_offset extent) (sp_length extent))) (\<lambda>stop'.
     rbind (guard (\<not> logical_size < stop') (ClFileIntegrity ''Sparse extent exceeds logical size'')) (\<lambda>_.
     rbind (ok_or (ClFileIntegrity ''Sparse size overflow'') (checked_add packed (sp_length extent))) (\<lambda>packed'.
     layout_loop logical_size stop' packed' extents))))"

text \<open>One round: read a chunk, open it and hand it to the output.\<close>

definition stream_chunk ::
  "'s client_env \<Rightarrow> out_ops \<Rightarrow> bytes \<Rightarrow> string \<Rightarrow> bytes \<Rightarrow> bytes \<times> plaintext_output \<Rightarrow> nat \<Rightarrow> u64 \<Rightarrow> (bytes \<times> plaintext_output, client_error) result" where
  "stream_chunk ce oo file_key file_id base_nonce = (\<lambda>(reader, output) plain_len chunk_index.
     rbind (ok_or (ClDecryptionError ''Ciphertext chunk length overflows'') (checked_add plain_len AEAD_TAG_SIZE)) (\<lambda>cipher_len.
     rbind (guard (cipher_len \<le> length reader) (ClDecryptionError ''Failed to read ciphertext chunk: failed to fill whole buffer'')) (\<lambda>_.
     rbind (map_err (\<lambda>e. ClDecryptionError (''Invalid chunk nonce: '' @ ce_debug ce e))
             (nonce_from_bytes (derive_chunk_nonce base_nonce chunk_index))) (\<lambda>nonce.
     rbind (map_err (\<lambda>e. ClFileIntegrity ''Chunk authentication failed'')
             (open_sealed (ce_prims ce) file_key nonce AcFileData (as_bytes file_id @ to_le_bytes chunk_index) (take cipher_len reader))) (\<lambda>plaintext.
     case write_chunk oo plaintext output of (output', r) \<Rightarrow> rbind r (\<lambda>_. Ok (drop cipher_len reader, output')))))))"

text \<open>Everything after the key is unwrapped, up to the loop: nonce, chunk size, packed size, ciphertext and output.\<close>

definition prepare_stream ::
  "'s client_env \<Rightarrow> out_ops \<Rightarrow> string \<Rightarrow> (bytes, string) result \<Rightarrow> 'a encrypted_file_metadata_scheme \<Rightarrow>
   (bytes \<times> nat \<times> nat \<times> bytes \<times> plaintext_output, client_error) result" where
  "prepare_stream ce oo encrypted_path contents encrypted_file =
     rbind (ok_or (ClDecryptionError ''Missing content nonce in metadata'') (ly_content_nonce encrypted_file)) (\<lambda>content_nonce.
     rbind (guard (length content_nonce = 12) (ClDecryptionError ''Invalid content nonce length'')) (\<lambda>_.
     rbind (ok_or (ClDecryptionError ''Missing chunk_size in metadata'') (ly_content_chunk_size encrypted_file)) (\<lambda>chunk_size.
     rbind (guard (\<not> (chunk_size = 0 \<or> MAX_CONTENT_CHUNK_SIZE < chunk_size))
             (ClDecryptionError ''chunk_size must be between 1 and 64 MiB'')) (\<lambda>_.
     rbind (case ly_sparse_metadata encrypted_file of
              Some layout \<Rightarrow>
                rbind (layout_loop (sm_logical_size layout) 0 0 (sm_extents layout)) (\<lambda>packed.
                rbind (guard (sm_logical_size layout = ly_content_size encrypted_file) (ClFileIntegrity ''Sparse logical size mismatch'')) (\<lambda>_.
                Ok packed))
            | None \<Rightarrow> Ok (ly_content_size encrypted_file)) (\<lambda>packed_content_size.
     rbind (map_err (\<lambda>e. ClDecryptionError (encryption_error_display e)) (chunked_encrypted_size packed_content_size chunk_size)) (\<lambda>expected_encrypted_size.
     rbind (guard (ly_encrypted_size encrypted_file = expected_encrypted_size) (ClFileIntegrity ''Declared ciphertext size mismatch'')) (\<lambda>_.
     rbind (locate_ciphertext ce encrypted_path contents) (\<lambda>(ciphertext_offset, reader).
     rbind (guard (length reader = expected_encrypted_size)
             (ClDecryptionError (''Encrypted size mismatch (expected '' @ dec_nat expected_encrypted_size @ '', found '' @ dec_nat (length reader) @ '')''))) (\<lambda>_.
     rbind (output_new oo (ly_content_size encrypted_file) (ly_sparse_metadata encrypted_file)) (\<lambda>output.
     rbind (guard (packed_content_size = 0 \<or> ce_reserve ce (min packed_content_size chunk_size + AEAD_TAG_SIZE))
             (ClDecryptionError ''Unable to reserve ciphertext chunk'')) (\<lambda>_.
     Ok (content_nonce, chunk_size, packed_content_size, reader, output))))))))))))"

text \<open>The result is what was published at the output path. \<open>write_atomic\<close> writes the contents of files that are not chunked.\<close>

definition decrypt_file_streaming ::
  "'s client_env \<Rightarrow> out_ops \<Rightarrow> (bytes \<Rightarrow> (bytes, client_error) result) \<Rightarrow> string \<Rightarrow> (bytes, string) result \<Rightarrow>
   'a encrypted_file_metadata_scheme \<Rightarrow> legacy_read_policy \<Rightarrow> 's \<Rightarrow> ('s \<times> (bytes, client_error) result) option" where
  "decrypt_file_streaming ce oo write_atomic encrypted_path contents encrypted_file policy s =
     (case policy_check policy encrypted_file of
        Err e \<Rightarrow> Some (s, Err e)
      | Ok _ \<Rightarrow>
          if header_version_or_1 encrypted_file < 2 \<or> ly_content_chunk_size encrypted_file = None
          then map_option (\<lambda>(s', r). (s', rbind r write_atomic))
                 (decrypt_file_with_legacy_policy ce encrypted_file (policy = AllowLegacyUnverified) False s)
          else
            (case open_for_reading ce encrypted_file (policy = AllowLegacyUnverified) s of
               (s', Err e) \<Rightarrow> Some (s', Err e)
             | (s', Ok file_key) \<Rightarrow>
                 (case prepare_stream ce oo encrypted_path contents encrypted_file of
                    Err e \<Rightarrow> Some (s', Err e)
                  | Ok (base_nonce, chunk_size, packed_content_size, reader, output) \<Rightarrow>
                      map_option (\<lambda>r.
                        (case rbind r (\<lambda>(_, output'). output_finish oo output') of
                           Err e \<Rightarrow> (s', Err e)
                         | Ok published \<Rightarrow>
                             (if requires_legacy_compatibility encrypted_file then s'
                              else ce_rewrap ce (ef_file_path encrypted_file) (ef_epoch_id encrypted_file) s', Ok published)))
                        (chunk_loop (stream_chunk ce oo file_key (ef_file_id encrypted_file) base_nonce) chunk_size packed_content_size 0
                          (reader, output)))))"

subsection \<open>Ranges\<close>

definition checked_sub :: "nat \<Rightarrow> nat \<Rightarrow> nat option" where
  "checked_sub a b = (if b \<le> a then Some (a - b) else None)"

text \<open>\<open>&bytes[a..b]\<close>; out of bounds the client panics.\<close>

definition index_range :: "bytes \<Rightarrow> nat \<Rightarrow> nat \<Rightarrow> bytes option" where
  "index_range b i j = (if i \<le> j \<and> j \<le> length b then Some (take (j - i) (drop i b)) else None)"

fun range_loop ::
  "'s client_env \<Rightarrow> bytes \<Rightarrow> string \<Rightarrow> bytes \<Rightarrow> nat \<Rightarrow> nat \<Rightarrow> nat \<Rightarrow> nat \<Rightarrow> nat list \<Rightarrow> bytes \<Rightarrow> bytes \<Rightarrow> (bytes, client_error) result" where
  "range_loop ce file_key file_id base_nonce chunk_size packed_content_size offset stop [] reader res = Ok res"
| "range_loop ce file_key file_id base_nonce chunk_size packed_content_size offset stop (chunk_index # indices) reader res =
     rbind (ok_or (ClDecryptionError ''plaintext chunk offset overflows'') (checked_mul chunk_index chunk_size)) (\<lambda>chunk_plain_offset.
     rbind (ok_or (ClDecryptionError ''plaintext chunk exceeds content size'') (checked_sub packed_content_size chunk_plain_offset)) (\<lambda>remaining.
     let plain_len = min remaining chunk_size in
     rbind (ok_or (ClDecryptionError ''ciphertext chunk length overflows'') (checked_add plain_len AEAD_TAG_SIZE)) (\<lambda>cipher_len.
     rbind (guard (cipher_len \<le> length reader) (ClDecryptionError ''Failed to read ciphertext chunk: failed to fill whole buffer'')) (\<lambda>_.
     rbind (map_err (\<lambda>e. ClDecryptionError (''Invalid chunk nonce: '' @ ce_debug ce e))
             (nonce_from_bytes (derive_chunk_nonce base_nonce (of_nat chunk_index)))) (\<lambda>nonce.
     rbind (map_err (\<lambda>e. ClFileIntegrity (''Chunk authentication failed: '' @ ce_debug ce e))
             (open_sealed (ce_prims ce) file_key nonce AcFileData (as_bytes file_id @ to_le_bytes (of_nat chunk_index)) (take cipher_len reader))) (\<lambda>plaintext.
     rbind (ok_or (ClOther ''range out of bounds'')
             (index_range plaintext (sat_sub offset chunk_plain_offset) (min stop (chunk_plain_offset + plain_len) - chunk_plain_offset))) (\<lambda>piece.
     range_loop ce file_key file_id base_nonce chunk_size packed_content_size offset stop indices (drop cipher_len reader) (res @ piece))))))))"

definition range_request :: "'a encrypted_file_metadata_scheme \<Rightarrow> nat \<Rightarrow> nat \<Rightarrow> (nat, client_error) result" where
  "range_request encrypted_file offset len =
     rbind (guard (\<not> MAX_IN_MEMORY_PLAINTEXT_BYTES < len) (ClInvalidInput ''Requested range exceeds the 256 MiB in-memory limit'')) (\<lambda>_.
     rbind (ok_or (ClInvalidInput ''Requested range overflows'') (checked_add offset len)) (\<lambda>stop.
     rbind (guard (\<not> ly_content_size encrypted_file < stop)
             (ClInvalidInput (''Requested range '' @ dec_nat offset @ ''..'' @ dec_nat stop @ '' exceeds logical file size '' @
                dec_nat (ly_content_size encrypted_file)))) (\<lambda>_.
     Ok stop)))"

definition read_range ::
  "'s client_env \<Rightarrow> string \<Rightarrow> (bytes, string) result \<Rightarrow> 'a encrypted_file_metadata_scheme \<Rightarrow> nat \<Rightarrow> nat \<Rightarrow> nat \<Rightarrow> bytes \<Rightarrow>
   (bytes, client_error) result" where
  "read_range ce encrypted_path contents encrypted_file offset len stop file_key =
     rbind (ok_or (ClDecryptionError ''Missing content nonce in metadata'') (ly_content_nonce encrypted_file)) (\<lambda>content_nonce.
     rbind (guard (length content_nonce = 12) (ClDecryptionError ''Invalid content nonce length'')) (\<lambda>_.
     let chunk_size = (case ly_content_chunk_size encrypted_file of Some c \<Rightarrow> c | None \<Rightarrow> 0) in
     rbind (guard (\<not> (chunk_size = 0 \<or> MAX_CONTENT_CHUNK_SIZE < chunk_size))
             (ClDecryptionError ''chunk_size must be between 1 and 64 MiB'')) (\<lambda>_.
     let packed_content_size = effective_packed_content_size encrypted_file in
     rbind (guard (packed_content_size = ly_content_size encrypted_file)
             (ClInvalidInput ''Range decryption cannot address packed sparse content'')) (\<lambda>_.
     rbind (map_err (\<lambda>e. ClDecryptionError (encryption_error_display e)) (chunked_encrypted_size packed_content_size chunk_size)) (\<lambda>expected_encrypted_size.
     rbind (locate_ciphertext ce encrypted_path contents) (\<lambda>(ciphertext_offset, ciphertext).
     rbind (guard (length ciphertext = expected_encrypted_size)
             (ClDecryptionError (''Encrypted size mismatch (expected '' @ dec_nat expected_encrypted_size @ '', found '' @ dec_nat (length ciphertext) @ '')''))) (\<lambda>_.
     rbind (ok_or (ClDecryptionError ''chunk stride overflows'') (checked_add chunk_size AEAD_TAG_SIZE)) (\<lambda>chunk_stride.
     let first_chunk = offset div chunk_size; final_chunk = (stop - 1) div chunk_size in
     rbind (ok_or (ClDecryptionError ''ciphertext range offset overflows'') (checked_mul first_chunk chunk_stride)) (\<lambda>skip.
     rbind (ok_or (ClDecryptionError ''ciphertext range offset overflows'') (checked_add ciphertext_offset skip)) (\<lambda>_.
     rbind (guard (ce_reserve ce (min packed_content_size chunk_size + AEAD_TAG_SIZE)) (ClDecryptionError ''Unable to reserve ciphertext chunk'')) (\<lambda>_.
     rbind (guard (ce_reserve ce len) (ClDecryptionError ''Unable to reserve plaintext range'')) (\<lambda>_.
     rbind (range_loop ce file_key (ef_file_id encrypted_file) content_nonce chunk_size packed_content_size offset stop
              [first_chunk..<Suc final_chunk] (drop skip ciphertext) []) (\<lambda>res.
     rbind (guard (length res = len)
             (ClDecryptionError (''Range decrypt length mismatch (expected '' @ dec_nat len @ '', found '' @ dec_nat (length res) @ '')''))) (\<lambda>_.
     Ok res))))))))))))))"

definition decrypt_file_range ::
  "'s client_env \<Rightarrow> string \<Rightarrow> (bytes, string) result \<Rightarrow> 'a encrypted_file_metadata_scheme \<Rightarrow> nat \<Rightarrow> nat \<Rightarrow> ('s, bytes, client_error) action" where
  "decrypt_file_range ce encrypted_path contents encrypted_file offset len =
     sbind (sres (range_request encrypted_file offset len)) (\<lambda>stop.
     if len = 0 then sres (Ok [])
     else
       sbind (sres (guard (\<not> (header_version_or_1 encrypted_file \<noteq> 3 \<or> ly_content_chunk_size encrypted_file = None))
                (ClInvalidInput ''Range decryption requires the current chunked file format''))) (\<lambda>_.
       sbind (sres (guard (ly_sparse_metadata encrypted_file = None)
                (ClInvalidInput ''Range decryption does not reconstruct sparse extents''))) (\<lambda>_.
       sbind (open_for_reading ce encrypted_file False) (\<lambda>file_key.
       sbind (sres (read_range ce encrypted_path contents encrypted_file offset len stop file_key)) (\<lambda>res s.
       (ce_rewrap ce (ef_file_path encrypted_file) (ef_epoch_id encrypted_file) s, Ok res))))))"

subsection \<open>Sealing a file\<close>

text \<open>
  The body of \<open>encrypt_file_streaming_with_id_to_path\<close> once group, epoch and epoch key are determined: the keys, the
  content manifest, the header and the chunks. The source has the size that its metadata tells and the results of
  the successive reads; the file is the bytes written.
\<close>

definition seal_streaming ::
  "'s client_env \<Rightarrow> header_env \<Rightarrow> bytes \<Rightarrow> bytes \<Rightarrow> u64 \<Rightarrow> string \<Rightarrow> string \<Rightarrow> string option \<Rightarrow> platform_file_metadata option \<Rightarrow>
   nat \<Rightarrow> string \<Rightarrow> nat \<Rightarrow> (bytes, string) result list \<Rightarrow> bytes \<Rightarrow> bytes \<Rightarrow> bytes \<Rightarrow> instant \<Rightarrow>
   (bytes \<times> serialized_header \<times> bytes, client_error) result" where
  "seal_streaming ce hv epoch_key active_group final_epoch_id file_path file_id original_name platform_metadata chunk_size
       source_path content_size reads file_key_raw content_nonce wrap_nonce now =
     rbind (map_err (\<lambda>e. ClEncryptionError (''HKDF(KeyWrapping) failed: '' @ ce_debug ce e))
             (hkdf_expand (ce_prims ce) epoch_key HcKeyWrapping 32)) (\<lambda>kek_bytes.
     rbind (map_err (\<lambda>e. ClEncryptionError (''Failed to create KEK: '' @ ce_debug ce e)) (key_from_bytes kek_bytes)) (\<lambda>kek.
     rbind (map_err (\<lambda>e. ClEncryptionError (''Failed to create DEK: '' @ ce_debug ce e)) (key_from_bytes file_key_raw)) (\<lambda>file_key.
     let normalized_file_path = normalize_file_identifier file_path;
         wrap_aad = build_wrap_aad (ce_prims ce) file_id normalized_file_path (Some active_group) final_epoch_id 3;
         wrap_aad_hash = hash_wrap_aad (ce_prims ce) wrap_aad in
     rbind (map_err (\<lambda>e. ClEncryptionError (encryption_error_display e)) (chunked_encrypted_size content_size chunk_size)) (\<lambda>encrypted_size.
     let manifest = manifest_digest (ce_prims ce) content_size encrypted_size (Some chunk_size) content_nonce None in
     rbind (map_err (\<lambda>e. ClEncryptionError (encryption_error_display e))
             (manifest_wrap (ce_prims ce) wrap_nonce file_key kek wrap_aad manifest)) (\<lambda>(wrapped_file_key, key_wrap_nonce).
     let header = \<lparr>sh_file_id = file_id, sh_file_path = normalized_file_path, sh_group_id = Some active_group, sh_epoch_id = final_epoch_id,
           sh_header_version = 3, sh_wrapped_file_key = wrapped_file_key, sh_key_wrap_nonce = key_wrap_nonce,
           sh_key_wrap_aad_hash = wrap_aad_hash, sh_content_nonce = content_nonce, sh_content_chunk_size = Some chunk_size,
           sh_original_size = content_size, sh_encrypted_size = encrypted_size, sh_encrypted_at = now,
           sh_original_name = original_name, sh_platform_metadata = platform_metadata, sh_sparse_metadata = None\<rparr> in
     rbind (map_err (\<lambda>e. ClEncryptionError (encryption_error_display e)) (serialize_encrypted_header hv header)) (\<lambda>header_bytes.
     case encrypt_content_chunked (ce_prims ce) append_writer reads header_bytes file_key file_id content_nonce chunk_size of
       (file, r) \<Rightarrow>
         rbind (map_err (\<lambda>e. ClEncryptionError (encryption_error_display e)) r) (\<lambda>(bytes_read, integrity_hash).
         rbind (guard (bytes_read = content_size)
                 (ClEncryptionError (''Plaintext size mismatch for '' @ source_path @ '' (expected '' @ dec_nat content_size @ '', read '' @ dec_nat bytes_read @ '')''))) (\<lambda>_.
         Ok (file, header, integrity_hash)))))))))"

subsection \<open>Library\<close>

lemma seal_streaming_Ok:
  assumes "seal_streaming ce hv epoch_key gid epoch file_path file_id original_name platform cs source content_size reads key nonce wrap_nonce now =
    Ok (file, h, hash)"
  obtains kek wrapped encrypted_size header_bytes where
    "hkdf_expand (ce_prims ce) epoch_key HcKeyWrapping 32 = Ok kek" "length kek = 32" "length key = 32"
    "chunked_encrypted_size content_size cs = Ok encrypted_size"
    "manifest_wrap (ce_prims ce) wrap_nonce key kek
       (build_wrap_aad (ce_prims ce) file_id (normalize_file_identifier file_path) (Some gid) epoch 3)
       (manifest_digest (ce_prims ce) content_size encrypted_size (Some cs) nonce None) = Ok (wrapped, wrap_nonce)"
    "h = \<lparr>sh_file_id = file_id, sh_file_path = normalize_file_identifier file_path, sh_group_id = Some gid, sh_epoch_id = epoch,
       sh_header_version = 3, sh_wrapped_file_key = wrapped, sh_key_wrap_nonce = wrap_nonce,
       sh_key_wrap_aad_hash = hash_wrap_aad (ce_prims ce)
         (build_wrap_aad (ce_prims ce) file_id (normalize_file_identifier file_path) (Some gid) epoch 3),
       sh_content_nonce = nonce, sh_content_chunk_size = Some cs, sh_original_size = content_size, sh_encrypted_size = encrypted_size,
       sh_encrypted_at = now, sh_original_name = original_name, sh_platform_metadata = platform, sh_sparse_metadata = None\<rparr>"
    "serialize_encrypted_header hv h = Ok header_bytes"
    "encrypt_content_chunked (ce_prims ce) append_writer reads header_bytes key file_id nonce cs = (file, Ok (content_size, hash))"
proof -
  let ?aad = "build_wrap_aad (ce_prims ce) file_id (normalize_file_identifier file_path) (Some gid) epoch 3"
  let ?h = "\<lambda>w wn es. \<lparr>sh_file_id = file_id, sh_file_path = normalize_file_identifier file_path, sh_group_id = Some gid, sh_epoch_id = epoch,
       sh_header_version = 3, sh_wrapped_file_key = w, sh_key_wrap_nonce = wn, sh_key_wrap_aad_hash = hash_wrap_aad (ce_prims ce) ?aad,
       sh_content_nonce = nonce, sh_content_chunk_size = Some cs, sh_original_size = content_size, sh_encrypted_size = es,
       sh_encrypted_at = now, sh_original_name = original_name, sh_platform_metadata = platform, sh_sparse_metadata = None\<rparr>"
  let ?enc = "\<lambda>b k. encrypt_content_chunked (ce_prims ce) append_writer reads b k file_id nonce cs"
  have "\<exists>kek_bytes kek key' es w wn b n.
    hkdf_expand (ce_prims ce) epoch_key HcKeyWrapping 32 = Ok kek_bytes \<and> key_from_bytes kek_bytes = Ok kek \<and> key_from_bytes key = Ok key' \<and>
    chunked_encrypted_size content_size cs = Ok es \<and>
    manifest_wrap (ce_prims ce) wrap_nonce key' kek ?aad (manifest_digest (ce_prims ce) content_size es (Some cs) nonce None) = Ok (w, wn) \<and>
    serialize_encrypted_header hv (?h w wn es) = Ok b \<and> snd (?enc b key') = Ok (n, hash) \<and> n = content_size \<and>
    file = fst (?enc b key') \<and> h = ?h w wn es"
    using assms unfolding seal_streaming_def Let_def
    by (simp only: result_simps split_paired_Ex prod.case case_prod_beta result.inject prod.inject fst_conv snd_conv) blast
  then obtain kek_bytes kek key' es w wn b where
    r: "hkdf_expand (ce_prims ce) epoch_key HcKeyWrapping 32 = Ok kek_bytes" "key_from_bytes kek_bytes = Ok kek" "key_from_bytes key = Ok key'"
      "chunked_encrypted_size content_size cs = Ok es"
      "manifest_wrap (ce_prims ce) wrap_nonce key' kek ?aad (manifest_digest (ce_prims ce) content_size es (Some cs) nonce None) = Ok (w, wn)"
      "serialize_encrypted_header hv (?h w wn es) = Ok b" "?enc b key' = (file, Ok (content_size, hash))" "h = ?h w wn es"
    by (metis surjective_pairing)
  have k: "kek_bytes = kek" "length kek = 32" "key' = key" "length key = 32" using r(2,3) by (auto simp: key_from_bytes_def)
  moreover have "wn = wrap_nonce" using r(5) by (auto simp: manifest_wrap_def manifest_rewrap_def result_simps)
  ultimately show thesis using r by (intro that [of kek es w b]) simp_all
qed

subsection \<open>Positions of chunks\<close>

abbreviation sub :: "'a list \<Rightarrow> nat \<Rightarrow> nat \<Rightarrow> 'a list" where
  "sub p a b \<equiv> take (b - a) (drop a p)"

lemma sub_append: "a \<le> b \<Longrightarrow> b \<le> c \<Longrightarrow> sub p a b @ sub p b c = sub p a c"
proof -
  assume "a \<le> b" "b \<le> c"
  then have "c - a = (b - a) + (c - b)" "drop b p = drop (b - a) (drop a p)" by simp_all
  then show ?thesis by (simp only: take_add)
qed

lemma full_chunks_nth:
  "full_chunks cs chunks \<Longrightarrow> 0 < cs \<Longrightarrow> k < length chunks \<Longrightarrow> chunks ! k = take cs (drop (k * cs) (concat chunks))"
proof (induction chunks arbitrary: k)
  case (Cons c r)
  then have "full_chunks cs r" by (auto simp: full_chunks_Cons split: if_splits)
  with Cons show ?case by (cases k) (auto simp: full_chunks_Cons split: if_splits)
qed simp

lemma chunk_exists:
  assumes "full_chunks cs chunks" "0 < cs" "x < length (concat chunks)" "k * cs \<le> x"
  shows "k < length chunks"
proof (rule ccontr)
  assume "\<not> k < length chunks"
  have "length (concat chunks) \<le> length chunks * cs"
    using assms(1) by (induction chunks) (auto simp: full_chunks_Cons split: if_splits)
  also have "\<dots> \<le> k * cs" using \<open>\<not> k < length chunks\<close> by simp
  finally show False using assms(3,4) by simp
qed

lemma sealed_chunks_nth:
  "sealed_chunks pr key fid base i chunks es \<Longrightarrow>
   length es = length chunks \<and> (\<forall>k < length chunks. encrypt_chunk pr key fid base (i + of_nat k) (chunks ! k) = Ok (es ! k))"
proof (induction chunks arbitrary: i es)
  case Nil
  then show ?case by (cases es) simp_all
next
  case (Cons c r)
  then obtain e es' where es: "es = e # es'" and e: "encrypt_chunk pr key fid base i c = Ok e"
    and rest: "sealed_chunks pr key fid base (i + 1) r es'" by (cases es) auto
  from Cons.IH [OF rest] e show ?case
    unfolding es by (auto simp: nth_Cons add.assoc split: nat.splits)
qed

lemma drop_sealed:
  assumes doc: "aead_documented pr" "length key = 32" "length base = 12"
    and sealed: "sealed_chunks pr key fid base i chunks es" and "full_chunks cs chunks" "0 < cs" "k < length chunks"
  shows "drop (k * (cs + 16)) (concat es) = concat (drop k es)"
  using assms(4-)
proof (induction chunks arbitrary: i es k)
  case (Cons c r)
  then obtain e es' where es: "es = e # es'" and e: "encrypt_chunk pr key fid base i c = Ok e"
    and rest: "sealed_chunks pr key fid base (i + 1) r es'" by (cases es) auto
  show ?case
  proof (cases k)
    case (Suc j)
    with Cons.prems have c: "length c = cs" "full_chunks cs r" "j < length r" by (auto simp: full_chunks_Cons split: if_splits)
    with encrypt_chunk_open(1) [OF doc e] have "length e = cs + 16" by simp
    then show ?thesis using Cons.IH [OF rest c(2) _ c(3)] Cons.prems(3) by (simp add: Suc es)
  qed simp
qed simp

subsection \<open>The loop over the chunks of a range\<close>

lemma range_loop_sealed:
  assumes doc: "aead_documented (ce_prims ce)" "length key = 32" "length base = 12"
    and sealed: "sealed_chunks (ce_prims ce) key fid base 0 chunks es" and full: "full_chunks cs chunks" "0 < cs"
    and small: "length (concat chunks) + 16 < 2 ^ 64"
    and range: "offset < stop" "stop \<le> length (concat chunks)"
  defines "fin \<equiv> (stop - 1) div cs"
  shows "offset div cs \<le> k \<Longrightarrow> k \<le> Suc fin \<Longrightarrow>
    range_loop ce key fid base cs (length (concat chunks)) offset stop [k..<Suc fin] (concat (drop k es)) res =
      Ok (res @ sub (concat chunks) (max offset (k * cs)) stop)"
proof (induction "Suc fin - k" arbitrary: k res)
  case 0
  then have "k = Suc fin" by simp
  moreover have "stop \<le> Suc fin * cs" unfolding fin_def using full(2)
    by (metis Suc_pred' dividend_less_div_times less_eq_Suc_le mult_Suc range(1) less_nat_zero_code not_gr_zero add.commute)
  ultimately show ?case by simp
next
  case (Suc n)
  then have k: "k \<le> fin" by simp
  let ?p = "concat chunks"
  have "k * cs \<le> fin * cs" using k by simp
  also have "\<dots> \<le> stop - 1" unfolding fin_def by simp
  finally have kcs: "k * cs < stop" using range by simp
  have "k < length chunks" using kcs range by (intro chunk_exists [OF full, of "k * cs"]) simp_all
  then have c: "chunks ! k = take cs (drop (k * cs) ?p)" and e: "encrypt_chunk (ce_prims ce) key fid base (of_nat k) (chunks ! k) = Ok (es ! k)"
    and len: "k < length es"
    using full_chunks_nth [OF full] sealed_chunks_nth [OF sealed] by simp_all
  let ?len = "length (chunks ! k)" and ?n = "length ?p"
  have plain: "min (?n - k * cs) cs = ?len" by (simp add: c)
  have offset: "offset < Suc k * cs" using Suc.prems(1) full(2) by (metis div_less_iff_less_mult le_imp_less_Suc)
  let ?i = "sat_sub offset (k * cs)" and ?j = "min stop (k * cs + ?len) - k * cs"
  have stop: "min stop (k * cs + ?len) = min stop (Suc k * cs)" using range(2) kcs by (auto simp: c min_def)
  have ij: "?i \<le> ?j" "?j \<le> ?len" using offset range kcs stop by (auto simp: sat_sub_def)
  have piece: "index_range (chunks ! k) ?i ?j = Some (sub ?p (max offset (k * cs)) (min stop (Suc k * cs)))"
  proof -
    define i j where "i = ?i" and "j = ?j"
    have "k * cs + i = max offset (k * cs)" "j \<le> cs" using stop by (simp_all add: i_def j_def sat_sub_def)
    then have "drop i (chunks ! k) = take (cs - i) (drop (max offset (k * cs)) ?p)"
      by (simp add: c drop_take add.commute)
    moreover have "min (j - i) (cs - i) = min stop (Suc k * cs) - max offset (k * cs)"
      using \<open>j \<le> cs\<close> stop kcs unfolding i_def j_def by (simp add: sat_sub_def max_def min_def diff_le_mono)
    moreover have "index_range (chunks ! k) i j = Some (take (j - i) (drop i (chunks ! k)))"
      using ij by (simp add: index_range_def i_def j_def)
    ultimately show ?thesis unfolding i_def [symmetric] j_def [symmetric] by (simp only: take_take)
  qed
  have reader: "concat (drop k es) = es ! k @ concat (drop (Suc k) es)" using len by (simp flip: Cons_nth_drop_Suc)
  note o = encrypt_chunk_open [OF doc e]
  have "k * cs < 2 ^ 64" "?len + 16 < 2 ^ 64" using kcs range small plain by linarith+
  then have "range_loop ce key fid base cs ?n offset stop (k # [Suc k..<Suc fin]) (concat (drop k es)) res =
      range_loop ce key fid base cs ?n offset stop [Suc k..<Suc fin] (concat (drop (Suc k) es)) (res @ sub ?p (max offset (k * cs)) (min stop (Suc k * cs)))"
    using plain o doc(3) kcs range piece unfolding reader
    by (simp add: checked_mul_def checked_sub_def checked_add_def Let_def build_chunk_aad_def del: upt_Suc)
  also have "\<dots> = Ok ((res @ sub ?p (max offset (k * cs)) (min stop (Suc k * cs))) @ sub ?p (max offset (Suc k * cs)) stop)"
    using Suc k by (intro Suc.hyps(1)) simp_all
  also have "\<dots> = Ok (res @ (sub ?p (max offset (k * cs)) (min stop (Suc k * cs)) @ sub ?p (max offset (Suc k * cs)) stop))"
    by (simp only: append_assoc)
  also have "sub ?p (max offset (k * cs)) (min stop (Suc k * cs)) @ sub ?p (max offset (Suc k * cs)) stop = sub ?p (max offset (k * cs)) stop"
  proof (cases "stop \<le> Suc k * cs")
    case True
    then show ?thesis by simp
  next
    case False
    then show ?thesis using offset sub_append [of "max offset (k * cs)" "Suc k * cs" stop ?p] by simp
  qed
  finally show ?case using k by (simp add: upt_conv_Cons del: upt_Suc)
qed

subsection \<open>The loops over all chunks\<close>

lemma client_chunk_agrees:
  "decrypt_chunk (ce_prims ce) key fid base content st n i = Ok st' \<Longrightarrow> client_chunk ce key fid base content st n i = Ok st'"
  by (cases st) (auto simp: decrypt_chunk_def client_chunk_def result_simps Let_def)

lemma run_rounds_mono:
  "(\<And>st n i st'. f st n i = Ok st' \<Longrightarrow> g st n i = Ok st') \<Longrightarrow> run_rounds f i cs st = Ok st' \<Longrightarrow> run_rounds g i cs st = Ok st'"
proof (induction cs arbitrary: i st)
  case (Cons c r)
  then obtain st2 where "f st (length c) i = Ok st2" "run_rounds f (i + 1) r st2 = Ok st'" by (auto simp: result_simps)
  then show ?case using Cons by (simp add: Cons.prems(1))
qed simp

lemma decrypt_chunked_bytes_sealed:
  assumes doc: "aead_documented (ce_prims ce)" "length key = 32" "length base = 12" and reserve: "ce_reserve ce = (\<lambda>_. True)"
    and sealed: "sealed_chunks (ce_prims ce) key fid base 0 chunks es" and full: "full_chunks cs chunks" "0 < cs" "cs \<le> MAX_CONTENT_CHUNK_SIZE"
    and size: "chunked_encrypted_size (length (concat chunks)) cs = Ok (length (concat es))" "length (concat es) < 2 ^ 64"
    and small: "length (concat chunks) \<le> MAX_IN_MEMORY_PLAINTEXT_BYTES"
  shows "decrypt_chunked_bytes ce key fid base cs (length (concat chunks)) (concat es) = Some (Ok (concat chunks))"
proof -
  have "run_rounds (client_chunk ce key fid base (concat es)) 0 chunks (0, []) = Ok (length (concat es), concat chunks)"
  proof (rule run_rounds_mono)
    show "run_rounds (decrypt_chunk (ce_prims ce) key fid base (concat es)) 0 chunks (0, []) = Ok (length (concat es), concat chunks)"
      using decrypt_sealed_chunks [OF doc sealed, of "[]" "[]"] size(2) by simp
  qed (rule client_chunk_agrees)
  then show ?thesis
    using size(1) small full doc(3) by (simp add: decrypt_chunked_bytes_def chunk_loop_rounds reserve)
qed

lemma stream_chunks_sealed:
  assumes doc: "aead_documented (ce_prims ce)" "length key = 32" "length base = 12"
  assumes "sealed_chunks (ce_prims ce) key fid base i chunks es" "length (concat es) < 2 ^ 64"
  shows "run_rounds (stream_chunk ce oo key fid base) i chunks (concat es, out) = rbind (write_chunks oo chunks out) (\<lambda>out'. Ok ([], out'))"
  using assms(4-)
proof (induction chunks arbitrary: i es out)
  case Nil
  then show ?case by (cases es) simp_all
next
  case (Cons c r)
  then obtain e es' where es: "es = e # es'" and e: "encrypt_chunk (ce_prims ce) key fid base i c = Ok e"
    and rest: "sealed_chunks (ce_prims ce) key fid base (i + 1) r es'" by (cases es) auto
  note o = encrypt_chunk_open [OF doc e]
  have len: "checked_add (length c) 16 = Some (length e)" using o(1) Cons.prems(2) by (simp add: es checked_add_def)
  have cut: "length e \<le> length (concat es)" "take (length e) (concat es) = e" "drop (length e) (concat es) = concat es'"
    by (simp_all add: es)
  have opened: "open_sealed (ce_prims ce) key (derive_chunk_nonce base i) AcFileData (as_bytes fid @ to_le_bytes i) e = Ok c"
    using o(2) by (simp only: build_chunk_aad_def)
  have fit: "length (concat es') < 2 ^ 64" using Cons.prems(2) by (simp add: es)
  obtain out' res where w: "write_chunk oo c out = (out', res)" by fastforce
  have "stream_chunk ce oo key fid base (concat es, out) (length c) i = rbind res (\<lambda>_. Ok (concat es', out'))"
    unfolding stream_chunk_def prod.case len using doc(3) by (simp add: cut opened w)
  then show ?case using Cons.IH [OF rest fit] by (cases res) (simp_all add: w)
qed

lemma manifest_verify_content: "manifest_verify pr (m\<lparr>ef_encrypted_content := c\<rparr>) e legacy = manifest_verify pr m e legacy"
  by (simp add: manifest_verify_def header_version_or_1_def content_nonce_or_empty_def)

lemma unwrap_content:
  "unwrap_with_epoch_key ce (m\<lparr>ef_encrypted_content := c\<rparr>) gid legacy k = unwrap_with_epoch_key ce m gid legacy k"
  by (simp add: unwrap_with_epoch_key_def header_version_or_1_def manifest_verify_content)

subsection \<open>Files that were sealed\<close>

text \<open>A client that has loaded its state, is in the group and holds the epoch key.\<close>

definition ready_to_read :: "'s client_env \<Rightarrow> 's \<Rightarrow> string \<Rightarrow> bytes \<Rightarrow> u64 \<Rightarrow> bytes \<Rightarrow> 's \<Rightarrow> bool" where
  "ready_to_read ce s path gid epoch epoch_key s' \<longleftrightarrow>
     (\<exists>s1 s2 r r'. ce_load ce s = (s1, Ok ()) \<and> ce_sync ce s1 = (s2, r) \<and> ce_active_group ce s2 = Some gid \<and>
        ce_coverage ce path s2 = (s', r') \<and> get_epoch_state ce s' gid epoch = Some epoch_key)"

lemma open_for_reading_ready:
  assumes "ready_to_read ce s (ef_file_path m) gid (ef_epoch_id m) epoch_key s'" and "ef_group_id m = Some gid"
  shows "open_for_reading ce m legacy s = (s', unwrap_with_epoch_key ce m gid legacy epoch_key)"
proof -
  from assms(1) obtain s1 s2 r r' where s: "ce_load ce s = (s1, Ok ())" "ce_sync ce s1 = (s2, r)" "ce_active_group ce s2 = Some gid"
    "ce_coverage ce (ef_file_path m) s2 = (s', r')" "get_epoch_state ce s' gid (ef_epoch_id m) = Some epoch_key"
    by (auto simp: ready_to_read_def)
  have key: "unwrap_verified_file_key ce m gid legacy s' = (s', unwrap_with_epoch_key ce m gid legacy epoch_key)"
    using s(5) by (simp add: unwrap_verified_file_key_def file_epoch_key_def sbind_def sgets_def sres_def)
  show ?thesis
    using s key assms(2) unfolding open_for_reading_def
    by (cases r; cases r') (simp_all add: sbind_def scatch_def sgets_def sres_def)
qed

text \<open>A path that normalization leaves alone is not blank.\<close>

lemma normalized_not_blank: "normalize_file_identifier p = p \<Longrightarrow> trim p \<noteq> []"
proof
  assume p: "normalize_file_identifier p = p" and "trim p = []"
  then have "p = ''/''" by (simp add: normalize_file_identifier_def)
  moreover have "trim ''/'' \<noteq> []" by code_simp
  ultimately show False using \<open>trim p = []\<close> by simp
qed

lemma sealed_file:
  assumes doc: "aead_documented (ce_prims ce)" "length nonce = 12" and full: "full_chunks cs chunks"
    and seal: "seal_streaming ce hv epoch_key gid epoch file_path file_id original_name platform cs source content_size (map Ok chunks)
      key nonce wrap_nonce now = Ok (file, h, hash)"
    and fits: "length file + cs \<le> 2 ^ 64"
  obtains header_bytes es where "serialize_encrypted_header hv h = Ok header_bytes" "file = header_bytes @ concat es"
    "sealed_chunks (ce_prims ce) key file_id nonce 0 chunks es" "content_size = length (concat chunks)"
    "chunked_encrypted_size content_size cs = Ok (length (concat es))" "0 < cs" "cs \<le> MAX_CONTENT_CHUNK_SIZE" "length key = 32"
    "hash = pr_sha256 (ce_prims ce) (concat chunks)"
proof -
  obtain encrypted_size header_bytes where
    size: "chunked_encrypted_size content_size cs = Ok encrypted_size" and ser: "serialize_encrypted_header hv h = Ok header_bytes"
    and key: "length key = 32"
    and enc: "encrypt_content_chunked (ce_prims ce) append_writer (map Ok chunks) header_bytes key file_id nonce cs = (file, Ok (content_size, hash))"
    by (rule seal_streaming_Ok [OF seal]) (rule that; assumption)
  have cs: "0 < cs" "cs \<le> MAX_CONTENT_CHUNK_SIZE"
    using enc by (auto simp: encrypt_content_chunked_def split: if_splits)
  then obtain hashed where run: "encrypt_chunks (ce_prims ce) append_writer key file_id nonce [] 0 0 (map Ok chunks) header_bytes = (file, Ok (content_size, hashed))"
    and hash: "hash = pr_sha256 (ce_prims ce) hashed"
    using enc by (auto simp: encrypt_content_chunked_def result_simps split: prod.splits if_splits)
  from encrypt_chunks_append [OF full_chunks_nonempty [OF cs(1) full] run] obtain es where
    es: "sealed_chunks (ce_prims ce) key file_id nonce 0 chunks es" "file = header_bytes @ concat es" "hashed = concat chunks"
      "content_size = length (concat chunks) mod 2 ^ 64" by auto
  have len: "length (concat es) = length (concat chunks) + 16 * length chunks"
    by (rule sealed_chunks_length [OF doc(1) key doc(2) es(1)])
  have n: "content_size = length (concat chunks)" using es(4) fits cs len es(2) by simp
  have "encrypted_size = length (concat es)"
    using size unfolding chunked_encrypted_size_Ok_iff n full_chunks_count [OF cs(1) full] len by simp
  then show thesis using that ser es n size cs key hash by simp
qed

lemma unwrap_sealed:
  assumes doc: "aead_documented (ce_prims ce)" "sha256_len (pr_sha256 (ce_prims ce))" "length wrap_nonce = 12"
    and seal: "seal_streaming ce hv epoch_key gid epoch file_path file_id original_name platform cs source content_size reads
      key nonce wrap_nonce now = Ok (file, h, hash)"
    and path: "normalize_file_identifier (normalize_file_identifier file_path) = normalize_file_identifier file_path"
    and n: "chunked_encrypted_size content_size cs = Ok n"
  shows "unwrap_with_epoch_key ce (metadata_of_header h n) gid legacy epoch_key = Ok key"
proof -
  let ?pr = "ce_prims ce"
  let ?aad = "build_wrap_aad ?pr file_id (normalize_file_identifier file_path) (Some gid) epoch 3"
  let ?d = "manifest_digest ?pr content_size n (Some cs) nonce None"
  obtain kek wrapped n' where size: "chunked_encrypted_size content_size cs = Ok n'" and
    kek: "hkdf_expand ?pr epoch_key HcKeyWrapping 32 = Ok kek" "length kek = 32" and key: "length key = 32"
    and wrap: "manifest_wrap ?pr wrap_nonce key kek ?aad (manifest_digest ?pr content_size n' (Some cs) nonce None) = Ok (wrapped, wrap_nonce)"
    and h: "h = \<lparr>sh_file_id = file_id, sh_file_path = normalize_file_identifier file_path, sh_group_id = Some gid, sh_epoch_id = epoch,
       sh_header_version = 3, sh_wrapped_file_key = wrapped, sh_key_wrap_nonce = wrap_nonce, sh_key_wrap_aad_hash = hash_wrap_aad ?pr ?aad,
       sh_content_nonce = nonce, sh_content_chunk_size = Some cs, sh_original_size = content_size, sh_encrypted_size = n',
       sh_encrypted_at = now, sh_original_name = original_name, sh_platform_metadata = platform, sh_sparse_metadata = None\<rparr>"
    by (rule seal_streaming_Ok [OF seal]) (rule that; assumption)
  have n': "n' = n" using size n by simp
  have "seal ?pr kek wrap_nonce AcFileData ?aad (key @ ?d) = Ok wrapped"
    using wrap doc(3) unfolding n' by (auto simp: manifest_wrap_def manifest_rewrap_def result_simps)
  then have "open_sealed ?pr kek wrap_nonce AcFileData ?aad wrapped = Ok (key @ ?d)"
    by (simp add: open_sealed_iff [OF doc(1) kek(2) doc(3)])
  moreover have "manifest_verify ?pr (metadata_of_header h n) (key @ ?d) legacy = Ok key"
    using key doc(2) by (simp add: manifest_verify_def h metadata_of_header_def header_version_or_1_def content_nonce_or_empty_def
      sha256_len_def manifest_digest_def key_from_bytes_def sized_bytes_def)
  moreover have "key_from_bytes kek = Ok kek" using kek(2) by (simp add: key_from_bytes_def sized_bytes_def)
  ultimately show ?thesis
    using kek(1) doc(3) by (simp add: unwrap_with_epoch_key_def h metadata_of_header_def header_version_or_1_def path Let_def)
qed

text \<open>What is used of the libraries, and that memory suffices.\<close>

definition file_library :: "'s client_env \<Rightarrow> header_env \<Rightarrow> bool" where
  "file_library ce hv \<longleftrightarrow> aead_documented (ce_prims ce) \<and> sha256_len (pr_sha256 (ce_prims ce)) \<and> header_documented hv \<and> ce_reserve ce = (\<lambda>_. True)"

text \<open>
  A file that the client sealed from a source that delivers full chunks (every read but the last fills a
  chunk), under a path that a second normalization leaves alone, with a header that readers accept (at most
  16 MiB, no empty platform record) and a length that fits 64 bits. The code does not enforce the first two:
  a buffered source delivers short reads when the chunk size is below the buffer size and does not divide it.
\<close>

definition sealed_from :: "'s client_env \<Rightarrow> header_env \<Rightarrow> bytes \<Rightarrow> bytes \<Rightarrow> u64 \<Rightarrow> bytes list \<Rightarrow> bytes \<Rightarrow> serialized_header \<Rightarrow> bool" where
  "sealed_from ce hv epoch_key gid epoch chunks file h \<longleftrightarrow>
     (\<exists>file_path file_id original_name platform cs source content_size key nonce wrap_nonce now hash header_bytes.
        seal_streaming ce hv epoch_key gid epoch file_path file_id original_name platform cs source content_size (map Ok chunks)
          key nonce wrap_nonce now = Ok (file, h, hash) \<and>
        full_chunks cs chunks \<and> length nonce = 12 \<and> length wrap_nonce = 12 \<and> length gid = 16 \<and> length file + cs \<le> 2 ^ 64 \<and>
        normalize_file_identifier (normalize_file_identifier file_path) = normalize_file_identifier file_path \<and>
        (\<forall>m. platform = Some m \<longrightarrow> \<not> platform_is_empty m) \<and>
        serialize_encrypted_header hv h = Ok header_bytes \<and> length header_bytes \<le> MAX_ENCRYPTED_HEADER_BYTES)"

text \<open>What a reader finds in such a file.\<close>

lemma sealed_from_facts:
  assumes lib: "file_library ce hv" and sealed: "sealed_from ce hv epoch_key gid epoch chunks file h"
  obtains key nonce cs es and header_bytes :: bytes where
    "\<And>t. inspect_bytes hv (\<lambda>_. True) t file = Ciphertext (metadata_of_header h (length (concat es)))"
    "locate_ciphertext ce path (Ok file) = Ok (length header_bytes, concat es)"
    "\<And>legacy. unwrap_with_epoch_key ce (metadata_of_header h (length (concat es))) gid legacy epoch_key = Ok key"
    "sealed_chunks (ce_prims ce) key (sh_file_id h) nonce 0 chunks es" "full_chunks cs chunks" "0 < cs" "cs \<le> MAX_CONTENT_CHUNK_SIZE"
    "length key = 32" "length nonce = 12" "length (concat es) + length header_bytes + cs \<le> 2 ^ 64"
    "chunked_encrypted_size (length (concat chunks)) cs = Ok (length (concat es))"
    "sh_original_size h = length (concat chunks)" "sh_content_chunk_size h = Some cs" "sh_content_nonce h = nonce"
    "sh_sparse_metadata h = None" "sh_header_version h = 3" "sh_group_id h = Some gid" "sh_epoch_id h = epoch"
    "normalize_file_identifier (sh_file_path h) = sh_file_path h"
proof -
  have doc: "aead_documented (ce_prims ce)" "sha256_len (pr_sha256 (ce_prims ce))" "header_documented hv" "ce_reserve ce = (\<lambda>_. True)"
    using lib by (simp_all add: file_library_def)
  from sealed obtain file_path file_id original_name platform cs source content_size key nonce wrap_nonce now hash header_bytes where
    seal: "seal_streaming ce hv epoch_key gid epoch file_path file_id original_name platform cs source content_size (map Ok chunks)
        key nonce wrap_nonce now = Ok (file, h, hash)"
    and full: "full_chunks cs chunks" and len: "length nonce = 12" "length wrap_nonce = 12" "length gid = 16" and fits: "length file + cs \<le> 2 ^ 64"
    and path: "normalize_file_identifier (normalize_file_identifier file_path) = normalize_file_identifier file_path"
    and platform: "\<forall>m. platform = Some m \<longrightarrow> \<not> platform_is_empty m"
    and ser: "serialize_encrypted_header hv h = Ok header_bytes" and short: "length header_bytes \<le> MAX_ENCRYPTED_HEADER_BYTES"
    unfolding sealed_from_def by blast
  obtain es where es: "file = header_bytes @ concat es" "sealed_chunks (ce_prims ce) key file_id nonce 0 chunks es"
    "content_size = length (concat chunks)" "chunked_encrypted_size content_size cs = Ok (length (concat es))" "0 < cs" "cs \<le> MAX_CONTENT_CHUNK_SIZE" "length key = 32"
    by (rule sealed_file [OF doc(1) len(1) full seal fits]) (use ser that in auto)
  obtain wrapped aad n where h: "h = \<lparr>sh_file_id = file_id, sh_file_path = normalize_file_identifier file_path, sh_group_id = Some gid, sh_epoch_id = epoch,
       sh_header_version = 3, sh_wrapped_file_key = wrapped, sh_key_wrap_nonce = wrap_nonce, sh_key_wrap_aad_hash = aad,
       sh_content_nonce = nonce, sh_content_chunk_size = Some cs, sh_original_size = content_size, sh_encrypted_size = n,
       sh_encrypted_at = now, sh_original_name = original_name, sh_platform_metadata = platform, sh_sparse_metadata = None\<rparr>"
    by (rule seal_streaming_Ok [OF seal]) (rule that; assumption)
  have small: "length (concat es) + length header_bytes + cs \<le> 2 ^ 64" using fits es(1) by simp
  have size: "length (concat chunks) < 2 ^ 64"
    using es(4) small es(5) unfolding es(3) chunked_encrypted_size_Ok_iff by linarith
  have wf: "wf_header h"
    using es(6) size len(3) platform normalized_not_blank [OF path] by (auto simp: wf_header_def h es(3) split: option.splits)
  have "announced_size h = Some (length (concat es))" using es(4) by (simp add: announced_size_def h)
  then have inspect: "inspect_bytes hv (\<lambda>_. True) t file = Ciphertext (metadata_of_header h (length (concat es)))" for t
    using inspect_written_file [OF doc(3) ser short, of t "concat es"]
    by (simp add: es(1) classify_header_def parse_written_header [OF doc(3) wf])
  have locate: "locate_ciphertext ce path (Ok file) = Ok (length header_bytes, concat es)"
    using read_written_header [OF doc(3) ser short, of "concat es"] by (auto simp: locate_ciphertext_def es(1) doc(4))
  note unwrap = unwrap_sealed [OF doc(1,2) len(2) seal path es(4)]
  show thesis
    by (rule that, rule inspect, rule locate, rule unwrap) (use es full len small path in \<open>simp_all add: h\<close>)
qed

text \<open>The same for a client that can read it: what it finds, and the key that it unwraps.\<close>

lemma sealed_reader:
  assumes lib: "file_library ce hv" and sealed: "sealed_from ce hv epoch_key gid epoch chunks file h"
    and ready: "ready_to_read ce s (sh_file_path h) gid epoch epoch_key s'"
  obtains m key nonce cs es and header_bytes :: bytes where
    "\<And>t. inspect_bytes hv (\<lambda>_. True) t file = Ciphertext m"
    "\<And>legacy. open_for_reading ce m legacy s = (s', Ok key)"
    "\<And>legacy. open_for_reading ce (m\<lparr>ef_encrypted_content := concat es\<rparr>) legacy s = (s', Ok key)"
    "locate_ciphertext ce path (Ok file) = Ok (length header_bytes, concat es)"
    "sealed_chunks (ce_prims ce) key (ef_file_id m) nonce 0 chunks es" "full_chunks cs chunks" "0 < cs" "cs \<le> MAX_CONTENT_CHUNK_SIZE"
    "length key = 32" "length nonce = 12" "length (concat es) + length header_bytes + cs \<le> 2 ^ 64"
    "chunked_encrypted_size (length (concat chunks)) cs = Ok (length (concat es))"
    "ly_content_size m = length (concat chunks)" "ly_content_chunk_size m = Some cs" "ly_content_nonce m = Some nonce"
    "ly_sparse_metadata m = None" "ef_header_version m = Some 3" "ly_encrypted_size m = length (concat es)"
proof -
  obtain key nonce cs es and header_bytes :: bytes where f:
    "\<And>t. inspect_bytes hv (\<lambda>_. True) t file = Ciphertext (metadata_of_header h (length (concat es)))"
    "locate_ciphertext ce path (Ok file) = Ok (length header_bytes, concat es)"
    "\<And>legacy. unwrap_with_epoch_key ce (metadata_of_header h (length (concat es))) gid legacy epoch_key = Ok key"
    "sealed_chunks (ce_prims ce) key (sh_file_id h) nonce 0 chunks es" "full_chunks cs chunks" "0 < cs" "cs \<le> MAX_CONTENT_CHUNK_SIZE"
    "length key = 32" "length nonce = 12" "length (concat es) + length header_bytes + cs \<le> 2 ^ 64"
    "chunked_encrypted_size (length (concat chunks)) cs = Ok (length (concat es))"
    "sh_original_size h = length (concat chunks)" "sh_content_chunk_size h = Some cs" "sh_content_nonce h = nonce"
    "sh_sparse_metadata h = None" "sh_header_version h = 3" "sh_group_id h = Some gid" "sh_epoch_id h = epoch"
    "normalize_file_identifier (sh_file_path h) = sh_file_path h"
    by (rule sealed_from_facts [OF lib sealed]) (rule that)
  define m where "m = metadata_of_header h (length (concat es))"
  have fields_m: "ly_content_size m = length (concat chunks)" "ly_content_chunk_size m = Some cs" "ly_content_nonce m = Some nonce"
    "ly_sparse_metadata m = None" "ef_header_version m = Some 3" "ly_encrypted_size m = length (concat es)" "ef_group_id m = Some gid"
    "ef_epoch_id m = epoch" "ef_file_path m = sh_file_path h" "ef_file_id m = sh_file_id h"
    using f(12-19) by (simp_all add: m_def metadata_of_header_def)
  have open_m: "open_for_reading ce m legacy s = (s', Ok key)" "open_for_reading ce (m\<lparr>ef_encrypted_content := concat es\<rparr>) legacy s = (s', Ok key)"
    for legacy
    using open_for_reading_ready [of ce s m gid epoch_key s' legacy]
      open_for_reading_ready [of ce s "m\<lparr>ef_encrypted_content := concat es\<rparr>" gid epoch_key s' legacy]
      ready fields_m f(3) [of legacy] by (simp_all add: unwrap_content m_def)
  show thesis
    by (rule that [of m], unfold fields_m(10), rule f(1) [folded m_def], rule open_m(1), rule open_m(2)) (use f fields_m in simp_all)
qed

text \<open>Reading a range of sealed chunks.\<close>

lemma read_range_sealed:
  assumes aead: "aead_documented (ce_prims ce)" and reserve: "ce_reserve ce = (\<lambda>_. True)"
    and loc: "locate_ciphertext ce path (Ok file) = Ok (n, concat es)" "length (concat es) + n + cs \<le> 2 ^ 64"
    and sealed: "sealed_chunks (ce_prims ce) key (ef_file_id m) nonce 0 chunks es" "full_chunks cs chunks" "0 < cs" "cs \<le> MAX_CONTENT_CHUNK_SIZE"
      "length key = 32" "length nonce = 12" "chunked_encrypted_size (length (concat chunks)) cs = Ok (length (concat es))"
    and m: "ly_content_size m = length (concat chunks)" "ly_content_chunk_size m = Some cs" "ly_content_nonce m = Some nonce" "ly_sparse_metadata m = None"
    and range: "offset + len \<le> length (concat chunks)" "0 < len"
  shows "read_range ce path (Ok file) m offset len (offset + len) key = Ok (take len (drop offset (concat chunks)))"
proof -
  let ?n = "length (concat chunks)" and ?first = "offset div cs" and ?stop = "offset + len"
  have es: "length (concat es) = ?n + 16 * length chunks" by (rule sealed_chunks_length [OF aead sealed(5,6,1)])
  have first: "?first * cs \<le> offset" by simp
  have k: "?first < length chunks" using range by (intro chunk_exists [OF sealed(2,3), of offset]) simp_all
  have skip: "?first * (cs + 16) \<le> length (concat es)"
  proof -
    have "?first * (cs + 16) = ?first * cs + 16 * ?first" by (simp add: algebra_simps)
    also have "\<dots> \<le> ?n + 16 * length chunks" using first range k by linarith
    finally show ?thesis by (simp only: es)
  qed
  have "range_loop ce key (ef_file_id m) nonce cs ?n offset ?stop [?first..<Suc ((?stop - 1) div cs)] (concat (drop ?first es)) [] =
      Ok ([] @ take (?stop - max offset (?first * cs)) (drop (max offset (?first * cs)) (concat chunks)))"
    using range loc(2) es sealed(3) k by (intro range_loop_sealed [OF aead sealed(5,6,1,2,3)]) (auto intro!: le_SucI div_le_mono)
  moreover have "max offset (?first * cs) = offset" using first by (simp only: max_absorb1)
  ultimately have loop: "range_loop ce key (ef_file_id m) nonce cs ?n offset ?stop [?first..<Suc ((?stop - 1) div cs)] (drop (?first * (cs + 16)) (concat es)) [] =
      Ok (take len (drop offset (concat chunks)))"
    by (simp add: drop_sealed [OF aead sealed(5,6,1,2,3) k] del: upt_Suc)
  have arith: "checked_add cs 16 = Some (cs + 16)" "checked_mul ?first (cs + 16) = Some (?first * (cs + 16))"
    "checked_add n (?first * (cs + 16)) = Some (n + ?first * (cs + 16))"
    using sealed(3,4) loc(2) skip by (simp_all add: checked_add_def checked_mul_def)
  have "length (take len (drop offset (concat chunks))) = len" using range by simp
  then show ?thesis
    unfolding read_range_def using sealed(3,4,6,7) loop
    by (simp add: m loc(1) arith reserve effective_packed_content_size_def Let_def del: upt_Suc)
qed

text \<open>Both ways of reading everything.\<close>

lemma decrypt_sealed_in_memory:
  assumes doc: "aead_documented (ce_prims ce)" "ce_reserve ce = (\<lambda>_. True)"
    and opened: "open_for_reading ce (m\<lparr>ef_encrypted_content := concat es\<rparr>) False s = (s', Ok key)"
    and c: "sealed_chunks (ce_prims ce) key (ef_file_id m) nonce 0 chunks es" "full_chunks cs chunks" "0 < cs" "cs \<le> MAX_CONTENT_CHUNK_SIZE"
      "length key = 32" "length nonce = 12" "chunked_encrypted_size (length (concat chunks)) cs = Ok (length (concat es))" "length (concat es) < 2 ^ 64"
    and m: "ly_content_size m = length (concat chunks)" "ly_content_chunk_size m = Some cs" "ly_content_nonce m = Some nonce"
      "ly_sparse_metadata m = None" "ef_header_version m = Some 3" "ly_encrypted_size m = length (concat es)"
    and small: "length (concat chunks) \<le> MAX_IN_MEMORY_PLAINTEXT_BYTES"
  shows "decrypt_file ce (m\<lparr>ef_encrypted_content := concat es\<rparr>) s =
    Some (ce_rewrap ce (ef_file_path m) (ef_epoch_id m) s', Ok (concat chunks))"
proof -
  let ?m = "m\<lparr>ef_encrypted_content := concat es\<rparr>"
  have size: "declared_packed_size ?m False = Ok (length (concat chunks))"
    using small by (simp add: declared_packed_size_def m c(7) is_chunked_def)
  have packed: "decrypt_packed ce ?m (length (concat chunks)) key = Some (Ok (concat chunks))"
    using decrypt_chunked_bytes_sealed [OF doc(1) c(5,6) doc(2) c(1,2,3,4,7,8) small] by (simp add: decrypt_packed_def m)
  have "\<not> requires_legacy_compatibility ?m" by (simp add: requires_legacy_compatibility_def header_version_or_1_def m)
  then show ?thesis
    using size opened packed by (simp add: decrypt_file_def decrypt_file_with_legacy_policy_def m)
qed

lemma decrypt_sealed_streaming:
  assumes doc: "aead_documented (ce_prims ce)" "ce_reserve ce = (\<lambda>_. True)"
    and opened: "\<And>legacy. open_for_reading ce m legacy s = (s', Ok key)"
    and loc: "locate_ciphertext ce path (Ok file) = Ok (n, concat es)"
    and c: "sealed_chunks (ce_prims ce) key (ef_file_id m) nonce 0 chunks es" "full_chunks cs chunks" "0 < cs" "cs \<le> MAX_CONTENT_CHUNK_SIZE"
      "length key = 32" "length nonce = 12" "chunked_encrypted_size (length (concat chunks)) cs = Ok (length (concat es))" "length (concat es) < 2 ^ 64"
    and m: "ly_content_size m = length (concat chunks)" "ly_content_chunk_size m = Some cs" "ly_content_nonce m = Some nonce"
      "ly_sparse_metadata m = None" "ef_header_version m = Some 3" "ly_encrypted_size m = length (concat es)"
  shows "\<exists>s''. decrypt_file_streaming ce oo write_atomic path (Ok file) m policy s =
    Some (s'', stream_output oo (length (concat chunks)) None chunks)"
proof -
  have compat: "\<not> requires_legacy_compatibility m" and v: "header_version_or_1 m = 3"
    by (simp_all add: requires_legacy_compatibility_def header_version_or_1_def m)
  have prep: "prepare_stream ce oo path (Ok file) m =
      rbind (output_new oo (length (concat chunks)) None) (\<lambda>out. Ok (nonce, cs, length (concat chunks), concat es, out))"
    unfolding prepare_stream_def using c(3,4,6,7) loc by (simp add: m doc(2))
  show ?thesis
  proof (cases "output_new oo (length (concat chunks)) None")
    case (Err e)
    then show ?thesis
      by (simp add: decrypt_file_streaming_def policy_check_def compat v m opened prep stream_output_def)
  next
    case (Ok out)
    have loop: "chunk_loop (stream_chunk ce oo key (ef_file_id m) nonce) cs (length (concat chunks)) 0 (concat es, out) =
        Some (rbind (write_chunks oo chunks out) (\<lambda>out'. Ok ([], out')))"
      by (simp only: chunk_loop_rounds [OF c(2,3)] stream_chunks_sealed [OF doc(1) c(5,6,1,8)])
    have "stream_output oo (length (concat chunks)) None chunks = rbind (write_chunks oo chunks out) (output_finish oo)"
      by (simp add: stream_output_def Ok)
    then show ?thesis
      by (simp add: decrypt_file_streaming_def policy_check_def compat v m opened prep Ok loop)
        (cases "write_chunks oo chunks out"; simp split: result.split)
  qed
qed

subsection \<open>Paths that normalization keeps changing\<close>

text \<open>A file name of printable ASCII characters without separators.\<close>

definition name_char :: "char \<Rightarrow> bool" where
  "name_char c \<longleftrightarrow> 32 < (of_char c :: nat) \<and> (of_char c :: nat) < 127 \<and> c \<noteq> CHR ''/'' \<and> c \<noteq> CHR 0x5C"

definition plain_name :: "string \<Rightarrow> bool" where
  "plain_name a \<longleftrightarrow> a \<noteq> [] \<and> a \<noteq> ''.'' \<and> list_all name_char a"

lemma strip_prefixes_id: "s = [] \<or> hd s \<notin> hd ` set ws \<Longrightarrow> strip_prefixes ws s = s"
proof -
  assume s: "s = [] \<or> hd s \<notin> hd ` set ws"
  have "find (\<lambda>w. w \<noteq> [] \<and> take (length w) s = w) ws = None"
  proof -
    have "\<not> (w \<noteq> [] \<and> take (length w) s = w)" if "w \<in> set ws" for w
      using s that by (cases w; cases s) force+
    then show ?thesis by (auto simp: find_None_iff)
  qed
  then show ?thesis by (subst strip_prefixes.simps) simp
qed

lemma printable_not_white:
  assumes "32 < (of_char c :: nat)" "(of_char c :: nat) < 127"
  shows "c \<notin> hd ` set WHITE_SPACE" and "c \<notin> hd ` set (map rev WHITE_SPACE)"
proof -
  have "list_all (\<lambda>w. of_char (hd w) \<le> (32 :: nat) \<or> (127 :: nat) \<le> of_char (hd w)) WHITE_SPACE"
    "list_all (\<lambda>w. of_char (hd w) \<le> (32 :: nat) \<or> (127 :: nat) \<le> of_char (hd w)) (map rev WHITE_SPACE)"
    by (simp_all add: WHITE_SPACE_def)
  then show "c \<notin> hd ` set WHITE_SPACE" and "c \<notin> hd ` set (map rev WHITE_SPACE)"
    using assms unfolding list_all_iff image_iff by (metis not_le)+
qed

lemma trim_name:
  assumes "plain_name a" and "32 < (of_char c :: nat)" "(of_char c :: nat) < 127"
  shows "trim (c # p @ a) = c # p @ a" and "trim (CHR '' '' # c # p @ a) = c # p @ a" and "trim (CHR '' '' # a) = a"
proof -
  have a: "a \<noteq> []" "list_all name_char a" using assms(1) by (simp_all add: plain_name_def)
  then have l: "rev a \<noteq> []" "name_char (hd (rev a))" by (auto simp: hd_rev list_all_iff)
  have rear: "strip_prefixes (map rev WHITE_SPACE) (rev (q @ a)) = rev (q @ a)" for q
    using l printable_not_white(2) [of "hd (rev a)"] by (intro strip_prefixes_id) (auto simp: name_char_def)
  have white: "strip_prefixes WHITE_SPACE (CHR '' '' # s) = strip_prefixes WHITE_SPACE s" for s
  proof -
    have "find (\<lambda>w. w \<noteq> [] \<and> take (length w) (CHR '' '' # s) = w) WHITE_SPACE = Some '' ''"
      by (simp add: WHITE_SPACE_def)
    then show ?thesis by (subst strip_prefixes.simps) simp
  qed
  have front: "strip_prefixes WHITE_SPACE (c # p @ a) = c # p @ a"
    using printable_not_white(1) [OF assms(2,3)] by (intro strip_prefixes_id) simp
  have front_a: "strip_prefixes WHITE_SPACE a = a"
    using a printable_not_white(1) [of "hd a"] by (intro strip_prefixes_id) (cases a; auto simp: name_char_def)
  show "trim (c # p @ a) = c # p @ a" using front rear [of "c # p"] by (simp add: trim_def)
  show "trim (CHR '' '' # c # p @ a) = c # p @ a" using front white rear [of "c # p"] by (simp add: trim_def)
  show "trim (CHR '' '' # a) = a" using front_a white rear [of "[]"] by (simp add: trim_def)
qed

lemma plain_name_chars:
  assumes "plain_name a"
  shows "CHR ''/'' \<notin> set a" and "CHR 0x5C \<notin> set a"
proof -
  have "\<not> name_char CHR ''/''" "\<not> name_char CHR 0x5C" by (simp_all add: name_char_def)
  then show "CHR ''/'' \<notin> set a" and "CHR 0x5C \<notin> set a" using assms unfolding plain_name_def list_all_iff by blast+
qed

lemma split_char_name: "CHR ''/'' \<notin> set a \<Longrightarrow> split_char CHR ''/'' a = [a]"
  by (induction a) auto

lemma replace_name: "CHR 0x5C \<notin> set a \<Longrightarrow> map (\<lambda>c. if c = CHR 0x5C then CHR ''/'' else c) a = a"
  by (induction a) (simp_all, metis)

lemma normalize_layers:
  assumes "plain_name a"
  shows "normalize_file_identifier (''./ ./ '' @ a) = '' ./ '' @ a"
    and "normalize_file_identifier ('' ./ '' @ a) = CHR '' '' # a"
    and "normalize_file_identifier (CHR '' '' # a) = a"
proof -
  have a: "a \<noteq> []" "a \<noteq> ''.''" "take 1 a \<noteq> ''/''" using assms plain_name_chars(1) [OF assms] by (simp_all add: plain_name_def) (cases a, simp, simp, metis)
  note trims = trim_name [OF assms, of "CHR ''.''"]
  note parts = split_char_name [OF plain_name_chars(1) [OF assms]] replace_name [OF plain_name_chars(2) [OF assms]]
  show "normalize_file_identifier (''./ ./ '' @ a) = '' ./ '' @ a"
    using a trims(1) [of "''/ ./ ''"] parts by (simp add: normalize_file_identifier_def)
  show "normalize_file_identifier ('' ./ '' @ a) = CHR '' '' # a"
    using a trims(2) [of "''/ ''"] parts by (simp add: normalize_file_identifier_def)
  show "normalize_file_identifier (CHR '' '' # a) = a"
    using a trims(3) parts by (simp add: normalize_file_identifier_def)
qed

lemma labels_differ:
  assumes "plain_name a"
  shows "aad_label_from_path ('' ./ '' @ a) = CHR '' '' # a" and "aad_label_from_path (CHR '' '' # a) = a"
  using assms split_char_name [OF plain_name_chars(1) [OF assms]]
  unfolding aad_label_from_path_def normalize_layers [OF assms] by (simp_all add: plain_name_def)

subsection \<open>Properties\<close>

text \<open>
  C6. Range reads are exact. For a file that the client sealed from full chunks, under a path that a second
  normalization leaves alone and with an acceptable header (\<open>sealed_from\<close>), and a client that is in the group and
  holds the epoch key: the file is recognized on disk, and decrypting any range of it of at most 256 MiB gives
  exactly the bytes of the plaintext at these positions, whatever chunks the range touches.
\<close>

theorem range_read_exact:
  assumes lib: "file_library ce hv" and sealed: "sealed_from ce hv epoch_key gid epoch chunks file h"
    and ready: "ready_to_read ce s (sh_file_path h) gid epoch epoch_key s'"
    and range: "offset + len \<le> length (concat chunks)" "len \<le> MAX_IN_MEMORY_PLAINTEXT_BYTES"
  shows "\<exists>m. inspect_bytes hv (\<lambda>_. True) t file = Ciphertext m \<and>
    snd (decrypt_file_range ce path (Ok file) m offset len s) = Ok (take len (drop offset (concat chunks)))"
proof -
  have doc: "aead_documented (ce_prims ce)" "ce_reserve ce = (\<lambda>_. True)" using lib by (simp_all add: file_library_def)
  obtain m key nonce cs es and header_bytes :: bytes where
    inspect: "\<And>t. inspect_bytes hv (\<lambda>_. True) t file = Ciphertext m" and open_m: "\<And>legacy. open_for_reading ce m legacy s = (s', Ok key)"
    and loc: "locate_ciphertext ce path (Ok file) = Ok (length header_bytes, concat es)" "length (concat es) + length header_bytes + cs \<le> 2 ^ 64"
    and c: "sealed_chunks (ce_prims ce) key (ef_file_id m) nonce 0 chunks es" "full_chunks cs chunks" "0 < cs" "cs \<le> MAX_CONTENT_CHUNK_SIZE"
      "length key = 32" "length nonce = 12" "chunked_encrypted_size (length (concat chunks)) cs = Ok (length (concat es))"
    and m: "ly_content_size m = length (concat chunks)" "ly_content_chunk_size m = Some cs" "ly_content_nonce m = Some nonce"
      "ly_sparse_metadata m = None" and v: "ef_header_version m = Some 3"
    by (rule sealed_reader [OF lib sealed ready]) (rule that; assumption)
  have "length (concat es) = length (concat chunks) + 16 * length chunks" by (rule sealed_chunks_length [OF doc(1) c(5,6,1)])
  then have request: "range_request m offset len = Ok (offset + len)"
    using range loc(2) c(3) by (simp add: range_request_def m checked_add_def)
  have "snd (decrypt_file_range ce path (Ok file) m offset len s) = Ok (take len (drop offset (concat chunks)))"
  proof (cases "len = 0")
    case False
    then have "read_range ce path (Ok file) m offset len (offset + len) key = Ok (take len (drop offset (concat chunks)))"
      using range(1) by (intro read_range_sealed [OF doc loc c m]) simp_all
    then show ?thesis
      using False request open_m by (simp add: decrypt_file_range_def m v header_version_or_1_def sbind_def sres_def)
  qed (use request in \<open>simp add: decrypt_file_range_def sbind_def sres_def\<close>)
  then show ?thesis using inspect by blast
qed

text \<open>
  C3. A sealed file reads back. For a file that the client sealed from full chunks, under a path that a second
  normalization leaves alone and with an acceptable header (\<open>sealed_from\<close>), and a client that is in the group and
  holds the epoch key: the file is recognized on disk; decrypted in memory it gives the plaintext, if that has
  at most 256 MiB; and decrypting it to a file returns, publishes nothing but the plaintext whatever operations
  on the output fail, and does publish it when none fails.
\<close>

theorem sealed_file_reads_back:
  assumes lib: "file_library ce hv" and sealed: "sealed_from ce hv epoch_key gid epoch chunks file h"
    and ready: "ready_to_read ce s (sh_file_path h) gid epoch epoch_key s'" and out: "out_documented oo"
  shows "\<exists>m n ciphertext. inspect_bytes hv (\<lambda>_. True) t file = Ciphertext m \<and>
    locate_ciphertext ce path (Ok file) = Ok (n, ciphertext) \<and>
    (length (concat chunks) \<le> MAX_IN_MEMORY_PLAINTEXT_BYTES \<longrightarrow>
       (\<exists>s''. decrypt_file ce (m\<lparr>ef_encrypted_content := ciphertext\<rparr>) s = Some (s'', Ok (concat chunks)))) \<and>
    (\<exists>s'' r. decrypt_file_streaming ce oo write_atomic path (Ok file) m policy s = Some (s'', r) \<and>
       (\<forall>x. r = Ok x \<longrightarrow> x = concat chunks) \<and> (out_reliable oo \<longrightarrow> r = Ok (concat chunks)))"
proof -
  have doc: "aead_documented (ce_prims ce)" "ce_reserve ce = (\<lambda>_. True)" using lib by (simp_all add: file_library_def)
  obtain m key nonce cs es and header_bytes :: bytes where
    inspect: "\<And>t. inspect_bytes hv (\<lambda>_. True) t file = Ciphertext m" and open_m: "\<And>legacy. open_for_reading ce m legacy s = (s', Ok key)"
    and open_c: "\<And>legacy. open_for_reading ce (m\<lparr>ef_encrypted_content := concat es\<rparr>) legacy s = (s', Ok key)"
    and loc: "locate_ciphertext ce path (Ok file) = Ok (length header_bytes, concat es)" "length (concat es) + length header_bytes + cs \<le> 2 ^ 64"
    and c: "sealed_chunks (ce_prims ce) key (ef_file_id m) nonce 0 chunks es" "full_chunks cs chunks" "0 < cs" "cs \<le> MAX_CONTENT_CHUNK_SIZE"
      "length key = 32" "length nonce = 12" "chunked_encrypted_size (length (concat chunks)) cs = Ok (length (concat es))"
    and m: "ly_content_size m = length (concat chunks)" "ly_content_chunk_size m = Some cs" "ly_content_nonce m = Some nonce"
      "ly_sparse_metadata m = None" "ef_header_version m = Some 3" "ly_encrypted_size m = length (concat es)"
    by (rule sealed_reader [OF lib sealed ready]) (rule that; assumption)
  have es: "length (concat es) < 2 ^ 64" using loc(2) c(3) by linarith
  have "length (concat es) = length (concat chunks) + 16 * length chunks" by (rule sealed_chunks_length [OF doc(1) c(5,6,1)])
  then have n: "length (concat chunks) < 2 ^ 64" using es by linarith
  obtain s'' where "decrypt_file_streaming ce oo write_atomic path (Ok file) m policy s = Some (s'', stream_output oo (length (concat chunks)) None chunks)"
    using decrypt_sealed_streaming [OF doc open_m loc(1) c es m] by blast
  then show ?thesis
    using inspect loc(1) decrypt_sealed_in_memory [OF doc open_c c es m] stream_output_plain [OF out n] by blast
qed

subsection \<open>A client and a file that it sealed\<close>

definition sample_client :: "unit client_env" where
  "sample_client =
     \<lparr>ce_prims = sample_prims, ce_debug = (\<lambda>_. []), ce_reserve = (\<lambda>_. True), ce_uuid = (\<lambda>_. []),
      ce_load = (\<lambda>s. (s, Ok ())), ce_sync = (\<lambda>s. (s, Err (ClOther ''offline''))), ce_active_group = (\<lambda>_. Some (replicate 16 1)),
      ce_epochs = (\<lambda>_ _. [(Some (replicate 16 1), replicate 32 5)]), ce_fetch = (\<lambda>_ _ s. (s, Ok ())),
      ce_coverage = (\<lambda>_ s. (s, Ok 0)), ce_rewrap = (\<lambda>_ _ s. s)\<rparr>"

definition sample_sealed :: "string \<Rightarrow> serialized_header" where
  "sample_sealed path =
     \<lparr>sh_file_id = ''f'', sh_file_path = normalize_file_identifier path, sh_group_id = Some (replicate 16 1), sh_epoch_id = 7, sh_header_version = 3,
      sh_wrapped_file_key = (replicate 32 9 @ manifest_digest sample_prims 5 37 (Some 4) (replicate 12 3) None) @ replicate 16 0,
      sh_key_wrap_nonce = replicate 12 2,
      sh_key_wrap_aad_hash = hash_wrap_aad sample_prims
        (build_wrap_aad sample_prims ''f'' (normalize_file_identifier path) (Some (replicate 16 1)) 7 3),
      sh_content_nonce = replicate 12 3, sh_content_chunk_size = Some 4, sh_original_size = 5, sh_encrypted_size = 37,
      sh_encrypted_at = 0, sh_original_name = None, sh_platform_metadata = None, sh_sparse_metadata = None\<rparr>"

definition sample_sealed_file :: bytes where
  "sample_sealed_file = (as_bytes ''{}'' @ [10] @ SEPARATOR_LINE @ [10]) @ [1, 2, 3, 4] @ replicate 16 0 @ [5] @ replicate 16 0"

lemma sample_sealing:
  "seal_streaming sample_client (header_env_for (sample_sealed path)) (replicate 32 5) (replicate 16 1) 7 path ''f'' None None 4 source 5
     (map Ok [[1, 2, 3, 4], [5]]) (replicate 32 9) (replicate 12 3) (replicate 12 2) 0 =
   Ok (sample_sealed_file, sample_sealed path, pr_sha256 sample_prims [1, 2, 3, 4, 5])"
proof -
  have kek: "\<exists>kek. hkdf_expand sample_prims (replicate 32 5) HcKeyWrapping 32 = Ok kek \<and> length kek = 32"
    by (simp add: hkdf_expand_def check_output_length_def guard_def sample_prims_def min_def)
  then obtain kek where kek: "hkdf_expand sample_prims (replicate 32 5) HcKeyWrapping 32 = Ok kek" "length kek = 32" by blast
  have k: "key_from_bytes kek = Ok kek" using kek(2) by (simp add: key_from_bytes_def sized_bytes_def)
  have d: "key_from_bytes (replicate 32 9) = Ok (replicate 32 9)" by (simp add: key_from_bytes_def sized_bytes_def)
  have n: "chunked_encrypted_size 5 4 = Ok 37" by (simp add: chunked_encrypted_size_Ok_iff)
  have w: "manifest_wrap sample_prims (replicate 12 2) (replicate 32 9) kek a x = Ok ((replicate 32 9 @ x) @ replicate 16 0, replicate 12 2)"
    if "length x = 32" for a x
    using that by (simp add: manifest_wrap_def manifest_rewrap_def seal_def sample_prims_def)
  have e: "encrypt_content_chunked sample_prims append_writer (map Ok [[1, 2, 3, 4], [5]]) b (replicate 32 9) ''f'' (replicate 12 3) 4 =
      (b @ [1, 2, 3, 4] @ replicate 16 0 @ [5] @ replicate 16 0, Ok (5, pr_sha256 sample_prims [1, 2, 3, 4, 5]))" for b
    by (simp add: encrypt_content_chunked_def sample_encrypt_chunk add_u64_mod)
  have x: "length (manifest_digest sample_prims 5 37 (Some 4) (replicate 12 3) None) = 32"
    using sample_sha_len by (simp add: manifest_digest_def sample_prims_def sha256_len_def)
  have p: "ce_prims sample_client = sample_prims" by (simp add: sample_client_def)
  show ?thesis
    unfolding seal_streaming_def p kek(1)
    by (simp only: k d n map_err.simps rbind.simps Let_def w [OF x] prod.case)
      (simp only: sample_sealed_def [symmetric] header_env_for_written map_err.simps rbind.simps e prod.case, simp add: sample_sealed_file_def guard_def)
qed

lemma sample_file_library: "file_library sample_client (header_env_for h)"
  using sample_aead sample_sha_len header_env_for_documented
  by (simp add: file_library_def sample_client_def) (simp add: sample_prims_def)

lemma sample_sealed_from:
  "sealed_from sample_client (header_env_for (sample_sealed ''a'')) (replicate 32 5) (replicate 16 1) 7 [[1, 2, 3, 4], [5]]
     sample_sealed_file (sample_sealed ''a'')"
proof -
  have "normalize_file_identifier ''a'' = ''a''" by code_simp
  moreover have "length sample_sealed_file + 4 \<le> 2 ^ 64" by (simp add: sample_sealed_file_def as_bytes_def SEPARATOR_LINE_def)
  moreover have "full_chunks 4 [[1, 2, 3, 4], [5 :: byte]]" by (simp add: full_chunks_Cons)
  ultimately show ?thesis
    unfolding sealed_from_def using sample_sealing [of "''a''" "[]"] header_env_for_written [of "sample_sealed ''a''"] sample_short
    by (intro exI conjI) (assumption | simp)+
qed

lemma sample_ready_to_read: "ready_to_read sample_client () path (replicate 16 1) epoch (replicate 32 5) ()"
  by (simp add: ready_to_read_def sample_client_def get_epoch_state_def)

theorem range_read_exact_witness:
  "\<exists>m. inspect_bytes (header_env_for (sample_sealed ''a'')) (\<lambda>_. True) 5 sample_sealed_file = Ciphertext m \<and>
     snd (decrypt_file_range sample_client ''p'' (Ok sample_sealed_file) m 2 3 ()) = Ok [3, 4, 5]"
  using range_read_exact [OF sample_file_library sample_sealed_from sample_ready_to_read, of 2 3 5 "''p''"] by simp

theorem sealed_file_reads_back_witness:
  "\<exists>m s. inspect_bytes (header_env_for (sample_sealed ''a'')) (\<lambda>_. True) 5 sample_sealed_file = Ciphertext m \<and>
     decrypt_file_streaming sample_client sample_out Ok ''p'' (Ok sample_sealed_file) m Strict () = Some (s, Ok [1, 2, 3, 4, 5])"
  using sealed_file_reads_back [OF sample_file_library sample_sealed_from sample_ready_to_read sample_out_documented(1), of 5 "''p''" Ok Strict]
    sample_out_documented(2) by fastforce

text \<open>The bytes whose hash is the associated data of a wrapped key in the current format.\<close>

definition wrap_aad_message :: "string \<Rightarrow> string \<Rightarrow> bytes \<Rightarrow> u64 \<Rightarrow> bytes" where
  "wrap_aad_message file_id label gid epoch =
     as_bytes ''dek-wrap:v1:'' @ as_bytes file_id @ as_bytes label @ gid @ to_le_bytes epoch @ le_bytes 4 3"

lemma build_wrap_aad_message:
  "build_wrap_aad pr file_id path (Some gid) epoch 3 = pr_sha256 pr (wrap_aad_message file_id (aad_label_from_path path) gid epoch)"
  by (simp add: build_wrap_aad_def wrap_aad_message_def)

text \<open>
  C37. Some paths make a file unreadable. For every file name of printable characters, a file that is sealed
  under the path \<open>./ ./ name\<close> is written without an error, but its key is bound to the label with a leading
  blank, while a reader normalizes the path in the header once more and computes the label without it. Unless
  SHA-256 collides on these two messages or on their hashes, no client of the group can open the file.
\<close>

theorem renormalized_path_unreadable:
  assumes name: "plain_name a"
    and seal: "seal_streaming ce hv epoch_key gid epoch (''./ ./ '' @ a) file_id original_name platform cs source content_size reads
      key nonce wrap_nonce now = Ok (file, h, hash)" "length wrap_nonce = 12"
    and ready: "ready_to_read ce s (CHR '' '' # a) gid epoch epoch_key s'"
    and sha: "inj_on (pr_sha256 (ce_prims ce)) {wrap_aad_message file_id (CHR '' '' # a) gid epoch, wrap_aad_message file_id a gid epoch}"
      "inj_on (pr_sha256 (ce_prims ce)) (pr_sha256 (ce_prims ce) `
        {wrap_aad_message file_id (CHR '' '' # a) gid epoch, wrap_aad_message file_id a gid epoch})"
  shows "open_for_reading ce (metadata_of_header h n) legacy s = (s', Err (ClDecryptionError ''Key wrap AAD hash mismatch''))"
proof -
  let ?x = "wrap_aad_message file_id (CHR '' '' # a) gid epoch" and ?y = "wrap_aad_message file_id a gid epoch"
  define q where "q = '' ./ '' @ a"
  have q: "normalize_file_identifier (''./ ./ '' @ a) = q" "normalize_file_identifier q = CHR '' '' # a"
    unfolding q_def by (rule normalize_layers [OF name])+
  have aad: "build_wrap_aad (ce_prims ce) file_id q (Some gid) epoch 3 = pr_sha256 (ce_prims ce) ?x"
    "build_wrap_aad (ce_prims ce) file_id (CHR '' '' # a) (Some gid) epoch 3 = pr_sha256 (ce_prims ce) ?y"
    unfolding build_wrap_aad_message q_def labels_differ [OF name] by (rule refl)+
  have "?x \<noteq> ?y" by (rule notI, drule arg_cong [of _ _ length]) (simp add: wrap_aad_message_def)
  then have "pr_sha256 (ce_prims ce) (pr_sha256 (ce_prims ce) ?y) \<noteq> pr_sha256 (ce_prims ce) (pr_sha256 (ce_prims ce) ?x)"
    using inj_onD [OF sha(1), of ?x ?y] inj_onD [OF sha(2), of "pr_sha256 (ce_prims ce) ?x" "pr_sha256 (ce_prims ce) ?y"] by fastforce
  then have differ: "hash_wrap_aad (ce_prims ce) (build_wrap_aad (ce_prims ce) file_id (CHR '' '' # a) (Some gid) epoch 3) \<noteq>
      hash_wrap_aad (ce_prims ce) (build_wrap_aad (ce_prims ce) file_id q (Some gid) epoch 3)"
    by (simp only: hash_wrap_aad_def aad not_False_eq_True)
  obtain wrapped encrypted_size where h: "h = \<lparr>sh_file_id = file_id, sh_file_path = q, sh_group_id = Some gid, sh_epoch_id = epoch,
       sh_header_version = 3, sh_wrapped_file_key = wrapped, sh_key_wrap_nonce = wrap_nonce,
       sh_key_wrap_aad_hash = hash_wrap_aad (ce_prims ce) (build_wrap_aad (ce_prims ce) file_id q (Some gid) epoch 3),
       sh_content_nonce = nonce, sh_content_chunk_size = Some cs, sh_original_size = content_size, sh_encrypted_size = encrypted_size,
       sh_encrypted_at = now, sh_original_name = original_name, sh_platform_metadata = platform, sh_sparse_metadata = None\<rparr>"
    by (rule seal_streaming_Ok [OF seal(1), unfolded q(1)]) (rule that; assumption)
  define m where "m = metadata_of_header h n"
  have m: "ef_file_id m = file_id" "ef_file_path m = CHR '' '' # a" "ef_group_id m = Some gid" "ef_epoch_id m = epoch" "header_version_or_1 m = 3"
    "ef_wrapped_file_key m = Some wrapped" "ef_key_wrap_nonce m = Some wrap_nonce" "ef_key_wrap_aad_hash m =
      Some (hash_wrap_aad (ce_prims ce) (build_wrap_aad (ce_prims ce) file_id q (Some gid) epoch 3))"
    by (simp_all add: m_def metadata_of_header_def h header_version_or_1_def q(2))
  have "unwrap_with_epoch_key ce m gid legacy epoch_key = Err (ClDecryptionError ''Key wrap AAD hash mismatch'')"
    unfolding unwrap_with_epoch_key_def m Let_def option.case using differ seal(2) by (simp add: guard_def)
  then show ?thesis
    using open_for_reading_ready [of ce s m gid epoch_key s' legacy] ready by (simp add: m(2-4) m_def [symmetric])
qed

theorem renormalized_path_unreadable_witness:
  "seal_streaming sample_client (header_env_for (sample_sealed ''./ ./ a'')) (replicate 32 5) (replicate 16 1) 7 ''./ ./ a'' ''f'' None None 4 []
      5 (map Ok [[1, 2, 3, 4], [5]]) (replicate 32 9) (replicate 12 3) (replicate 12 2) 0 =
     Ok (sample_sealed_file, sample_sealed ''./ ./ a'', pr_sha256 sample_prims [1, 2, 3, 4, 5]) \<and>
   open_for_reading sample_client (metadata_of_header (sample_sealed ''./ ./ a'') 37) False () =
     ((), Err (ClDecryptionError ''Key wrap AAD hash mismatch''))"
proof -
  let ?x = "wrap_aad_message ''f'' '' a'' (replicate 16 1) 7" and ?y = "wrap_aad_message ''f'' ''a'' (replicate 16 1) 7"
  have p: "ce_prims sample_client = sample_prims" "pr_sha256 sample_prims = sample_sha" by (simp_all add: sample_client_def sample_prims_def)
  have "sample_sha ?x \<noteq> sample_sha ?y" "sample_sha (sample_sha ?x) \<noteq> sample_sha (sample_sha ?y)" by code_simp+
  then have sha: "inj_on (pr_sha256 (ce_prims sample_client)) {?x, ?y}"
    "inj_on (pr_sha256 (ce_prims sample_client)) (pr_sha256 (ce_prims sample_client) ` {?x, ?y})"
    unfolding p by (auto simp: inj_on_def)
  have name: "plain_name ''a''" by code_simp
  show ?thesis
    using renormalized_path_unreadable [OF name _ _ sample_ready_to_read sha, simplified, OF sample_sealing [of "''./ ./ a''" "[]", simplified], of 37 False]
      sample_sealing [of "''./ ./ a''" "[]"] by simp
qed

end
