(* ===== verification/Spec2Isabelle.thy ===== *)
theory Spec2Isabelle
  imports MerkleTree TransparencyClient MountCache Migration SecureMessages ClientFiles
begin

text \<open>
  Verification of HybridCipher, an end-to-end encrypted file store for groups: clients share epoch keys, every
  file has a key of its own that is wrapped under the epoch key of its group, and authenticated logs record
  which keys and files exist. All paths below are under \<open>src/crates\<close>.

  \<^bold>\<open>How the parts work together.\<close> A client derives and exchanges keys with the primitives of the crypto
  crate; new devices receive epoch secrets in welcome messages; an epoch manager moves the group from one
  epoch to the next through migration and a cutover that the members vote on; a coverage log records under
  which epoch each file is encrypted and commits to it by a Merkle root; checkpoints of a transparency log make
  the published roots and join cards auditable; file contents are encrypted in chunks whose layout is bound to
  the wrapped key; a mounted volume serves decrypted chunks from a bounded cache.

  \<^bold>\<open>Conventions.\<close> A Rust \<open>Result\<close> is the datatype \<open>result\<close> of \<open>Prelude\<close> and \<open>?\<close> is \<open>rbind\<close>; stateful
  code is an \<open>action\<close>, which maps a state to the new state and a result, composed by \<open>sbind\<close> and \<open>scatch\<close>, so
  that what a failing call leaves behind is part of the model. \<open>u64\<close> values that may wrap are 64 bit words,
  sizes are natural numbers with the checked operations of the code written out. \<open>f64\<close> is modelled in \<open>Float64\<close>
  with the rounding of IEEE 754. Third-party code is a parameter: a record of functions (\<open>crypto_prims\<close>,
  \<open>ed25519\<close>, \<open>msg_env\<close>, \<open>lru_ops\<close>, \<open>net_env\<close>, \<open>header_env\<close> and others), and what is used of it is
  a predicate named \<open>..._documented\<close> or \<open>..._correct\<close>. Concrete functions that satisfy the predicates (names
  beginning with \<open>sample\<close>) evaluate the properties. Collision resistance is never assumed of a digest: where it
  matters the hypothesis is that the digest is injective on an explicit finite set of messages.

  \<^bold>\<open>Theories and sources.\<close>
  \<^item> \<open>Prelude\<close>: results, actions, text and byte encodings, invariants of step functions (locale
    \<open>invariant_system\<close>, interpreted by every state machine below). \<open>Float64\<close>: double precision arithmetic.
  \<^item> \<open>MerkleSpec\<close>, \<open>MerkleTree\<close>: \<open>merkle/src/lib.rs\<close>; recursive tree hash, and the cached
    implementation, which agrees with it after any sequence of calls; proofs are complete and sound.
  \<^item> \<open>Signatures\<close>, \<open>Transparency\<close>: \<open>crypto/src/signatures.rs\<close>, \<open>messages/src/transparency.rs\<close>; Ed25519 keys and batches, log entries, checkpoints, inclusion and
    consistency proofs; soundness and completeness of both verifiers, and the wrap-around at the largest size.
  \<^item> \<open>TransparencyClient\<close>: \<open>client/src/transparency\<close>; the client's checkpoint store against an arbitrary server. The stored checkpoint is
    authentic and the log behind it only grows; interleaved fetches are explored step by step.
  \<^item> \<open>CoverageLog\<close>: \<open>coverage/src/lib.rs\<close>; recording, signing, verifying and publishing which epoch a file is encrypted under.
  \<^item> \<open>EpochState\<close>: \<open>client/src/epoch/state.rs\<close>; the life cycle of an epoch as a transition system, validation, and versioned storage.
  \<^item> \<open>CutoverMessages\<close>, \<open>CutoverCoordinator\<close>, \<open>Migration\<close>: \<open>messages/src/cutover.rs\<close>, \<open>client/src/epoch\<close>; votes, quorum, commit, rollback and secure deletion.
    Locks are part of the state, so a second lock of the same mutex is visible as not returning.
  \<^item> \<open>MountCache\<close>: \<open>mount/src/cache\<close>; chunk and metadata caches with eviction, over any LRU map that satisfies its documentation.
  \<^item> \<open>Crypto\<close>, \<open>SecureMessages\<close>: the crypto crate and the messages crate; hybrid encapsulation, key derivation,
    protected data, welcome messages, group updates, recovery handoffs, device actions and canonical JSON.
  \<^item> \<open>FileContent\<close>, \<open>FileHeader\<close>: \<open>client/src/file\<close>; chunked and single-record encryption, sparse layouts,
    the content manifest, headers, and recognition of encrypted files among arbitrary bytes.
  \<^item> \<open>PlaintextOutput\<close>: \<open>client/src/file/plaintext_output.rs\<close>; the output that decrypted chunks are written to,
    extent by extent. It publishes what expansion in memory computes.
  \<^item> \<open>ClientFiles\<close>: \<open>client/src/state/client/files.rs\<close>; sealing a file, unwrapping its key, and the three ways to
    read it: in memory, to an output, and a range. Each gives back what was sealed; some paths make a file
    unreadable.

  \<^bold>\<open>Bounds and fuel.\<close> No loop has artificial fuel. Loops of the code that are not structural are \<open>function\<close>s with
  a measure (header reading, inclusion proofs, writing over extents), or \<open>partial_function (option)\<close> (eviction and chunk decryption), for
  which the properties state that a value is returned. Bounds in hypotheses are those of the types, such as
  contents below \<open>2 ^ 64\<close> bytes, and limits that the code itself checks.

  \<^bold>\<open>Not modelled.\<close> Input and output (file system, sockets, HTTP, FUSE, WinFsp, databases), the command line and the
  desktop application, logging and metrics, zeroization and page locking, which have no counterpart in values.
  Background tasks of the client (rewrapping, synchronisation, provider services) are drivers around such calls.
  OPAQUE, Argon2, serde and the cryptographic primitives are third-party code and appear as parameters where
  modelled code calls them. The manifest lists each part with the reason.
\<close>

end
